(* ===== verification/Prelude.thy ===== *)
theory Prelude
  imports Main "HOL-Library.AList" "HOL-Library.Char_ord" "HOL-Library.List_Lexorder"
begin

text \<open>
  Shared vocabulary of the development: Python exceptions as values, the result type of a fallible
  operation and its sequencing, Python indexing, and the list lemmas several components use.
\<close>

section \<open>Results of fallible operations\<close>

text \<open>
  The exceptions the modelled code raises. A message is kept as the fixed phrase that tells the raise
  site apart; the interpolated values of an f-string are left out.
\<close>

datatype py_exn =
    ValueError string
  | KeyError string
  | TypeError string
  | IndexError
  | ZeroDivisionError
  | OverflowError
  | StructError
  | NameError string
  | SyntaxError
  | StopIteration
  | SqlError string

type_synonym 'a res = "py_exn + 'a"

named_theorems res_simps \<open>evaluation of results: bind, traversal, Python indexing\<close>

fun bindE :: "'a res \<Rightarrow> ('a \<Rightarrow> 'b res) \<Rightarrow> 'b res" where
  "bindE (Inl e) f = Inl e"
| "bindE (Inr x) f = f x"

declare bindE.simps [res_simps]

text \<open>A comprehension whose body may raise: the first error ends it.\<close>

fun traverseE :: "('a \<Rightarrow> 'b res) \<Rightarrow> 'a list \<Rightarrow> 'b list res" where
  "traverseE f [] = Inr []"
| "traverseE f (x # xs) = bindE (f x) (\<lambda>y. bindE (traverseE f xs) (\<lambda>ys. Inr (y # ys)))"

text \<open>A loop over a list that updates a state and may raise.\<close>

fun foldE :: "('s \<Rightarrow> 'a \<Rightarrow> 's res) \<Rightarrow> 's \<Rightarrow> 'a list \<Rightarrow> 's res" where
  "foldE f s [] = Inr s"
| "foldE f s (x # xs) = bindE (f s x) (\<lambda>s'. foldE f s' xs)"

text \<open>A search loop that returns its first hit and may raise.\<close>

fun first_some :: "('a \<Rightarrow> 'b option res) \<Rightarrow> 'a list \<Rightarrow> 'b option res" where
  "first_some f [] = Inr None"
| "first_some f (x # xs) =
     bindE (f x) (\<lambda>r. case r of None \<Rightarrow> first_some f xs | Some y \<Rightarrow> Inr (Some y))"

definition is_ok :: "'a res \<Rightarrow> bool" where
  "is_ok r = (case r of Inl _ \<Rightarrow> False | Inr _ \<Rightarrow> True)"

lemma is_ok_simps [simp]: "is_ok (Inr x)" "\<not> is_ok (Inl e)"
  by (simp_all add: is_ok_def)

lemma is_ok_iff: "is_ok r \<longleftrightarrow> (\<exists>x. r = Inr x)"
  by (cases r) simp_all

lemma bindE_assoc: "bindE (bindE r f) g = bindE r (\<lambda>x. bindE (f x) g)"
  by (cases r) simp_all

lemma bindE_return: "bindE r Inr = r"
  by (cases r) simp_all

lemma bindE_Inr_iff: "bindE r f = Inr y \<longleftrightarrow> (\<exists>x. r = Inr x \<and> f x = Inr y)"
  by (cases r) simp_all

lemma bindE_Inl_iff:
  "bindE r f = Inl e \<longleftrightarrow> r = Inl e \<or> (\<exists>x. r = Inr x \<and> f x = Inl e)"
  by (cases r) auto

lemma first_some_None: "first_some f xs = Inr None \<longleftrightarrow> (\<forall>x \<in> set xs. f x = Inr None)"
  by (induction xs) (auto simp: bindE_Inr_iff split: option.splits)

lemma first_some_SomeD: "first_some f xs = Inr (Some y) \<Longrightarrow> \<exists>x \<in> set xs. f x = Inr (Some y)"
  by (induction xs) (auto simp: bindE_Inr_iff split: option.splits)

lemma bindE_cong [fundef_cong]:
  "r = r' \<Longrightarrow> (\<And>x. r' = Inr x \<Longrightarrow> f x = f' x) \<Longrightarrow> bindE r f = bindE r' f'"
  by (cases r') auto

lemma traverseE_cong [fundef_cong]:
  "xs = ys \<Longrightarrow> (\<And>x. x \<in> set ys \<Longrightarrow> f x = g x) \<Longrightarrow> traverseE f xs = traverseE g ys"
  by (induction ys arbitrary: xs) auto

lemma traverseE_Inr [res_simps]:
  assumes "\<And>x. x \<in> set xs \<Longrightarrow> f x = Inr (g x)"
  shows "traverseE f xs = Inr (map g xs)"
  using assms by (induction xs) auto

lemma traverseE_InrD:
  "traverseE f xs = Inr ys \<Longrightarrow> length ys = length xs \<and> (\<forall>i < length xs. f (xs ! i) = Inr (ys ! i))"
proof (induction xs arbitrary: ys)
  case (Cons x xs)
  then obtain y zs where *: "f x = Inr y" "traverseE f xs = Inr zs" "ys = y # zs"
    by (auto simp: bindE_Inr_iff)
  with Cons.IH have "length zs = length xs \<and> (\<forall>i < length xs. f (xs ! i) = Inr (zs ! i))"
    by simp
  with * show ?case
    by (auto simp: nth_Cons split: nat.split)
qed simp

lemma traverseE_ok_iff: "is_ok (traverseE f xs) \<longleftrightarrow> (\<forall>x \<in> set xs. is_ok (f x))"
  by (induction xs) (auto simp: is_ok_iff bindE_Inr_iff)

lemma foldE_append: "foldE f s (xs @ ys) = bindE (foldE f s xs) (\<lambda>s'. foldE f s' ys)"
proof (induction xs arbitrary: s)
  case (Cons x xs)
  then show ?case by (cases "f s x") simp_all
qed simp

lemma foldE_Inr:
  assumes "\<And>s x. x \<in> set xs \<Longrightarrow> f s x = Inr (g s x)"
  shows "foldE f s xs = Inr (foldl g s xs)"
  using assms by (induction xs arbitrary: s) auto

section \<open>Python sequences\<close>

text \<open>\<open>xs[i]\<close>: a negative index counts from the end, one out of range raises.\<close>

definition py_get :: "'a list \<Rightarrow> int \<Rightarrow> 'a res" where
  "py_get xs i =
     (if 0 \<le> i \<and> i < int (length xs) then Inr (xs ! nat i)
      else if i < 0 \<and> - int (length xs) \<le> i then Inr (xs ! nat (int (length xs) + i))
      else Inl IndexError)"

lemma py_get_in [res_simps]:
  "0 \<le> i \<Longrightarrow> i < int (length xs) \<Longrightarrow> py_get xs i = Inr (xs ! nat i)"
  by (simp add: py_get_def)

lemma py_get_nat [res_simps]: "n < length xs \<Longrightarrow> py_get xs (int n) = Inr (xs ! n)"
  by (simp add: py_get_def)

text \<open>\<open>a // b\<close> and \<open>a % b\<close> on Python integers: they round towards minus infinity as \<open>div\<close>
  and \<open>mod\<close> do, and raise on a zero divisor.\<close>

definition py_floordiv :: "int \<Rightarrow> int \<Rightarrow> int res" where
  "py_floordiv a b = (if b = 0 then Inl ZeroDivisionError else Inr (a div b))"

definition py_mod :: "int \<Rightarrow> int \<Rightarrow> int res" where
  "py_mod a b = (if b = 0 then Inl ZeroDivisionError else Inr (a mod b))"

lemma py_floordiv_nz [res_simps]: "b \<noteq> 0 \<Longrightarrow> py_floordiv a b = Inr (a div b)"
  by (simp add: py_floordiv_def)

lemma py_mod_nz [res_simps]: "b \<noteq> 0 \<Longrightarrow> py_mod a b = Inr (a mod b)"
  by (simp add: py_mod_def)

text \<open>\<open>range(lo, hi)\<close>.\<close>

definition py_range :: "int \<Rightarrow> int \<Rightarrow> int list" where
  "py_range lo hi = [lo..hi - 1]"

lemma set_py_range [simp]: "set (py_range lo hi) = {lo..<hi}"
  by (auto simp: py_range_def)

lemma sorted_py_range [simp]: "sorted (py_range lo hi)" "distinct (py_range lo hi)"
  by (simp_all add: py_range_def)

lemma length_py_range [simp]: "length (py_range lo hi) = nat (hi - lo)"
  by (simp add: py_range_def)

lemma nth_py_range [simp]: "i < nat (hi - lo) \<Longrightarrow> py_range lo hi ! i = lo + int i"
  by (simp add: py_range_def nth_upto)

text \<open>\<open>next((x for x in xs if p(x)), None)\<close> is \<^const>\<open>List.find\<close>; \<open>sorted(set(xs))\<close> is:\<close>

definition sorted_set :: "'a::linorder list \<Rightarrow> 'a list" where
  "sorted_set xs = sort (remdups xs)"

lemma set_sorted_set [simp]: "set (sorted_set xs) = set xs"
  by (simp add: sorted_set_def)

lemma sorted_sorted_set [simp]: "sorted (sorted_set xs)" "distinct (sorted_set xs)"
  by (simp_all add: sorted_set_def)

section \<open>Text\<close>

text \<open>\<open>str\<close> of a natural number.\<close>

fun decimal :: "nat \<Rightarrow> string" where
  "decimal n = (if n < 10 then [char_of (48 + n)] else decimal (n div 10) @ [char_of (48 + n mod 10)])"

definition int_text :: "int \<Rightarrow> string" where
  "int_text i = (if i < 0 then CHR ''-'' # decimal (nat (- i)) else decimal (nat i))"

fun join_text :: "string \<Rightarrow> string list \<Rightarrow> string" where
  "join_text sep [] = []"
| "join_text sep [x] = x"
| "join_text sep (x # y # xs) = x @ sep @ join_text sep (y # xs)"

text \<open>\<open>str.isspace\<close> of the Latin-1 characters, \<open>strip\<close>, and \<open>partition\<close>: the text before the first
  separator and, when there is one, the text after it.\<close>

definition py_space :: "char \<Rightarrow> bool" where
  "py_space c \<longleftrightarrow> (let n = (of_char c :: nat) in n \<in> {9, 10, 11, 12, 13, 28, 29, 30, 31, 32, 133, 160})"

definition strip_when :: "(char \<Rightarrow> bool) \<Rightarrow> string \<Rightarrow> string" where
  "strip_when P s = rev (dropWhile P (rev (dropWhile P s)))"

definition py_strip :: "string \<Rightarrow> string" where
  "py_strip s = strip_when py_space s"

fun py_partition :: "char \<Rightarrow> string \<Rightarrow> string \<times> string option" where
  "py_partition sep [] = ([], None)"
| "py_partition sep (c # s) =
     (if c = sep then ([], Some s) else (let (a, b) = py_partition sep s in (c # a, b)))"

text \<open>\<open>str.split\<close> on one separator character.\<close>

fun split_on :: "char \<Rightarrow> string \<Rightarrow> string list" where
  "split_on sep [] = [[]]"
| "split_on sep (c # s) =
     (if c = sep then [] # split_on sep s
      else (case split_on sep s of piece # rest \<Rightarrow> (c # piece) # rest | [] \<Rightarrow> [[c]]))"

text \<open>\<open>int(text)\<close>: surrounding blanks, a sign, digits with single underscores between them.\<close>

definition py_digit :: "char \<Rightarrow> bool" where
  "py_digit c \<longleftrightarrow> 48 \<le> (of_char c :: nat) \<and> (of_char c :: nat) \<le> 57"

fun digit_runs :: "bool \<Rightarrow> string \<Rightarrow> bool" where
  "digit_runs after_digit [] = after_digit"
| "digit_runs after_digit (c # s) =
     (if py_digit c then digit_runs True s
      else if c = CHR ''_'' \<and> after_digit then digit_runs False s else False)"

definition nat_text :: "string \<Rightarrow> nat" where
  "nat_text s = foldl (\<lambda>n c. 10 * n + (of_char c - 48)) 0 (filter py_digit s)"

definition py_int :: "string \<Rightarrow> int res" where
  "py_int s =
     (let t = py_strip s;
          neg = (t \<noteq> [] \<and> hd t = CHR ''-'');
          body = (if t \<noteq> [] \<and> hd t \<in> {CHR ''-'', CHR ''+''} then tl t else t)
      in if \<not> digit_runs False body then Inl (ValueError ''invalid literal for int()'')
         else Inr (if neg then - int (nat_text body) else int (nat_text body)))"

definition starts_with_text :: "string \<Rightarrow> string \<Rightarrow> bool" where
  "starts_with_text s prefix \<longleftrightarrow> take (length prefix) s = prefix"

declare decimal.simps [simp del]

lemma decimal_digit: "n < 10 \<Longrightarrow> decimal n = [char_of (48 + n)]"
  by (simp add: decimal.simps)

lemma decimal_step: "\<not> n < 10 \<Longrightarrow> decimal n = decimal (n div 10) @ [char_of (48 + n mod 10)]"
  by (simp add: decimal.simps [of n])

lemma of_char_digit: "k < 10 \<Longrightarrow> of_char (char_of (48 + k :: nat)) = 48 + k"
  by simp

lemma decimal_digits: "c \<in> set (decimal n) \<Longrightarrow> py_digit c"
proof (induction n rule: decimal.induct)
  case (1 n)
  then show ?case
    by (cases "n < 10") (auto simp: decimal_digit decimal_step py_digit_def of_char_digit)
qed

lemma decimal_nonempty: "decimal n \<noteq> []"
  by (simp add: decimal.simps [of n])

lemma nat_text_decimal: "nat_text (decimal n) = n"
proof (induction n rule: decimal.induct)
  case (1 n)
  have "filter py_digit (decimal m) = decimal m" for m
    using decimal_digits by (simp add: filter_id_conv)
  with 1 show ?case
    by (cases "n < 10")
      (simp_all add: nat_text_def decimal_digit decimal_step py_digit_def of_char_digit del: of_char_of)
qed

lemma digit_runs_digits: "list_all py_digit s \<Longrightarrow> digit_runs b s \<longleftrightarrow> s \<noteq> [] \<or> b"
  by (induction s arbitrary: b) auto

lemma py_digit_plain: "py_digit c \<Longrightarrow> \<not> py_space c \<and> c \<noteq> CHR ''-'' \<and> c \<noteq> CHR ''+''"
  by (auto simp: py_digit_def py_space_def Let_def)

lemma strip_when_id: "(s = [] \<or> \<not> P (hd s) \<and> \<not> P (last s)) \<Longrightarrow> strip_when P s = s"
proof -
  have front: "dropWhile P t = t" if "t = [] \<or> \<not> P (hd t)" for t
    using that by (cases t) auto
  assume "s = [] \<or> \<not> P (hd s) \<and> \<not> P (last s)"
  then have "dropWhile P s = s" "dropWhile P (rev s) = rev s"
    by (auto intro!: front simp: hd_rev)
  then show ?thesis by (simp add: strip_when_def)
qed

lemma py_int_decimal: "py_int (decimal n) = Inr (int n)"
proof -
  have plain: "py_digit (hd (decimal n))" "py_digit (last (decimal n))"
    by (auto intro!: decimal_digits [of _ n] simp: decimal_nonempty)
  then have "py_strip (decimal n) = decimal n"
    unfolding py_strip_def by (intro strip_when_id) (auto dest: py_digit_plain)
  moreover have "digit_runs False (decimal n)"
    using decimal_digits decimal_nonempty by (simp add: digit_runs_digits list_all_iff)
  moreover have "hd (decimal n) \<noteq> CHR ''-''" "hd (decimal n) \<noteq> CHR ''+''"
    using plain(1) py_digit_plain by blast+
  ultimately show ?thesis
    by (simp add: py_int_def Let_def nat_text_decimal)
qed

lemma py_partition_at:
  "sep \<notin> set a \<Longrightarrow> py_partition sep (a @ sep # b) = (a, Some b)"
  by (induction a) auto

lemma py_partition_none: "sep \<notin> set a \<Longrightarrow> py_partition sep a = (a, None)"
  by (induction a) auto

section \<open>Lists\<close>

lemma find_None_cong: "(\<And>x. x \<in> set xs \<Longrightarrow> \<not> P x) \<Longrightarrow> find P xs = None"
  by (simp add: find_None_iff)

lemma find_SomeD: "find P xs = Some x \<Longrightarrow> x \<in> set xs \<and> P x"
  by (induction xs) (auto split: if_splits)

lemma foldl_invariant:
  assumes "I s" "\<And>s x. x \<in> set xs \<Longrightarrow> I s \<Longrightarrow> I (f s x)"
  shows "I (foldl f s xs)"
  using assms by (induction xs arbitrary: s) auto

lemma foldE_invariant:
  assumes "foldE f s xs = Inr s'" "I s"
    and "\<And>s x t. x \<in> set xs \<Longrightarrow> I s \<Longrightarrow> f s x = Inr t \<Longrightarrow> I t"
  shows "I s'"
  using assms by (induction xs arbitrary: s) (auto simp: bindE_Inr_iff)

lemma set_product_lists_iff:
  "ys \<in> set (product_lists xss) \<longleftrightarrow>
     length ys = length xss \<and> (\<forall>d < length xss. ys ! d \<in> set (xss ! d))"
  by (auto simp: product_lists_set list_all2_conv_all_nth)

lemma length_product_lists_prod: "length (product_lists xss) = prod_list (map length xss)"
proof (induction xss)
  case (Cons xs xss)
  have "length (concat (map (\<lambda>x. map ((#) x) (product_lists xss)) xs)) =
      length xs * length (product_lists xss)"
    by (induction xs) auto
  with Cons show ?case by simp
qed simp

lemma distinct_product_lists: "\<forall>xs \<in> set xss. distinct xs \<Longrightarrow> distinct (product_lists xss)"
proof (induction xss)
  case (Cons xs xss)
  then have d: "distinct (product_lists xss)" and "distinct xs" by simp_all
  from \<open>distinct xs\<close> have "distinct (concat (map (\<lambda>x. map ((#) x) (product_lists xss)) xs))"
    by (induction xs) (auto simp: distinct_map d inj_on_def)
  then show ?case by simp
qed simp

section \<open>Integer division\<close>

lemma le_div_iff_int:
  assumes "0 < (b :: int)"
  shows "q \<le> i div b \<longleftrightarrow> b * q \<le> i"
proof
  assume "q \<le> i div b"
  then have "b * q \<le> b * (i div b)" using assms by simp
  also have "\<dots> \<le> i"
    using mult_div_mod_eq [of b i] pos_mod_sign [OF assms, of i] by linarith
  finally show "b * q \<le> i" .
next
  assume "b * q \<le> i"
  from zdiv_mono1 [OF this assms] show "q \<le> i div b" using assms by simp
qed

section \<open>Dictionaries\<close>

text \<open>
  A Python dict is an association list in insertion order, with distinct keys: assignment replaces
  in place or appends (\<^const>\<open>AList.update\<close>), \<open>.get\<close> is \<^const>\<open>map_of\<close>.
\<close>

type_synonym ('k, 'v) dict = "('k \<times> 'v) list"

abbreviation dict_set :: "'k \<Rightarrow> 'v \<Rightarrow> ('k, 'v) dict \<Rightarrow> ('k, 'v) dict" where
  "dict_set \<equiv> AList.update"

definition keys :: "('k, 'v) dict \<Rightarrow> 'k list" where
  "keys d = map fst d"

definition dict_item :: "('k \<Rightarrow> py_exn) \<Rightarrow> ('k, 'v) dict \<Rightarrow> 'k \<Rightarrow> 'v res" where
  "dict_item err d k = (case map_of d k of None \<Rightarrow> Inl (err k) | Some v \<Rightarrow> Inr v)"

definition dict_setdefault :: "'k \<Rightarrow> 'v \<Rightarrow> ('k, 'v) dict \<Rightarrow> ('k, 'v) dict" where
  "dict_setdefault k v d = (if k \<in> fst ` set d then d else d @ [(k, v)])"

text \<open>\<open>{**d, **e}\<close>.\<close>

definition dict_merge :: "('k, 'v) dict \<Rightarrow> ('k, 'v) dict \<Rightarrow> ('k, 'v) dict" where
  "dict_merge d e = foldl (\<lambda>d (k, v). dict_set k v d) d e"

lemma map_of_dict_setdefault:
  "map_of (dict_setdefault k v d) = (if k \<in> dom (map_of d) then map_of d else (map_of d)(k \<mapsto> v))"
proof (cases "map_of d k")
  case None
  then have "k \<notin> fst ` set d" by (simp add: map_of_eq_None_iff)
  moreover have "map_of (d @ [(k, v)]) = (map_of d)(k \<mapsto> v)"
    using None by (auto simp: map_add_def fun_eq_iff split: option.splits)
  ultimately show ?thesis using None by (simp add: dict_setdefault_def domIff)
next
  case (Some w)
  then have "k \<in> fst ` set d" by (force dest: map_of_SomeD)
  with Some show ?thesis by (simp add: dict_setdefault_def domIff)
qed

lemma dict_set_new: "k \<notin> fst ` set d \<Longrightarrow> dict_set k v d = d @ [(k, v)]"
  by (induction d) auto

lemma dict_setdefault_distinct [simp]:
  "distinct (map fst d) \<Longrightarrow> distinct (map fst (dict_setdefault k v d))"
  by (auto simp: dict_setdefault_def)

lemma set_dict_set: "set (dict_set k v d) \<subseteq> insert (k, v) (set d)"
  by (induction d) auto

lemma map_of_dict_merge_other: "x \<notin> fst ` set e \<Longrightarrow> map_of (dict_merge d e) x = map_of d x"
  by (induction e arbitrary: d) (auto simp: dict_merge_def update_conv')

lemma map_of_dict_merge:
  "distinct (map fst e) \<Longrightarrow> map_of (dict_merge d e) = map_of d ++ map_of e"
proof (induction e arbitrary: d)
  case (Cons p e)
  obtain k v where p: "p = (k, v)" by (cases p)
  with Cons.prems have "map_of e k = None" by (simp add: map_of_eq_None_iff)
  with Cons p show ?case
    by (auto simp: dict_merge_def update_conv' map_add_def fun_eq_iff split: option.splits)
qed (simp add: dict_merge_def)

end
