(* ===== verification/Mpi_Grid.thy ===== *)
theory Mpi_Grid
  imports Prelude
begin

text \<open>
  The processor grid of \<^verbatim>\<open>harness/mpi_descriptor.py\<close> (class \<^verbatim>\<open>Grid\<close>), how one axis is dealt
  over a grid dimension (\<^verbatim>\<open>block_bounds\<close>, \<^verbatim>\<open>owned_indices\<close>), and the contract every dealing
  scheme meets, stated as the locale \<open>dealing\<close> and interpreted on the block and the block-cyclic
  schemes of the code. \<^verbatim>\<open>AxisDist\<close> and \<^verbatim>\<open>ArrayDist\<close> are the records of
  \<^verbatim>\<open>harness/requests_api.py\<close>.
\<close>

section \<open>Data\<close>

text \<open>\<^verbatim>\<open>relayout.ops.Scheme\<close> is an enumeration of a package outside the repository; its members
  are the three the code names.\<close>

datatype scheme = Block | Cyclic | Block_cyclic

record axis_dist =
  grid_dim :: "int option"
  scheme_of :: scheme
  block_size :: int

record array_dist =
  axes :: "axis_dist list"
  replicated :: bool

text \<open>\<^verbatim>\<open>AxisDist(grid_dim=None)\<close> and the other defaults of the two models.\<close>

definition whole_axis :: axis_dist where
  "whole_axis = \<lparr>grid_dim = None, scheme_of = Block, block_size = 1\<rparr>"

definition replicated_dist :: array_dist where
  "replicated_dist = \<lparr>axes = [], replicated = True\<rparr>"

lemma whole_axis_simps [simp]: "grid_dim whole_axis = None" "scheme_of whole_axis = Block"
  by (simp_all add: whole_axis_def)

lemma replicated_dist_simps [simp]: "replicated replicated_dist" "axes replicated_dist = []"
  by (simp_all add: replicated_dist_def)

record grid =
  dims :: "int list"

lemma grid_eta [simp]: "\<lparr>dims = dims g\<rparr> = g"
  by (cases g) simp

named_theorems grid_simps \<open>evaluation of grids and dealt axes\<close>

section \<open>Ranks and coordinates\<close>

definition nranks :: "grid \<Rightarrow> int" where
  "nranks g = prod_list (dims g)"

text \<open>\<open>strides[i] = strides[i + 1] * dims[i + 1]\<close>, the last one 1.\<close>

fun strides :: "int list \<Rightarrow> int list" where
  "strides [] = []"
| "strides [d] = [1]"
| "strides (d # e # ds) = (let s = strides (e # ds) in (hd s * e) # s)"

definition coords_of :: "grid \<Rightarrow> int \<Rightarrow> int list res" where
  "coords_of g rank =
     traverseE (\<lambda>(stride, d). bindE (py_floordiv rank stride) (\<lambda>q. py_mod q d))
       (zip (strides (dims g)) (dims g))"

definition rank_of :: "grid \<Rightarrow> int list \<Rightarrow> int" where
  "rank_of g cs = sum_list (map2 (*) cs (strides (dims g)))"

text \<open>Row-major numbering over a list of extents; \<^verbatim>\<open>rank_of\<close> and numpy's C order are both it.\<close>

definition ravel :: "int list \<Rightarrow> int list \<Rightarrow> int" where
  "ravel ds cs = sum_list (map2 (*) cs (strides ds))"

definition unravel :: "int list \<Rightarrow> int \<Rightarrow> int list" where
  "unravel ds r = map2 (\<lambda>s d. (r div s) mod d) (strides ds) ds"

definition in_box :: "int list \<Rightarrow> int list \<Rightarrow> bool" where
  "in_box ds cs = list_all2 (\<lambda>d c. 0 \<le> c \<and> c < d) ds cs"

lemma rank_of_ravel [grid_simps]: "rank_of g cs = ravel (dims g) cs"
  by (simp add: rank_of_def ravel_def)

lemma strides_Cons: "strides (d # ds) = prod_list ds # strides ds"
proof (induction ds arbitrary: d)
  case (Cons e ds)
  then show ?case by (simp add: Let_def mult.commute)
qed simp

declare strides.simps(3) [simp del]
declare strides_Cons [simp]

lemma length_strides [simp]: "length (strides ds) = length ds"
  by (induction ds) (simp_all add: strides_Cons del: strides.simps(2))

lemma ravel_simps [simp]:
  "ravel [] [] = 0"
  "ravel (d # ds) (c # cs) = c * prod_list ds + ravel ds cs"
  by (simp_all add: ravel_def)

lemma unravel_simps [simp]:
  "unravel [] r = []"
  "unravel (d # ds) r = ((r div prod_list ds) mod d) # unravel ds r"
  by (simp_all add: unravel_def)

lemma length_unravel [simp]: "length (unravel ds r) = length ds"
  by (induction ds) simp_all

lemma in_box_simps [simp]:
  "in_box [] cs \<longleftrightarrow> cs = []"
  "in_box ds [] \<longleftrightarrow> ds = []"
  "in_box (d # ds) (c # cs) \<longleftrightarrow> 0 \<le> c \<and> c < d \<and> in_box ds cs"
  by (auto simp: in_box_def)

lemma in_box_length: "in_box ds cs \<Longrightarrow> length cs = length ds"
  by (simp add: in_box_def list_all2_lengthD)

lemma in_box_nth: "in_box ds cs \<Longrightarrow> i < length ds \<Longrightarrow> 0 \<le> cs ! i \<and> cs ! i < ds ! i"
  by (simp add: in_box_def list_all2_conv_all_nth)

lemma in_boxI:
  "length cs = length ds \<Longrightarrow> (\<And>i. i < length ds \<Longrightarrow> 0 \<le> cs ! i \<and> cs ! i < ds ! i) \<Longrightarrow> in_box ds cs"
  by (simp add: in_box_def list_all2_conv_all_nth)

definition positive :: "int list \<Rightarrow> bool" where
  "positive ds = list_all (\<lambda>d. 0 < d) ds"

lemma positive_simps [simp]:
  "positive []" "positive (d # ds) \<longleftrightarrow> 0 < d \<and> positive ds"
  by (simp_all add: positive_def)

lemma positive_nth: "positive ds \<Longrightarrow> i < length ds \<Longrightarrow> 0 < ds ! i"
  by (simp add: positive_def list_all_length)

lemma positive_prod: "positive ds \<Longrightarrow> 0 < prod_list ds"
  by (induction ds) simp_all

lemma in_box_positive: "in_box ds cs \<Longrightarrow> positive ds"
  by (induction ds cs rule: list_induct2') auto

lemma unravel_in_box: "positive ds \<Longrightarrow> in_box ds (unravel ds r)"
  by (induction ds) (auto dest: positive_prod)

lemma ravel_bounds: "in_box ds cs \<Longrightarrow> 0 \<le> ravel ds cs \<and> ravel ds cs < prod_list ds"
proof (induction ds cs rule: list_induct2')
  case (4 d ds c cs)
  then have IH: "0 \<le> ravel ds cs" "ravel ds cs < prod_list ds" and c: "0 \<le> c" "c < d" by auto
  have "c * prod_list ds + ravel ds cs < (c + 1) * prod_list ds"
    using IH by (simp add: algebra_simps)
  also have "\<dots> \<le> d * prod_list ds"
    using c IH by (intro mult_right_mono) auto
  finally show ?case using IH c by simp
qed auto

lemma ravel_unravel: "positive ds \<Longrightarrow> ravel ds (unravel ds r) = r mod prod_list ds"
proof (induction ds)
  case (Cons d ds)
  then have "0 \<le> d" by simp
  then have "r mod (prod_list ds * d) = prod_list ds * (r div prod_list ds mod d) + r mod prod_list ds"
    by (rule zmod_zmult2_eq)
  with Cons show ?case by (simp add: mult.commute)
qed simp

lemma unravel_add_mult: "positive ds \<Longrightarrow> unravel ds (r + k * prod_list ds) = unravel ds r"
proof (induction ds arbitrary: k)
  case (Cons d ds)
  then have p: "0 < prod_list ds" by (auto dest: positive_prod)
  have "(r + k * (d * prod_list ds)) div prod_list ds = r div prod_list ds + k * d"
    using p by (simp flip: mult.assoc)
  moreover have "unravel ds (r + (k * d) * prod_list ds) = unravel ds r"
    using Cons by auto
  ultimately show ?case by (simp add: mult.assoc)
qed simp

lemma unravel_ravel: "in_box ds cs \<Longrightarrow> unravel ds (ravel ds cs) = cs"
proof (induction ds cs rule: list_induct2')
  case (4 d ds c cs)
  then have b: "in_box ds cs" and c: "0 \<le> c" "c < d" by auto
  from b have r: "0 \<le> ravel ds cs" "ravel ds cs < prod_list ds" by (simp_all add: ravel_bounds)
  then have "(c * prod_list ds + ravel ds cs) div prod_list ds = c" by simp
  moreover have "unravel ds (ravel ds cs + c * prod_list ds) = unravel ds (ravel ds cs)"
    using b by (intro unravel_add_mult) (rule in_box_positive)
  ultimately show ?case using 4 c by (simp add: add.commute)
qed auto

lemma ravel_inj: "in_box ds cs \<Longrightarrow> in_box ds cs' \<Longrightarrow> ravel ds cs = ravel ds cs' \<Longrightarrow> cs = cs'"
  by (metis unravel_ravel)

lemma strides_nonzero: "positive ds \<Longrightarrow> s \<in> set (strides ds) \<Longrightarrow> s \<noteq> 0"
  by (induction ds) (auto dest: positive_prod)

lemma coords_of_eq [grid_simps]:
  assumes "positive (dims g)"
  shows "coords_of g r = Inr (unravel (dims g) r)"
proof -
  have nz: "s \<noteq> 0" "d \<noteq> 0" if "(s, d) \<in> set (zip (strides (dims g)) (dims g))" for s d
  proof -
    from that have "s \<in> set (strides (dims g))" "d \<in> set (dims g)"
      by (auto dest: set_zip_leftD set_zip_rightD)
    with assms show "s \<noteq> 0" "d \<noteq> 0"
      using strides_nonzero [OF assms] by (auto simp: positive_def list_all_iff)
  qed
  have "coords_of g r =
      Inr (map (\<lambda>p. (r div fst p) mod snd p) (zip (strides (dims g)) (dims g)))"
    unfolding coords_of_def
    by (rule traverseE_Inr) (clarsimp, frule nz(1), drule nz(2), simp add: res_simps)
  also have "map (\<lambda>p. (r div fst p) mod snd p) (zip (strides (dims g)) (dims g)) =
      unravel (dims g) r"
    by (simp add: unravel_def case_prod_unfold)
  finally show ?thesis .
qed

lemma coords_in_box: "positive (dims g) \<Longrightarrow> coords_of g r = Inr cs \<Longrightarrow> in_box (dims g) cs"
  by (auto simp: coords_of_eq unravel_in_box)


text \<open>Ranks and grid coordinates are in bijection: on a grid of positive extents, the coordinates
  of a rank lie in the grid and \<^verbatim>\<open>rank_of\<close> gives the rank back.\<close>

theorem rank_of_coords_of:
  assumes "list_all (\<lambda>d. 0 < d) (dims g)" and "0 \<le> r" and "r < nranks g"
  shows "\<exists>cs. coords_of g r = Inr cs \<and> list_all2 (\<lambda>d c. 0 \<le> c \<and> c < d) (dims g) cs \<and> rank_of g cs = r"
proof -
  have p: "positive (dims g)" using assms(1) by (simp add: positive_def)
  then have "ravel (dims g) (unravel (dims g) r) = r"
    using assms(2,3) by (simp add: ravel_unravel nranks_def)
  then show ?thesis
    using unravel_in_box [OF p, of r] by (auto simp: grid_simps p in_box_def)
qed

theorem rank_of_coords_of_witness:
  "\<exists>cs. coords_of \<lparr>dims = [2, 3]\<rparr> 5 = Inr cs \<and> list_all2 (\<lambda>d c. 0 \<le> c \<and> c < d) [2, 3] cs
     \<and> rank_of \<lparr>dims = [2, 3]\<rparr> cs = 5"
  using rank_of_coords_of [of "\<lparr>dims = [2, 3]\<rparr>" 5] by (simp add: nranks_def)

lemma coords_of_rank_of:
  assumes "in_box (dims g) cs"
  shows "coords_of g (rank_of g cs) = Inr cs" "0 \<le> rank_of g cs" "rank_of g cs < nranks g"
  using assms ravel_bounds [OF assms]
  by (simp_all add: grid_simps in_box_positive unravel_ravel nranks_def)

section \<open>Dealing one axis\<close>

definition block_bounds :: "int \<Rightarrow> int \<Rightarrow> int \<Rightarrow> (int \<times> int) res" where
  "block_bounds n parts coord =
     bindE (py_floordiv n parts) (\<lambda>base. bindE (py_mod n parts) (\<lambda>rem.
       let lo = coord * base + min coord rem;
           hi = lo + base + (if coord < rem then 1 else 0)
       in Inr (lo, hi)))"

definition effective_block_size :: "axis_dist \<Rightarrow> int" where
  "effective_block_size axis = (if scheme_of axis = Block_cyclic then max 1 (block_size axis) else 1)"

text \<open>\<open>(idx // b) % parts == coord\<close> on a numpy index array: numpy's integer remainder by zero is 0.\<close>

definition np_mod :: "int \<Rightarrow> int \<Rightarrow> int" where
  "np_mod a b = (if b = 0 then 0 else a mod b)"

definition owned_indices :: "int \<Rightarrow> axis_dist \<Rightarrow> grid \<Rightarrow> int list \<Rightarrow> int list res" where
  "owned_indices n axis g coords =
     (case grid_dim axis of
        None \<Rightarrow> Inr (py_range 0 n)
      | Some gd \<Rightarrow>
          bindE (py_get (dims g) gd) (\<lambda>parts. bindE (py_get coords gd) (\<lambda>coord.
            if scheme_of axis = Block
            then bindE (block_bounds n parts coord) (\<lambda>(lo, hi). Inr (py_range lo hi))
            else Inr (filter (\<lambda>i. np_mod (i div effective_block_size axis) parts = coord) (py_range 0 n)))))"

lemma effective_block_size_pos [simp]: "0 < effective_block_size axis"
  unfolding effective_block_size_def by (cases "scheme_of axis") auto

text \<open>The two dealings without the guards, for coordinates of a grid of positive extents.\<close>

definition block_lo :: "int \<Rightarrow> int \<Rightarrow> int \<Rightarrow> int" where
  "block_lo n parts c = c * (n div parts) + min c (n mod parts)"

definition block_own :: "int \<Rightarrow> int \<Rightarrow> int \<Rightarrow> int list" where
  "block_own n parts c = py_range (block_lo n parts c) (block_lo n parts (c + 1))"

definition cyclic_own :: "int \<Rightarrow> int \<Rightarrow> int \<Rightarrow> int \<Rightarrow> int list" where
  "cyclic_own b n parts c = filter (\<lambda>i. (i div b) mod parts = c) (py_range 0 n)"

definition axis_own :: "axis_dist \<Rightarrow> int \<Rightarrow> int \<Rightarrow> int \<Rightarrow> int list" where
  "axis_own axis = (if scheme_of axis = Block then block_own else cyclic_own (effective_block_size axis))"

lemma block_bounds_eq:
  "0 < parts \<Longrightarrow> block_bounds n parts c = Inr (block_lo n parts c, block_lo n parts (c + 1))"
  by (auto simp: block_bounds_def block_lo_def res_simps Let_def algebra_simps)

lemma block_lo_0 [simp]: "0 < parts \<Longrightarrow> block_lo n parts 0 = 0"
  by (simp add: block_lo_def)

lemma block_lo_parts: "0 < parts \<Longrightarrow> block_lo n parts parts = n"
proof -
  assume "0 < parts"
  then have "min parts (n mod parts) = n mod parts"
    by (intro min_absorb2) (simp add: less_imp_le)
  then show ?thesis by (simp add: block_lo_def)
qed

lemma block_lo_mono:
  assumes "0 < parts" "0 \<le> n" "c \<le> c'"
  shows "block_lo n parts c \<le> block_lo n parts c'"
proof -
  have "0 \<le> n div parts" using assms by (simp add: pos_imp_zdiv_nonneg_iff)
  then have "c * (n div parts) \<le> c' * (n div parts)"
    using assms by (intro mult_right_mono) auto
  then show ?thesis using assms by (simp add: block_lo_def min_def)
qed


lemma block_lo_nonneg:
  assumes "0 < parts" "0 \<le> n" "0 \<le> c"
  shows "0 \<le> block_lo n parts c"
  using block_lo_mono [OF assms] assms(1) by simp

lemma set_block_own: "set (block_own n parts c) = {block_lo n parts c..<block_lo n parts (c + 1)}"
  by (simp add: block_own_def)

text \<open>The contract of a dealing scheme: for a positive number of parts the index sets of the
  coordinates tile \<open>[0, n)\<close>.\<close>

locale dealing =
  fixes own :: "int \<Rightarrow> int \<Rightarrow> int \<Rightarrow> int list"
  assumes own_sorted: "0 < parts \<Longrightarrow> 0 \<le> n \<Longrightarrow> sorted (own n parts c) \<and> distinct (own n parts c)"
    and own_sub: "0 < parts \<Longrightarrow> 0 \<le> n \<Longrightarrow> 0 \<le> c \<Longrightarrow> c < parts \<Longrightarrow> set (own n parts c) \<subseteq> {0..<n}"
    and own_cover: "0 < parts \<Longrightarrow> 0 \<le> n \<Longrightarrow> 0 \<le> i \<Longrightarrow> i < n \<Longrightarrow>
      \<exists>c. 0 \<le> c \<and> c < parts \<and> i \<in> set (own n parts c)"
    and own_disjoint: "0 < parts \<Longrightarrow> 0 \<le> n \<Longrightarrow> 0 \<le> c \<Longrightarrow> c < parts \<Longrightarrow> 0 \<le> c' \<Longrightarrow> c' < parts \<Longrightarrow>
      i \<in> set (own n parts c) \<Longrightarrow> i \<in> set (own n parts c') \<Longrightarrow> c = c'"
begin

lemma unique_owner:
  assumes "0 < parts" "0 \<le> n" "0 \<le> i" "i < n"
  shows "\<exists>!c. 0 \<le> c \<and> c < parts \<and> i \<in> set (own n parts c)"
  using own_cover [OF assms] own_disjoint [OF assms(1,2)] by blast

lemma union_own:
  assumes "0 < parts" "0 \<le> n"
  shows "(\<Union>c \<in> {0..<parts}. set (own n parts c)) = {0..<n}"
  using own_sub [OF assms] own_cover [OF assms] by fastforce

text \<open>The local extents add up to the global one.\<close>

lemma sum_lengths:
  assumes "0 < parts" "0 \<le> n"
  shows "(\<Sum>c \<in> {0..<parts}. length (own n parts c)) = nat n"
proof -
  have "(\<Sum>c \<in> {0..<parts}. length (own n parts c)) = (\<Sum>c \<in> {0..<parts}. card (set (own n parts c)))"
    using own_sorted [OF assms] by (simp add: distinct_card)
  also have "\<dots> = card (\<Union>c \<in> {0..<parts}. set (own n parts c))"
    by (rule card_UN_disjoint [symmetric]) (use own_disjoint [OF assms] in fastforce)+
  also have "\<dots> = nat n" by (simp add: union_own [OF assms])
  finally show ?thesis .
qed

end

lemma block_own_step:
  assumes "0 < parts" "0 \<le> n" "0 \<le> c"
  shows "(\<Union>d \<in> {0..<c}. set (block_own n parts d)) = {0..<block_lo n parts c}"
  using assms(3)
proof (induction c rule: int_ge_induct)
  case base
  then show ?case using assms by simp
next
  case (step c)
  have "0 \<le> block_lo n parts c" "block_lo n parts c \<le> block_lo n parts (c + 1)"
    using assms step.hyps by (auto intro: block_lo_mono block_lo_nonneg)
  moreover have "{0..<c + 1} = insert c {0..<c}" using step.hyps by auto
  ultimately show ?case using step.IH assms by (auto simp: set_block_own)
qed

interpretation block: dealing block_own
proof
  fix n parts c i :: int
  assume p: "0 < parts" and n: "0 \<le> n"
  show "sorted (block_own n parts c) \<and> distinct (block_own n parts c)"
    by (simp add: block_own_def)
  { assume "0 \<le> c" "c < parts"
    then have "0 \<le> block_lo n parts c" "block_lo n parts (c + 1) \<le> block_lo n parts parts"
      using p n by (auto intro: block_lo_mono block_lo_nonneg)
    then show "set (block_own n parts c) \<subseteq> {0..<n}"
      using p by (auto simp: set_block_own block_lo_parts) }
  { assume "0 \<le> i" "i < n"
    then have "i \<in> (\<Union>d \<in> {0..<parts}. set (block_own n parts d))"
      using p n by (subst block_own_step) (auto simp: block_lo_parts)
    then show "\<exists>c. 0 \<le> c \<and> c < parts \<and> i \<in> set (block_own n parts c)" by auto }
  { fix c'
    assume i: "i \<in> set (block_own n parts c)" "i \<in> set (block_own n parts c')"
    show "c = c'"
    proof (rule ccontr)
      assume "c \<noteq> c'"
      then consider "c + 1 \<le> c'" | "c' + 1 \<le> c" by linarith
      then show False
      proof cases
        case 1
        then have "block_lo n parts (c + 1) \<le> block_lo n parts c'" by (rule block_lo_mono [OF p n])
        with i show False by (simp add: set_block_own)
      next
        case 2
        then have "block_lo n parts (c' + 1) \<le> block_lo n parts c" by (rule block_lo_mono [OF p n])
        with i show False by (simp add: set_block_own)
      qed
    qed }
qed

interpretation cyclic: dealing "cyclic_own b" for b
proof
  fix n parts c i :: int
  assume p: "0 < parts"
  show "sorted (cyclic_own b n parts c) \<and> distinct (cyclic_own b n parts c)"
    by (simp add: cyclic_own_def sorted_wrt_filter)
  show "set (cyclic_own b n parts c) \<subseteq> {0..<n}"
    by (auto simp: cyclic_own_def)
  { assume "0 \<le> i" "i < n"
    then show "\<exists>c. 0 \<le> c \<and> c < parts \<and> i \<in> set (cyclic_own b n parts c)"
      using p by (intro exI [of _ "(i div b) mod parts"]) (simp add: cyclic_own_def) }
  { fix c'
    assume "i \<in> set (cyclic_own b n parts c)" "i \<in> set (cyclic_own b n parts c')"
    then show "c = c'" by (simp add: cyclic_own_def) }
qed

interpretation ax: dealing "axis_own axis" for axis
proof (cases "scheme_of axis = Block")
  case True
  then show "dealing (axis_own axis)" by (simp add: axis_own_def block.dealing_axioms)
next
  case False
  then show "dealing (axis_own axis)" by (simp add: axis_own_def cyclic.dealing_axioms)
qed

lemma owned_indices_eq [grid_simps]:
  assumes "positive (dims g)" "length cs = length (dims g)"
    and "\<And>gd. grid_dim axis = Some gd \<Longrightarrow> 0 \<le> gd \<and> gd < int (length (dims g))"
  shows "owned_indices n axis g cs =
    Inr (case grid_dim axis of None \<Rightarrow> py_range 0 n
         | Some gd \<Rightarrow> axis_own axis n (dims g ! nat gd) (cs ! nat gd))"
proof (cases "grid_dim axis")
  case None
  then show ?thesis by (simp add: owned_indices_def)
next
  case (Some gd)
  with assms(3) have "0 \<le> gd" "gd < int (length (dims g))" by auto
  moreover from this have pos: "0 < dims g ! nat gd"
    using assms(1) by (simp add: positive_nth)
  ultimately show ?thesis
    using Some assms(2)
    by (simp add: owned_indices_def res_simps block_bounds_eq axis_own_def block_own_def
        cyclic_own_def np_mod_def)
qed

end
