(* ===== verification/Mpi_Scatter.thy ===== *)
theory Mpi_Scatter
  imports Mpi_Grid
begin

text \<open>
  Scatter and gather of \<^verbatim>\<open>harness/mpi_descriptor.py\<close>: the tile a rank owns (\<^verbatim>\<open>axis_index_lists\<close>,
  \<^verbatim>\<open>local_shape\<close>), \<^verbatim>\<open>scatter\<close>, its inverse \<^verbatim>\<open>gather\<close> and the check \<^verbatim>\<open>is_partition\<close>. A numpy
  array is its shape and its elements in C order; \<^verbatim>\<open>np.ix_\<close> reads and writes are written out,
  with numpy's index wrapping, bounds errors and broadcasting of an assigned value.
\<close>

section \<open>Arrays\<close>

record 'a ndarray =
  shape :: "int list"
  elems :: "'a list"

definition wf_array :: "'a ndarray \<Rightarrow> bool" where
  "wf_array a \<longleftrightarrow> list_all (\<lambda>n. 0 \<le> n) (shape a) \<and> int (length (elems a)) = prod_list (shape a)"

text \<open>All multi-indices of a shape, in C order.\<close>

definition box_indices :: "int list \<Rightarrow> int list list" where
  "box_indices shp = product_lists (map (py_range 0) shp)"

definition elem :: "'a ndarray \<Rightarrow> int list \<Rightarrow> 'a" where
  "elem a ix = elems a ! nat (ravel (shape a) ix)"

text \<open>\<open>np.empty\<close>: its elements are whatever memory held, the parameter \<open>junk\<close>.\<close>

definition np_empty :: "(nat \<Rightarrow> 'a) \<Rightarrow> int list \<Rightarrow> 'a ndarray res" where
  "np_empty junk shp =
     (if list_ex (\<lambda>n. n < 0) shp then Inl (ValueError ''negative dimensions are not allowed'')
      else Inr \<lparr>shape = shp, elems = map junk [0..<nat (prod_list shp)]\<rparr>)"

text \<open>One fancy index against an axis of extent \<open>n\<close>.\<close>

definition np_index :: "int \<Rightarrow> int \<Rightarrow> int res" where
  "np_index n i = (if 0 \<le> i \<and> i < n then Inr i else if - n \<le> i \<and> i < 0 then Inr (i + n) else Inl IndexError)"

definition np_ix :: "int list \<Rightarrow> int list list \<Rightarrow> int list list res" where
  "np_ix shp ls =
     (if length ls \<noteq> length shp then Inl IndexError
      else traverseE (\<lambda>(n, l). traverseE (np_index n) l) (zip shp ls))"

definition np_ix_get :: "'a ndarray \<Rightarrow> int list list \<Rightarrow> 'a ndarray res" where
  "np_ix_get a ls =
     bindE (np_ix (shape a) ls) (\<lambda>ls'.
       Inr \<lparr>shape = map (\<lambda>l. int (length l)) ls', elems = map (elem a) (product_lists ls')\<rparr>)"

text \<open>Broadcasting a value of shape \<open>src\<close> into a target of shape \<open>dst\<close>: leading extents of 1 are
  dropped, missing ones added, and an extent of 1 repeats.\<close>

definition drop_leading :: "int list \<Rightarrow> int list \<Rightarrow> int list" where
  "drop_leading dst src = drop (length src - length dst) src"

definition broadcasts :: "int list \<Rightarrow> int list \<Rightarrow> bool" where
  "broadcasts dst src =
     (list_all (\<lambda>n. n = 1) (take (length src - length dst) src) \<and>
      list_all2 (\<lambda>d s. s = d \<or> s = 1) (drop (length dst - length (drop_leading dst src)) dst)
        (drop_leading dst src))"

definition broadcast_elem :: "'a ndarray \<Rightarrow> int list \<Rightarrow> int list \<Rightarrow> 'a" where
  "broadcast_elem v dst ix =
     (let src = drop_leading dst (shape v);
          jx = map2 (\<lambda>s i. if s = 1 then 0 else i) src (drop (length ix - length src) ix)
      in elems v ! nat (ravel src jx))"

text \<open>The elements an assignment to a target of shape \<open>dst\<close> writes, in C order.\<close>

definition broadcast_values :: "'a ndarray \<Rightarrow> int list \<Rightarrow> 'a list" where
  "broadcast_values v dst = map (broadcast_elem v dst) (box_indices dst)"

definition write_all :: "int list \<Rightarrow> 'a list \<Rightarrow> (int list \<times> 'a) list \<Rightarrow> 'a list" where
  "write_all shp xs ws = foldl (\<lambda>ys (ix, v). ys[nat (ravel shp ix) := v]) xs ws"

definition np_ix_set :: "'a ndarray \<Rightarrow> int list list \<Rightarrow> 'a ndarray \<Rightarrow> 'a ndarray res" where
  "np_ix_set a ls v =
     bindE (np_ix (shape a) ls) (\<lambda>ls'.
       let dst = map (\<lambda>l. int (length l)) ls'
       in if broadcasts dst (shape v)
          then Inr (a\<lparr>elems := write_all (shape a) (elems a) (zip (product_lists ls') (broadcast_values v dst))\<rparr>)
          else Inl (ValueError ''could not be broadcast to indexing result''))"

text \<open>\<open>out[...] = v\<close>.\<close>

definition np_fill :: "'a ndarray \<Rightarrow> 'a ndarray \<Rightarrow> 'a ndarray res" where
  "np_fill a v =
     (if broadcasts (shape a) (shape v) then Inr (a\<lparr>elems := broadcast_values v (shape a)\<rparr>)
      else Inl (ValueError ''could not broadcast input array''))"

text \<open>\<open>seen[np.ix_(...)] += 1\<close>: numpy buffers the read, so a repeated index counts once.\<close>

definition np_ix_inc :: "int ndarray \<Rightarrow> int list list \<Rightarrow> int ndarray res" where
  "np_ix_inc a ls =
     bindE (np_ix (shape a) ls) (\<lambda>ls'.
       let at = map (\<lambda>ix. nat (ravel (shape a) ix)) (product_lists ls')
       in Inr (a\<lparr>elems := map (\<lambda>(p, x). if p \<in> set at then x + 1 else x) (enumerate 0 (elems a))\<rparr>))"

section \<open>Tiles\<close>

definition axis_index_lists :: "int list \<Rightarrow> array_dist \<Rightarrow> grid \<Rightarrow> int list \<Rightarrow> int list list res" where
  "axis_index_lists shp dist g coords =
     (if length (axes dist) \<noteq> length shp then Inl (ValueError ''ArrayDist axes against array dimensions'')
      else traverseE (\<lambda>(n, ax). owned_indices n ax g coords) (zip shp (axes dist)))"

definition local_shape :: "int list \<Rightarrow> array_dist \<Rightarrow> grid \<Rightarrow> int \<Rightarrow> int list res" where
  "local_shape shp dist g rank =
     (if replicated dist then Inr shp
      else bindE (coords_of g rank) (\<lambda>coords.
           bindE (axis_index_lists shp dist g coords) (\<lambda>ls. Inr (map (\<lambda>l. int (length l)) ls))))"

definition scatter :: "'a ndarray \<Rightarrow> array_dist \<Rightarrow> grid \<Rightarrow> 'a ndarray list res" where
  "scatter a dist g =
     (if replicated dist then Inr (replicate (nat (nranks g)) a)
      else traverseE (\<lambda>rank. bindE (coords_of g rank) (\<lambda>coords.
             bindE (axis_index_lists (shape a) dist g coords) (\<lambda>ls. np_ix_get a ls)))
           (py_range 0 (nranks g)))"

definition gather_rank ::
    "'a ndarray list \<Rightarrow> array_dist \<Rightarrow> grid \<Rightarrow> int list \<Rightarrow> 'a ndarray \<Rightarrow> int \<Rightarrow> 'a ndarray res" where
  "gather_rank tiles dist g shp out rank =
     bindE (coords_of g rank) (\<lambda>coords.
     bindE (axis_index_lists shp dist g coords) (\<lambda>ls.
     bindE (py_get tiles rank) (\<lambda>tile. np_ix_set out ls tile)))"

definition gather ::
    "(nat \<Rightarrow> 'a) \<Rightarrow> 'a ndarray list \<Rightarrow> array_dist \<Rightarrow> grid \<Rightarrow> int list \<Rightarrow> 'a ndarray res" where
  "gather junk tiles dist g shp =
     bindE (np_empty junk shp) (\<lambda>out.
       if replicated dist then bindE (py_get tiles 0) (\<lambda>tile. np_fill out tile)
       else foldE (gather_rank tiles dist g shp) out (py_range 0 (nranks g)))"

definition is_partition :: "int list \<Rightarrow> array_dist \<Rightarrow> grid \<Rightarrow> bool res" where
  "is_partition shp dist g =
     (if replicated dist then Inr True
      else bindE (np_empty (\<lambda>_. 0) shp) (\<lambda>seen.
           bindE (foldE (\<lambda>s rank. bindE (coords_of g rank) (\<lambda>coords.
                    bindE (axis_index_lists shp dist g coords) (\<lambda>ls. np_ix_inc s ls)))
                  seen (py_range 0 (nranks g)))
             (\<lambda>s. Inr (list_all (\<lambda>x. x = 1) (elems s)))))"

section \<open>Index lemmas\<close>

lemma set_box_indices: "set (box_indices shp) = {ix. in_box shp ix}"
  by (auto simp: box_indices_def set_product_lists_iff in_box_def list_all2_conv_all_nth)

lemma map_ravel_box: "map (ravel shp) (box_indices shp) = py_range 0 (prod_list shp)"
  if "list_all (\<lambda>n. 0 \<le> n) shp"
  using that
proof (induction shp)
  case Nil
  then show ?case by (simp add: box_indices_def py_range_def)
next
  case (Cons n shp)
  let ?P = "prod_list shp"
  have IH: "map (ravel shp) (box_indices shp) = py_range 0 ?P" using Cons by simp
  have P: "0 \<le> ?P" using Cons.prems by (induction shp) auto
  have step: "map (ravel (n # shp)) (concat (map (\<lambda>x. map ((#) x) (box_indices shp)) (py_range 0 m)))
      = py_range 0 (m * ?P)" if "0 \<le> m" for m
    using that
  proof (induction m rule: int_ge_induct)
    case base
    then show ?case by (simp add: py_range_def)
  next
    case (step m)
    have "py_range 0 (m + 1) = py_range 0 m @ [m]"
      using step.hyps by (simp add: py_range_def upto_rec2)
    moreover have "map (ravel (n # shp)) (map ((#) m) (box_indices shp)) = py_range (m * ?P) ((m + 1) * ?P)"
    proof -
      have "map (ravel (n # shp)) (map ((#) m) (box_indices shp)) =
          map (\<lambda>r. m * ?P + r) (map (ravel shp) (box_indices shp))"
        by simp
      also have "\<dots> = py_range (m * ?P) ((m + 1) * ?P)"
        unfolding IH using P by (intro nth_equalityI) (auto simp: algebra_simps)
      finally show ?thesis .
    qed
    moreover have "py_range 0 (m * ?P) @ py_range (m * ?P) ((m + 1) * ?P) = py_range 0 ((m + 1) * ?P)"
      using P step.hyps upto_split1 [of 0 "m * ?P" "(m + 1) * ?P - 1"]
      by (cases "?P = 0") (auto simp: py_range_def algebra_simps intro!: nth_equalityI)
    ultimately show ?case using step.IH by (simp del: ravel_simps)
  qed
  from Cons.prems have "0 \<le> n" by simp
  from step [OF this] show ?case by (simp add: box_indices_def del: ravel_simps)
qed


lemma wf_array_nth_box:
  assumes "wf_array a"
  shows "map (elem a) (box_indices (shape a)) = elems a"
proof -
  have "map (elem a) (box_indices (shape a)) =
      map (\<lambda>r. elems a ! nat r) (map (ravel (shape a)) (box_indices (shape a)))"
    by (simp add: elem_def)
  also have "\<dots> = elems a"
    using assms by (subst map_ravel_box) (auto simp: wf_array_def intro!: nth_equalityI)
  finally show ?thesis .
qed

lemma broadcasts_refl [simp]: "broadcasts shp shp"
  by (simp add: broadcasts_def drop_leading_def list_all2_same)

lemma drop_ones_box: "in_box shp ix \<Longrightarrow> map2 (\<lambda>s i. if s = 1 then 0 else i) shp ix = ix"
  by (induction shp ix rule: list_induct2') auto

lemma broadcast_values_same:
  assumes "wf_array v"
  shows "broadcast_values v (shape v) = elems v"
proof -
  have "broadcast_elem v (shape v) ix = elem v ix" if "in_box (shape v) ix" for ix
    using drop_ones_box [OF that] in_box_length [OF that]
    by (simp add: broadcast_elem_def drop_leading_def elem_def)
  then have "broadcast_values v (shape v) = map (elem v) (box_indices (shape v))"
    by (simp add: broadcast_values_def set_box_indices)
  then show ?thesis by (simp add: wf_array_nth_box [OF assms])
qed

lemma np_ix_in_bounds:
  assumes "length ls = length shp" "\<And>d. d < length shp \<Longrightarrow> set (ls ! d) \<subseteq> {0..<shp ! d}"
  shows "np_ix shp ls = Inr ls"
proof -
  have "traverseE (np_index n) l = Inr l" if "set l \<subseteq> {0..<n}" for n l
  proof -
    have "traverseE (np_index n) l = Inr (map (\<lambda>i. i) l)"
      using that by (intro traverseE_Inr) (auto simp: np_index_def)
    then show ?thesis by simp
  qed
  then have "traverseE (\<lambda>(n, l). traverseE (np_index n) l) (zip shp ls) = Inr (map snd (zip shp ls))"
    using assms by (intro traverseE_Inr) (auto simp: set_zip)
  then show ?thesis using assms(1) by (simp add: np_ix_def)
qed

lemma in_box_product_lists:
  assumes "length ls = length shp" "\<And>d. d < length shp \<Longrightarrow> set (ls ! d) \<subseteq> {0..<shp ! d}"
    and "ix \<in> set (product_lists ls)"
  shows "in_box shp ix"
  using assms by (intro in_boxI) (fastforce simp: set_product_lists_iff)+

lemma write_all_length [simp]: "length (write_all shp xs ws) = length xs"
  by (induction ws arbitrary: xs) (auto simp: write_all_def)

lemma write_all_nth:
  assumes "\<forall>ix \<in> set ixs. in_box shp ix" "p < length xs" "int (length xs) = prod_list shp"
  shows "write_all shp xs (map (\<lambda>ix. (ix, f ix)) ixs) ! p =
    (if unravel shp (int p) \<in> set ixs then f (unravel shp (int p)) else xs ! p)"
  using assms
proof (induction ixs arbitrary: xs)
  case Nil
  then show ?case by (simp add: write_all_def)
next
  case (Cons ix ixs)
  let ?q = "nat (ravel shp ix)"
  have b: "in_box shp ix" using Cons.prems by simp
  have q: "int ?q = ravel shp ix" "?q < length xs"
    using ravel_bounds [OF b] Cons.prems by auto
  have pos: "positive shp" using b by (rule in_box_positive)
  have "?q = p \<longleftrightarrow> unravel shp (int p) = ix"
  proof
    assume "?q = p"
    then show "unravel shp (int p) = ix" using q b by (simp add: unravel_ravel)
  next
    assume "unravel shp (int p) = ix"
    then have "ravel shp ix = int p mod prod_list shp" using ravel_unravel [OF pos] by metis
    moreover have "int p mod prod_list shp = int p"
      using Cons.prems(2,3) by (intro mod_pos_pos_trivial) auto
    ultimately show "?q = p" by simp
  qed
  with Cons.IH [of "xs[?q := f ix]"] Cons.prems q show ?case
    by (auto simp: write_all_def nth_list_update)
qed

section \<open>The tiles of a well-formed distribution\<close>

definition one_axis_per_grid_dim :: "axis_dist list \<Rightarrow> bool" where
  "one_axis_per_grid_dim xs = distinct (List.map_filter grid_dim xs)"

definition wf_dist :: "int list \<Rightarrow> array_dist \<Rightarrow> grid \<Rightarrow> bool" where
  "wf_dist shp dist g \<longleftrightarrow>
     length (axes dist) = length shp \<and> one_axis_per_grid_dim (axes dist) \<and>
     list_all (\<lambda>ax. case grid_dim ax of None \<Rightarrow> True | Some gd \<Rightarrow> 0 \<le> gd \<and> gd < int (length (dims g)))
       (axes dist)"

lemma distinct_map_filter_nth:
  "distinct (List.map_filter f xs) \<Longrightarrow> i < length xs \<Longrightarrow> j < length xs \<Longrightarrow>
     f (xs ! i) = Some v \<Longrightarrow> f (xs ! j) = Some v \<Longrightarrow> i = j"
proof (induction xs arbitrary: i j)
  case (Cons x xs)
  have mem: "v \<in> set (List.map_filter f xs)" if "k < length xs" "f (xs ! k) = Some v" for k
    using that by (force simp: map_filter_def)
  show ?case
    using Cons.prems Cons.IH mem
    by (cases i; cases j; cases "f x") (auto simp: map_filter_simps)
qed simp

lemma wf_distD:
  assumes "wf_dist shp dist g"
  shows "length (axes dist) = length shp"
    and "\<And>d gd. d < length shp \<Longrightarrow> grid_dim (axes dist ! d) = Some gd \<Longrightarrow>
      0 \<le> gd \<and> gd < int (length (dims g))"
    and "\<And>d e gd. d < length shp \<Longrightarrow> e < length shp \<Longrightarrow> grid_dim (axes dist ! d) = Some gd \<Longrightarrow>
      grid_dim (axes dist ! e) = Some gd \<Longrightarrow> d = e"
  using assms
  by (auto simp: wf_dist_def one_axis_per_grid_dim_def list_all_length
      intro: distinct_map_filter_nth split: option.splits)

definition own_list :: "grid \<Rightarrow> int list \<Rightarrow> int \<Rightarrow> axis_dist \<Rightarrow> int list" where
  "own_list g cs n ax =
     (case grid_dim ax of None \<Rightarrow> py_range 0 n
      | Some gd \<Rightarrow> axis_own ax n (dims g ! nat gd) (cs ! nat gd))"

definition own_lists :: "int list \<Rightarrow> array_dist \<Rightarrow> grid \<Rightarrow> int list \<Rightarrow> int list list" where
  "own_lists shp dist g cs = map2 (own_list g cs) shp (axes dist)"

definition owns :: "int list \<Rightarrow> array_dist \<Rightarrow> grid \<Rightarrow> int \<Rightarrow> int list \<Rightarrow> bool" where
  "owns shp dist g r ix \<longleftrightarrow> ix \<in> set (product_lists (own_lists shp dist g (unravel (dims g) r)))"

definition dealt :: "int list \<Rightarrow> array_dist \<Rightarrow> grid \<Rightarrow> bool" where
  "dealt shp dist g \<longleftrightarrow> positive (dims g) \<and> list_all (\<lambda>n. 0 \<le> n) shp \<and> wf_dist shp dist g"

lemma dealtD:
  assumes "dealt shp dist g"
  shows "positive (dims g)" "list_all (\<lambda>n. 0 \<le> n) shp" "wf_dist shp dist g"
    "\<And>d. d < length shp \<Longrightarrow> 0 \<le> shp ! d"
  using assms by (simp_all add: dealt_def list_all_length)

lemma own_list_sub:
  assumes D: "dealt shp dist g" and "in_box (dims g) cs" "d < length shp"
  shows "set (own_list g cs (shp ! d) (axes dist ! d)) \<subseteq> {0..<shp ! d}"
    and "distinct (own_list g cs (shp ! d) (axes dist ! d))"
proof -
  have "set (own_list g cs (shp ! d) (axes dist ! d)) \<subseteq> {0..<shp ! d} \<and>
      distinct (own_list g cs (shp ! d) (axes dist ! d))"
  proof (cases "grid_dim (axes dist ! d)")
    case None
    then show ?thesis by (simp add: own_list_def)
  next
    case (Some gd)
    then have gd: "nat gd < length (dims g)" using wf_distD(2) [OF dealtD(3) [OF D] assms(3)] by auto
    have "0 < dims g ! nat gd" using positive_nth [OF dealtD(1) [OF D] gd] .
    then show ?thesis
      using Some in_box_nth [OF assms(2) gd] dealtD(4) [OF D assms(3)]
        ax.own_sub [of "dims g ! nat gd" "shp ! d" "cs ! nat gd" "axes dist ! d"]
        ax.own_sorted [of "dims g ! nat gd" "shp ! d" "axes dist ! d" "cs ! nat gd"]
      by (simp add: own_list_def)
  qed
  then show "set (own_list g cs (shp ! d) (axes dist ! d)) \<subseteq> {0..<shp ! d}"
    and "distinct (own_list g cs (shp ! d) (axes dist ! d))" by auto
qed

lemma axis_index_lists_eq:
  assumes D: "dealt shp dist g" and "in_box (dims g) cs"
  shows "axis_index_lists shp dist g cs = Inr (own_lists shp dist g cs)"
proof -
  have "owned_indices n ax g cs = Inr (own_list g cs n ax)"
    if "(n, ax) \<in> set (zip shp (axes dist))" for n ax
    using that wf_distD [OF dealtD(3) [OF D]] in_box_length [OF assms(2)] dealtD(1) [OF D]
    by (auto simp: own_list_def set_zip intro!: owned_indices_eq)
  then have "traverseE (\<lambda>(n, ax). owned_indices n ax g cs) (zip shp (axes dist)) =
      Inr (map (\<lambda>(n, ax). own_list g cs n ax) (zip shp (axes dist)))"
    by (intro traverseE_Inr) auto
  then show ?thesis
    using wf_distD(1) [OF dealtD(3) [OF D]] by (simp add: axis_index_lists_def own_lists_def)
qed

lemma own_lists_sub:
  assumes D: "dealt shp dist g" and "in_box (dims g) cs"
  shows "length (own_lists shp dist g cs) = length shp"
    and "\<And>d. d < length shp \<Longrightarrow> set (own_lists shp dist g cs ! d) \<subseteq> {0..<shp ! d}"
  using own_list_sub(1) [OF assms] wf_distD(1) [OF dealtD(3) [OF D]] by (simp_all add: own_lists_def)

lemma owns_iff:
  assumes "dealt shp dist g"
  shows "owns shp dist g r ix \<longleftrightarrow> length ix = length shp \<and>
     (\<forall>d < length shp. ix ! d \<in> set (own_list g (unravel (dims g) r) (shp ! d) (axes dist ! d)))"
  using wf_distD(1) [OF dealtD(3) [OF assms]] by (simp add: owns_def set_product_lists_iff own_lists_def)

lemma owns_in_box:
  assumes D: "dealt shp dist g" and "owns shp dist g r ix"
  shows "in_box shp ix"
  using own_lists_sub [OF D unravel_in_box [OF dealtD(1) [OF D]]] assms(2)
  unfolding owns_def by (rule in_box_product_lists)

text \<open>Every element has an owner: each grid dimension carries at most one axis, so the owner's
  coordinate there is that axis's.\<close>

lemma owner_exists:
  assumes D: "dealt shp dist g" and "in_box shp ix"
  shows "\<exists>r. 0 \<le> r \<and> r < nranks g \<and> owns shp dist g r ix"
proof -
  have "\<exists>c. 0 \<le> c \<and> c < dims g ! k \<and> (\<forall>d < length shp. grid_dim (axes dist ! d) = Some (int k) \<longrightarrow>
      ix ! d \<in> set (axis_own (axes dist ! d) (shp ! d) (dims g ! k) c))"
    if k: "k < length (dims g)" for k
  proof (cases "\<exists>d < length shp. grid_dim (axes dist ! d) = Some (int k)")
    case True
    then obtain d where d: "d < length shp" "grid_dim (axes dist ! d) = Some (int k)" by auto
    obtain c where "0 \<le> c" "c < dims g ! k" "ix ! d \<in> set (axis_own (axes dist ! d) (shp ! d) (dims g ! k) c)"
      using ax.own_cover [of "dims g ! k" "shp ! d" "ix ! d" "axes dist ! d"] positive_nth [OF dealtD(1) [OF D] k]
        dealtD(4) [OF D d(1)] in_box_nth [OF assms(2) d(1)] by auto
    with d wf_distD(3) [OF dealtD(3) [OF D]] show ?thesis by metis
  next
    case False
    then show ?thesis using positive_nth [OF dealtD(1) [OF D] k] by (intro exI [of _ 0]) auto
  qed
  then obtain c where c: "\<And>k. k < length (dims g) \<Longrightarrow> 0 \<le> c k \<and> c k < dims g ! k \<and>
      (\<forall>d < length shp. grid_dim (axes dist ! d) = Some (int k) \<longrightarrow>
        ix ! d \<in> set (axis_own (axes dist ! d) (shp ! d) (dims g ! k) (c k)))"
    by metis
  define cs where "cs = map c [0..<length (dims g)]"
  have box: "in_box (dims g) cs" using c by (intro in_boxI) (simp_all add: cs_def)
  have "ix ! d \<in> set (own_list g cs (shp ! d) (axes dist ! d))" if d: "d < length shp" for d
  proof (cases "grid_dim (axes dist ! d)")
    case None
    then show ?thesis using in_box_nth [OF assms(2) d] by (simp add: own_list_def)
  next
    case (Some gd)
    then have "nat gd < length (dims g)" "int (nat gd) = gd"
      using wf_distD(2) [OF dealtD(3) [OF D] d] by auto
    then show ?thesis using c [of "nat gd"] d Some by (simp add: own_list_def cs_def)
  qed
  then have "owns shp dist g (rank_of g cs) ix"
    using in_box_length [OF assms(2)] box by (simp add: owns_iff [OF D] rank_of_ravel unravel_ravel)
  then show ?thesis using coords_of_rank_of [OF box] by blast
qed


section \<open>Scatter, then gather\<close>

definition tile_of :: "'a ndarray \<Rightarrow> array_dist \<Rightarrow> grid \<Rightarrow> int \<Rightarrow> 'a ndarray" where
  "tile_of a dist g r =
     (let ls = own_lists (shape a) dist g (unravel (dims g) r)
      in \<lparr>shape = map (\<lambda>l. int (length l)) ls, elems = map (elem a) (product_lists ls)\<rparr>)"

lemma int_prod_list: "int (prod_list (map f xs)) = prod_list (map (\<lambda>x. int (f x)) xs)"
  by (induction xs) simp_all

lemma positive_iff_prod:
  "list_all (\<lambda>n. 0 \<le> n) ds \<Longrightarrow> positive ds \<longleftrightarrow> 0 < prod_list ds"
  by (induction ds) (auto simp: zero_less_mult_iff)

lemma wf_tile: "wf_array (tile_of a dist g r)"
  by (auto simp: tile_of_def wf_array_def Let_def length_product_lists_prod list_all_iff int_prod_list)

lemma scatter_eq:
  assumes D: "dealt (shape a) dist g" and "\<not> replicated dist"
  shows "scatter a dist g = Inr (map (tile_of a dist g) (py_range 0 (nranks g)))"
proof -
  have "bindE (coords_of g r) (\<lambda>coords. bindE (axis_index_lists (shape a) dist g coords) (np_ix_get a))
      = Inr (tile_of a dist g r)" for r
  proof -
    have box: "in_box (dims g) (unravel (dims g) r)"
      by (rule unravel_in_box [OF dealtD(1) [OF D]])
    have "np_ix (shape a) (own_lists (shape a) dist g (unravel (dims g) r)) =
        Inr (own_lists (shape a) dist g (unravel (dims g) r))"
      by (intro np_ix_in_bounds own_lists_sub [OF D box])
    then show ?thesis
      using axis_index_lists_eq [OF D box]
      by (simp add: coords_of_eq [OF dealtD(1) [OF D]] np_ix_get_def tile_of_def Let_def)
  qed
  then show ?thesis using assms(2) by (simp add: scatter_def traverseE_Inr)
qed

text \<open>Writing one rank's tile sets exactly the elements it owns.\<close>

lemma gather_rank_eq:
  assumes D: "dealt (shape a) dist g" and wf: "wf_array a" and r: "0 \<le> r" "r < nranks g"
    and out: "shape out = shape a" "length (elems out) = length (elems a)"
  shows "\<exists>out'. gather_rank (map (tile_of a dist g) (py_range 0 (nranks g))) dist g (shape a) out r = Inr out'
     \<and> shape out' = shape a \<and> length (elems out') = length (elems a)
     \<and> (\<forall>p < length (elems a). elems out' ! p =
          (if owns (shape a) dist g r (unravel (shape a) (int p)) then elems a ! p else elems out ! p))"
proof -
  let ?ls = "own_lists (shape a) dist g (unravel (dims g) r)"
  let ?N = "length (elems a)"
  have N: "int ?N = prod_list (shape a)" using wf by (simp add: wf_array_def)
  have box: "in_box (dims g) (unravel (dims g) r)"
    by (rule unravel_in_box [OF dealtD(1) [OF D]])
  note sub = own_lists_sub [OF D box]
  have ix: "np_ix (shape a) ?ls = Inr ?ls" by (intro np_ix_in_bounds sub)
  have sh: "shape (tile_of a dist g r) = map (\<lambda>l. int (length l)) ?ls"
    by (simp add: tile_of_def Let_def)
  have vals: "broadcast_values (tile_of a dist g r) (map (\<lambda>l. int (length l)) ?ls) = map (elem a) (product_lists ?ls)"
    using broadcast_values_same [OF wf_tile, of a dist g r] unfolding sh
    by (simp add: tile_of_def Let_def)
  define out' where "out' = out\<lparr>elems := write_all (shape a) (elems out)
      (map (\<lambda>ix. (ix, elem a ix)) (product_lists ?ls))\<rparr>"
  have "py_get (map (tile_of a dist g) (py_range 0 (nranks g))) r = Inr (tile_of a dist g r)"
    using r by (simp add: res_simps)
  then have "gather_rank (map (tile_of a dist g) (py_range 0 (nranks g))) dist g (shape a) out r = Inr out'"
    using axis_index_lists_eq [OF D box]
    by (simp add: gather_rank_def coords_of_eq [OF dealtD(1) [OF D]] np_ix_set_def out ix sh vals
        zip_map2 zip_same_conv_map out'_def Let_def o_def)
  moreover have "elems out' ! p =
      (if owns (shape a) dist g r (unravel (shape a) (int p)) then elems a ! p else elems out ! p)"
    if p: "p < ?N" for p
  proof -
    have b: "\<forall>ix \<in> set (product_lists ?ls). in_box (shape a) ix"
      using in_box_product_lists [OF sub] by blast
    have same: "elem a (unravel (shape a) (int p)) = elems a ! p"
      if "owns (shape a) dist g r (unravel (shape a) (int p))"
    proof -
      from that have "positive (shape a)"
        using owns_in_box [OF D] in_box_positive by blast
      then have "ravel (shape a) (unravel (shape a) (int p)) = int p"
        using p N by (simp add: ravel_unravel flip: N)
      then show ?thesis by (simp add: elem_def)
    qed
    have "elems out' ! p = (if unravel (shape a) (int p) \<in> set (product_lists ?ls)
        then elem a (unravel (shape a) (int p)) else elems out ! p)"
      unfolding out'_def using write_all_nth [OF b, of p "elems out"] p out(2) N by simp
    then show ?thesis using same by (auto simp: owns_def)
  qed
  ultimately show ?thesis using out by (auto simp: out'_def)
qed

lemma gather_ranks:
  assumes D: "dealt (shape a) dist g" and wf: "wf_array a"
    and "set rs \<subseteq> {0..<nranks g}" "shape out = shape a" "length (elems out) = length (elems a)"
  shows "\<exists>out'. foldE (gather_rank (map (tile_of a dist g) (py_range 0 (nranks g))) dist g (shape a)) out rs = Inr out'
     \<and> shape out' = shape a \<and> length (elems out') = length (elems a)
     \<and> (\<forall>p < length (elems a). elems out' ! p =
          (if \<exists>r \<in> set rs. owns (shape a) dist g r (unravel (shape a) (int p)) then elems a ! p else elems out ! p))"
  using assms(3-)
proof (induction rs arbitrary: out)
  case (Cons r rs)
  then obtain out1 where out1:
    "gather_rank (map (tile_of a dist g) (py_range 0 (nranks g))) dist g (shape a) out r = Inr out1"
    "shape out1 = shape a" "length (elems out1) = length (elems a)"
    "\<forall>p < length (elems a). elems out1 ! p =
       (if owns (shape a) dist g r (unravel (shape a) (int p)) then elems a ! p else elems out ! p)"
    using gather_rank_eq [OF D wf, of r out] by auto
  with Cons.IH [of out1] Cons.prems show ?case by auto
qed simp

lemma gather_scattered:
  assumes "wf_array a" and "list_all (\<lambda>d. 0 < d) (dims g)"
    and "replicated dist \<or> wf_dist (shape a) dist g"
  shows "\<exists>tiles. scatter a dist g = Inr tiles \<and> int (length tiles) = nranks g
     \<and> gather junk tiles dist g (shape a) = Inr a"
proof -
  have pos: "positive (dims g)" using assms(2) by (simp add: positive_def)
  have R: "0 < nranks g" using positive_prod [OF pos] by (simp add: nranks_def)
  have nonneg: "list_all (\<lambda>n. 0 \<le> n) (shape a)" and N: "int (length (elems a)) = prod_list (shape a)"
    using assms(1) by (simp_all add: wf_array_def)
  define out where "out = \<lparr>shape = shape a, elems = map junk [0..<nat (prod_list (shape a))]\<rparr>"
  have empty: "np_empty junk (shape a) = Inr out"
    using nonneg by (auto simp: np_empty_def list_ex_iff list_all_iff out_def)
  have len: "length (elems out) = length (elems a)" by (simp add: out_def flip: N)
  show ?thesis
  proof (cases "replicated dist")
    case True
    have "gather junk (replicate (nat (nranks g)) a) dist g (shape a) = Inr a"
      using True R by (simp add: gather_def empty res_simps np_fill_def out_def
          broadcast_values_same [OF assms(1)])
    with True R show ?thesis by (simp add: scatter_def)
  next
    case False
    then have D: "dealt (shape a) dist g" using assms(3) pos nonneg by (simp add: dealt_def)
    obtain out' where out': "foldE (gather_rank (map (tile_of a dist g) (py_range 0 (nranks g))) dist g (shape a))
          out (py_range 0 (nranks g)) = Inr out'" "shape out' = shape a" "length (elems out') = length (elems a)"
        and own: "\<forall>p < length (elems a). elems out' ! p =
          (if \<exists>r \<in> set (py_range 0 (nranks g)). owns (shape a) dist g r (unravel (shape a) (int p))
           then elems a ! p else elems out ! p)"
      using gather_ranks [OF D assms(1), of "py_range 0 (nranks g)" out] len by (auto simp: out_def)
    have "elems out' ! p = elems a ! p" if p: "p < length (elems a)" for p
    proof -
      have "positive (shape a)"
        using N p by (simp add: positive_iff_prod [OF nonneg])
      then have "\<exists>r \<in> set (py_range 0 (nranks g)). owns (shape a) dist g r (unravel (shape a) (int p))"
        using owner_exists [OF D unravel_in_box] by fastforce
      with own p show ?thesis by auto
    qed
    then have "out' = a" using out' by (intro ndarray.equality nth_equalityI) auto
    with out' False R show ?thesis
      by (simp add: scatter_eq [OF D] gather_def empty)
  qed
qed

text \<open>C1. \<^verbatim>\<open>gather\<close> is the exact inverse of \<^verbatim>\<open>scatter\<close>: for any grid of positive extents and any
  distribution whose axes name distinct grid dimensions (or none), the tiles of an array reassemble to
  that array, whatever the memory \<^verbatim>\<open>np.empty\<close> returned held; a replicated array on a non-empty grid
  does too.\<close>

theorem gather_scatter:
  assumes "wf_array a" and "list_all (\<lambda>d. 0 < d) (dims g)"
    and "replicated dist \<or> wf_dist (shape a) dist g"
  shows "\<exists>tiles. scatter a dist g = Inr tiles \<and> int (length tiles) = nranks g
     \<and> gather junk tiles dist g (shape a) = Inr a"
  by (rule gather_scattered [OF assms])

theorem gather_scatter_witness:
  "\<exists>tiles. scatter \<lparr>shape = [5], elems = ''abcde''\<rparr>
       \<lparr>axes = [\<lparr>grid_dim = Some 0, scheme_of = Block_cyclic, block_size = 2\<rparr>], replicated = False\<rparr>
       \<lparr>dims = [2]\<rparr> = Inr tiles \<and> int (length tiles) = 2 \<and>
     gather (\<lambda>_. CHR ''z'') tiles
       \<lparr>axes = [\<lparr>grid_dim = Some 0, scheme_of = Block_cyclic, block_size = 2\<rparr>], replicated = False\<rparr>
       \<lparr>dims = [2]\<rparr> [5] = Inr \<lparr>shape = [5], elems = ''abcde''\<rparr>"
  using gather_scatter [of "\<lparr>shape = [5], elems = ''abcde''\<rparr>" "\<lparr>dims = [2]\<rparr>"
      "\<lparr>axes = [\<lparr>grid_dim = Some 0, scheme_of = Block_cyclic, block_size = 2\<rparr>], replicated = False\<rparr>"
      "\<lambda>_. CHR ''z''"]
  by (simp add: wf_array_def wf_dist_def one_axis_per_grid_dim_def map_filter_def nranks_def)


section \<open>When the tiles partition the array\<close>

lemma np_ix_inc_eq:
  assumes D: "dealt shp dist g" and r: "0 \<le> r" "r < nranks g"
    and s: "shape s = shp" "int (length (elems s)) = prod_list shp"
  shows "\<exists>s'. bindE (coords_of g r) (\<lambda>coords. bindE (axis_index_lists shp dist g coords) (np_ix_inc s)) = Inr s'
     \<and> shape s' = shp \<and> length (elems s') = length (elems s)
     \<and> (\<forall>p < length (elems s). elems s' ! p =
          elems s ! p + (if owns shp dist g r (unravel shp (int p)) then 1 else 0))"
proof -
  let ?ls = "own_lists shp dist g (unravel (dims g) r)"
  have box: "in_box (dims g) (unravel (dims g) r)"
    by (rule unravel_in_box [OF dealtD(1) [OF D]])
  note sub = own_lists_sub [OF D box]
  have ix: "np_ix shp ?ls = Inr ?ls" by (intro np_ix_in_bounds sub)
  have hit: "p \<in> (\<lambda>ix. nat (ravel shp ix)) ` set (product_lists ?ls) \<longleftrightarrow>
      owns shp dist g r (unravel shp (int p))" if p: "p < length (elems s)" for p
  proof
    assume "p \<in> (\<lambda>ix. nat (ravel shp ix)) ` set (product_lists ?ls)"
    then obtain ix where "ix \<in> set (product_lists ?ls)" "p = nat (ravel shp ix)" by auto
    moreover from this have "in_box shp ix" using in_box_product_lists [OF sub] by blast
    ultimately show "owns shp dist g r (unravel shp (int p))"
      using ravel_bounds [of shp ix] by (simp add: owns_def unravel_ravel)
  next
    assume o: "owns shp dist g r (unravel shp (int p))"
    then have "positive shp" using owns_in_box [OF D] in_box_positive by blast
    then have "ravel shp (unravel shp (int p)) = int p"
      using p s(2) by (simp add: ravel_unravel flip: s(2))
    with o show "p \<in> (\<lambda>ix. nat (ravel shp ix)) ` set (product_lists ?ls)"
      by (intro image_eqI [of _ _ "unravel shp (int p)"]) (simp_all add: owns_def)
  qed
  show ?thesis
    using axis_index_lists_eq [OF D box] hit
    by (auto simp: coords_of_eq [OF dealtD(1) [OF D]] np_ix_inc_def s(1) ix Let_def nth_enumerate_eq)
qed

lemma count_owners:
  assumes D: "dealt shp dist g" and "set rs \<subseteq> {0..<nranks g}" "distinct rs"
    and "shape s = shp" "int (length (elems s)) = prod_list shp"
  shows "\<exists>s'. foldE (\<lambda>s r. bindE (coords_of g r) (\<lambda>coords.
          bindE (axis_index_lists shp dist g coords) (np_ix_inc s))) s rs = Inr s'
     \<and> shape s' = shp \<and> length (elems s') = length (elems s)
     \<and> (\<forall>p < length (elems s). elems s' ! p =
          elems s ! p + int (card {r \<in> set rs. owns shp dist g r (unravel shp (int p))}))"
  using assms(2-)
proof (induction rs arbitrary: s)
  case (Cons r rs)
  then obtain s1 where s1:
    "bindE (coords_of g r) (\<lambda>coords. bindE (axis_index_lists shp dist g coords) (np_ix_inc s)) = Inr s1"
    "shape s1 = shp" "length (elems s1) = length (elems s)"
    "\<forall>p < length (elems s). elems s1 ! p =
       elems s ! p + (if owns shp dist g r (unravel shp (int p)) then 1 else 0)"
    using np_ix_inc_eq [OF D, of r s] by auto
  have "{q \<in> set (r # rs). owns shp dist g q ix} =
      (if owns shp dist g r ix then insert r {q \<in> set rs. owns shp dist g q ix}
       else {q \<in> set rs. owns shp dist g q ix})" for ix
    by auto
  with Cons.IH [of s1] Cons.prems s1 show ?case by auto
qed simp

definition binds_grid_dim :: "array_dist \<Rightarrow> nat \<Rightarrow> bool" where
  "binds_grid_dim dist k \<longleftrightarrow> list_ex (\<lambda>ax. grid_dim ax = Some (int k)) (axes dist)"

definition every_split_bound :: "array_dist \<Rightarrow> grid \<Rightarrow> bool" where
  "every_split_bound dist g \<longleftrightarrow>
     list_all (\<lambda>k. dims g ! k = 1 \<or> binds_grid_dim dist k) [0..<length (dims g)]"

lemma owners_agree:
  assumes D: "dealt shp dist g" and "every_split_bound dist g"
    and r: "0 \<le> r" "r < nranks g" "0 \<le> q" "q < nranks g"
    and "owns shp dist g r ix" "owns shp dist g q ix"
  shows "r = q"
proof -
  note pos = dealtD(1) [OF D]
  have eq: "unravel (dims g) r ! k = unravel (dims g) q ! k" if k: "k < length (dims g)" for k
  proof -
    note b = in_box_nth [OF unravel_in_box [OF pos] k, of r] in_box_nth [OF unravel_in_box [OF pos] k, of q]
    have "dims g ! k = 1 \<or> binds_grid_dim dist k"
      using assms(2) k by (simp add: every_split_bound_def list_all_iff)
    then show ?thesis
    proof
      assume "dims g ! k = 1"
      with b show ?thesis by linarith
    next
      assume "binds_grid_dim dist k"
      then obtain d where d: "d < length shp" "grid_dim (axes dist ! d) = Some (int k)"
        using wf_distD(1) [OF dealtD(3) [OF D]] by (auto simp: binds_grid_dim_def list_ex_iff in_set_conv_nth)
      from assms(7,8) d have "ix ! d \<in> set (axis_own (axes dist ! d) (shp ! d) (dims g ! k) (unravel (dims g) r ! k))"
        "ix ! d \<in> set (axis_own (axes dist ! d) (shp ! d) (dims g ! k) (unravel (dims g) q ! k))"
        by (auto simp: owns_iff [OF D] own_list_def)
      then show ?thesis
        using ax.own_disjoint positive_nth [OF pos k] dealtD(4) [OF D d(1)] b by blast
    qed
  qed
  then have "unravel (dims g) r = unravel (dims g) q" by (intro nth_equalityI) simp_all
  then have "ravel (dims g) (unravel (dims g) r) = ravel (dims g) (unravel (dims g) q)" by simp
  then show ?thesis using r by (simp add: ravel_unravel [OF pos] nranks_def)
qed

lemma second_owner:
  assumes D: "dealt shp dist g" and k: "k < length (dims g)" "dims g ! k \<noteq> 1" "\<not> binds_grid_dim dist k"
    and r: "0 \<le> r" "r < nranks g" and o: "owns shp dist g r ix"
  shows "\<exists>q. 0 \<le> q \<and> q < nranks g \<and> q \<noteq> r \<and> owns shp dist g q ix"
proof -
  note pos = dealtD(1) [OF D]
  let ?cs = "unravel (dims g) r"
  define c where "c = (if ?cs ! k = 0 then 1 else 0 :: int)"
  define cs where "cs = ?cs[k := c]"
  have "1 < dims g ! k" using positive_nth [OF pos k(1)] k(2) by linarith
  then have "0 \<le> cs ! i \<and> cs ! i < dims g ! i" if i: "i < length (dims g)" for i
    using in_box_nth [OF unravel_in_box [OF pos] i, of r] i
    by (cases "i = k") (simp_all add: cs_def c_def)
  then have box: "in_box (dims g) cs"
    by (intro in_boxI) (simp_all add: cs_def)
  have "cs ! k \<noteq> ?cs ! k" using k(1) by (simp add: cs_def c_def)
  then have "rank_of g cs \<noteq> r" using unravel_ravel [OF box] by (auto simp: rank_of_ravel)
  moreover have "own_list g cs (shp ! d) (axes dist ! d) = own_list g ?cs (shp ! d) (axes dist ! d)"
    if d: "d < length shp" for d
  proof (cases "grid_dim (axes dist ! d)")
    case (Some gd)
    have "axes dist ! d \<in> set (axes dist)" using wf_distD(1) [OF dealtD(3) [OF D]] d by simp
    then have "grid_dim (axes dist ! d) \<noteq> Some (int k)"
      using k(3) by (auto simp: binds_grid_dim_def list_ex_iff)
    moreover have "0 \<le> gd" using wf_distD(2) [OF dealtD(3) [OF D]] d Some by blast
    ultimately have "nat gd \<noteq> k" using Some by auto
    with Some show ?thesis by (simp add: own_list_def cs_def)
  qed (simp add: own_list_def)
  then have "owns shp dist g (rank_of g cs) ix"
    using o by (simp add: owns_iff [OF D] rank_of_ravel unravel_ravel [OF box])
  ultimately show ?thesis using coords_of_rank_of [OF box] by blast
qed

lemma is_partition_tiles:
  assumes "list_all (\<lambda>d. 0 < d) (dims g)" and "list_all (\<lambda>n. 0 < n) shp"
    and "wf_dist shp dist g" and "\<not> replicated dist"
  shows "is_partition shp dist g = Inr (every_split_bound dist g)"
proof -
  have pos: "positive (dims g)" and ps: "positive shp" using assms(1,2) by (simp_all add: positive_def)
  have D: "dealt shp dist g"
    using assms by (auto simp: dealt_def positive_def list_all_iff)
  define s0 where "s0 = \<lparr>shape = shp, elems = map (\<lambda>_. 0 :: int) [0..<nat (prod_list shp)]\<rparr>"
  have N: "0 < prod_list shp" using ps by (rule positive_prod)
  have empty: "np_empty (\<lambda>_. 0) shp = Inr s0"
    using assms(2) by (force simp: np_empty_def list_ex_iff list_all_iff s0_def)
  let ?own = "\<lambda>ix. {r \<in> {0..<nranks g}. owns shp dist g r ix}"
  obtain s where s: "foldE (\<lambda>s r. bindE (coords_of g r) (\<lambda>coords.
        bindE (axis_index_lists shp dist g coords) (np_ix_inc s))) s0 (py_range 0 (nranks g)) = Inr s"
      "length (elems s) = nat (prod_list shp)"
      "\<forall>p < nat (prod_list shp). elems s ! p = int (card (?own (unravel shp (int p))))"
    using count_owners [OF D, of "py_range 0 (nranks g)" s0] N by (auto simp: s0_def)
  have one: "card (?own ix) = 1 \<longleftrightarrow> every_split_bound dist g" if ix: "in_box shp ix" for ix
  proof -
    obtain r where r: "0 \<le> r" "r < nranks g" "owns shp dist g r ix"
      using owner_exists [OF D ix] by auto
    show ?thesis
    proof
      assume "every_split_bound dist g"
      then have "q = r" if "q \<in> ?own ix" for q
        using that owners_agree [OF D _ _ _ r(1,2) _ r(3), of q] by simp
      moreover have "r \<in> ?own ix" using r by simp
      ultimately have "?own ix = {r}" by blast
      then show "card (?own ix) = 1" by simp
    next
      assume "card (?own ix) = 1"
      then obtain r' where "?own ix = {r'}" by (rule card_1_singletonE)
      moreover have "r \<in> ?own ix" using r by simp
      ultimately have single: "?own ix = {r}" by (metis (no_types, lifting) singletonD)
      have "dims g ! k = 1 \<or> binds_grid_dim dist k" if k: "k < length (dims g)" for k
      proof (rule ccontr)
        assume "\<not> (dims g ! k = 1 \<or> binds_grid_dim dist k)"
        then obtain q where "0 \<le> q" "q < nranks g" "q \<noteq> r" "owns shp dist g q ix"
          using second_owner [OF D k _ _ r] by blast
        then have "q \<in> ?own ix" by simp
        then show False using single \<open>q \<noteq> r\<close> by blast
      qed
      then show "every_split_bound dist g" by (simp add: every_split_bound_def list_all_iff)
    qed
  qed
  have "list_all (\<lambda>x. x = 1) (elems s) \<longleftrightarrow> every_split_bound dist g"
  proof -
    have "list_all (\<lambda>x. x = 1) (elems s) \<longleftrightarrow>
        (\<forall>p < nat (prod_list shp). card (?own (unravel shp (int p))) = 1)"
      using s by (auto simp: list_all_length)
    also have "\<dots> \<longleftrightarrow> (\<forall>p < nat (prod_list shp). every_split_bound dist g)"
      using one [OF unravel_in_box [OF ps]] by simp
    also have "\<dots> \<longleftrightarrow> every_split_bound dist g"
      using N by (metis zero_less_nat_eq)
    finally show ?thesis .
  qed
  then show ?thesis using assms(4) s(1) by (simp add: is_partition_def empty)
qed

text \<open>C19. \<^verbatim>\<open>is_partition\<close> decides the tiling exactly: on a non-empty array, with each axis naming a
  distinct grid dimension, it returns True precisely when every grid dimension of more than one
  coordinate carries an axis of the array.\<close>

theorem is_partition_iff:
  assumes "list_all (\<lambda>d. 0 < d) (dims g)" and "list_all (\<lambda>n. 0 < n) shp"
    and "wf_dist shp dist g" and "\<not> replicated dist"
  shows "is_partition shp dist g = Inr (every_split_bound dist g)"
  by (rule is_partition_tiles [OF assms])

theorem is_partition_iff_witness:
  "is_partition [4] \<lparr>axes = [\<lparr>grid_dim = Some 0, scheme_of = Cyclic, block_size = 1\<rparr>], replicated = False\<rparr>
     \<lparr>dims = [2, 3]\<rparr> = Inr False"
proof -
  have "\<not> every_split_bound
      \<lparr>axes = [\<lparr>grid_dim = Some 0, scheme_of = Cyclic, block_size = 1\<rparr>], replicated = False\<rparr> \<lparr>dims = [2, 3]\<rparr>"
    by code_simp
  then show ?thesis
    using is_partition_iff [of "\<lparr>dims = [2, 3]\<rparr>" "[4]"
        "\<lparr>axes = [\<lparr>grid_dim = Some 0, scheme_of = Cyclic, block_size = 1\<rparr>], replicated = False\<rparr>"]
    by (simp add: wf_dist_def one_axis_per_grid_dim_def map_filter_def)
qed

end
