(* ===== verification/Mpi_Layout.thy ===== *)
theory Mpi_Layout
  imports Mpi_Scatter
begin

text \<open>
  The default distributions of \<^verbatim>\<open>harness/mpi_descriptor.py\<close>: the processor grids (\<^verbatim>\<open>factor_grid\<close>,
  \<^verbatim>\<open>hypercube_grid\<close>), the default layout of one array (\<^verbatim>\<open>default_distribution\<close>) and the plan of
  a kernel, built from the \<^verbatim>\<open>mpi:\<close> block of its manifest and its binding
  (\<^verbatim>\<open>distribution_for_kernel\<close>). The rounded float root \<open>round(x ** (1.0 / k))\<close> is the parameter
  \<open>root x k\<close>; nothing is assumed of it.
\<close>

section \<open>Grids\<close>

definition divisor_below :: "int \<Rightarrow> int \<Rightarrow> int" where
  "divisor_below r hi =
     (case find (\<lambda>c. r mod c = 0) (rev (py_range 1 (max 1 hi + 1))) of None \<Rightarrow> 1 | Some c \<Rightarrow> c)"

text \<open>The loop of \<^verbatim>\<open>factor_grid\<close>, with the number of extents still to choose.\<close>

fun factor_dims :: "(int \<Rightarrow> int \<Rightarrow> int) \<Rightarrow> nat \<Rightarrow> int \<Rightarrow> int list \<times> int" where
  "factor_dims root 0 r = ([], r)"
| "factor_dims root (Suc k) r =
     (if r = 1 then (replicate (Suc k) 1, 1)
      else let d = divisor_below r (root r (int (Suc k)));
               (ds, r') = factor_dims root k (r div d)
           in (d # ds, r'))"

definition factor_grid :: "(int \<Rightarrow> int \<Rightarrow> int) \<Rightarrow> int \<Rightarrow> int \<Rightarrow> grid" where
  "factor_grid root ranks ndim =
     (let (ds, r) = factor_dims root (nat (max 1 ndim)) ranks
      in \<lparr>dims = ds[length ds - 1 := last ds * r]\<rparr>)"

definition hypercube_grid :: "(int \<Rightarrow> int \<Rightarrow> int) \<Rightarrow> int \<Rightarrow> int \<Rightarrow> grid res" where
  "hypercube_grid root ranks ndim =
     (if ndim < 1 then Inl (ValueError ''hypercube ndim must be >= 1'')
      else let edge = root ranks ndim
           in if edge ^ nat ndim \<noteq> ranks then Inl (ValueError ''ranks is not a perfect power'')
              else Inr \<lparr>dims = replicate (nat ndim) edge\<rparr>)"

section \<open>The default layout of one array\<close>

definition default_axis :: "int list \<Rightarrow> int \<Rightarrow> nat \<Rightarrow> axis_dist" where
  "default_axis ds bsize d =
     (if d < length ds \<and> 1 < ds ! d
      then \<lparr>grid_dim = Some (int d), scheme_of = Block_cyclic, block_size = max 1 bsize\<rparr>
      else whole_axis)"

definition default_distribution :: "int list \<Rightarrow> grid \<Rightarrow> int \<Rightarrow> array_dist res" where
  "default_distribution shp g bsize =
     (if list_ex (\<lambda>gd. 1 < dims g ! gd) [length shp..<length (dims g)]
      then Inl (ValueError ''grid splits a dimension beyond the axes of the array'')
      else Inr \<lparr>axes = map (default_axis (dims g) bsize) [0..<length shp], replicated = False\<rparr>)"

section \<open>Plans\<close>

text \<open>\<^verbatim>\<open>Location\<close> of the package relayout: the residency of an array.\<close>

datatype location = Host | Device

record planned_array = array_dist +
  placed :: "location option"

record plan =
  plan_grid :: "int list"
  plan_arrays :: "(string, planned_array) dict"

definition split_axis :: "scheme \<Rightarrow> int \<Rightarrow> axis_dist" where
  "split_axis sch bsize =
     \<lparr>grid_dim = Some 0, scheme_of = sch, block_size = (if sch = Block_cyclic then bsize else 1)\<rparr>"

definition split_along :: "nat \<Rightarrow> nat \<Rightarrow> axis_dist \<Rightarrow> planned_array" where
  "split_along ndim dim axis =
     \<lparr>axes = map (\<lambda>d. if d = dim then axis else whole_axis) [0..<ndim], replicated = False, placed = None\<rparr>"

text \<open>The first position of \<open>x\<close>, as \<open>list.index\<close> and \<open>next\<close> over \<open>enumerate\<close> find it.\<close>

fun first_pos :: "('a \<Rightarrow> bool) \<Rightarrow> 'a list \<Rightarrow> nat option" where
  "first_pos P [] = None"
| "first_pos P (x # xs) = (if P x then Some 0 else map_option Suc (first_pos P xs))"

definition split_entry ::
    "(string, string list) dict \<Rightarrow> scheme \<Rightarrow> int \<Rightarrow> (string, planned_array) dict \<Rightarrow>
     string \<times> string option \<Rightarrow> (string, planned_array) dict res" where
  "split_entry shapes sch bsize arrays entry =
     (case entry of
        (name, None) \<Rightarrow> Inr (dict_set name \<lparr>axes = [], replicated = True, placed = None\<rparr> arrays)
      | (name, Some axis_sym) \<Rightarrow>
          bindE (dict_item KeyError shapes name) (\<lambda>shp.
            case first_pos (\<lambda>t. t = axis_sym) shp of
              None \<Rightarrow> Inl (ValueError ''mpi.split symbol is not an axis'')
            | Some d \<Rightarrow> Inr (dict_set name (split_along (length shp) d (split_axis sch bsize)) arrays)))"

definition distribution_from_split ::
    "(string, string list) dict \<Rightarrow> (string, string option) dict \<Rightarrow> int \<Rightarrow> scheme \<Rightarrow> int \<Rightarrow> plan res" where
  "distribution_from_split shapes split ranks sch bsize =
     bindE (foldE (split_entry shapes sch bsize) [] split) (\<lambda>arrays.
       if list_all (\<lambda>(_, a). replicated a) arrays
       then Inl (ValueError ''mpi.split names no split array'')
       else Inr \<lparr>plan_grid = [ranks], plan_arrays = arrays\<rparr>)"

definition shape_entry ::
    "string list \<Rightarrow> scheme \<Rightarrow> int \<Rightarrow> (string, planned_array) dict \<Rightarrow> string \<times> string list \<Rightarrow>
     (string, planned_array) dict" where
  "shape_entry wanted sch bsize arrays entry =
     (case first_pos (\<lambda>t. t \<in> set wanted) (snd entry) of
        None \<Rightarrow> arrays
      | Some d \<Rightarrow> dict_set (fst entry) (split_along (length (snd entry)) d (split_axis sch bsize)) arrays)"

definition distribution_from_shapes ::
    "(string, string list) dict \<Rightarrow> string list \<Rightarrow> int \<Rightarrow> scheme \<Rightarrow> int \<Rightarrow> plan res" where
  "distribution_from_shapes shapes wanted ranks sch bsize =
     (let arrays = foldl (shape_entry wanted sch bsize) [] shapes
      in if arrays = [] then Inl (ValueError ''no array has a named axis'')
         else Inr \<lparr>plan_grid = [ranks], plan_arrays = arrays\<rparr>)"

definition cyclic_entry ::
    "grid \<Rightarrow> int \<Rightarrow> int \<Rightarrow> (string, planned_array) dict \<Rightarrow> string \<times> string list \<Rightarrow>
     (string, planned_array) dict res" where
  "cyclic_entry g grid_ndim bsize arrays entry =
     (if int (length (snd entry)) < grid_ndim then Inr arrays
      else bindE (default_distribution (replicate (length (snd entry)) 2) g bsize) (\<lambda>dist.
           Inr (dict_set (fst entry) \<lparr>axes = axes dist, replicated = False, placed = None\<rparr> arrays)))"

definition blockcyclic_distribution_from_shapes ::
    "(int \<Rightarrow> int \<Rightarrow> int) \<Rightarrow> (string, string list) dict \<Rightarrow> int \<Rightarrow> int \<Rightarrow> int \<Rightarrow> plan res" where
  "blockcyclic_distribution_from_shapes root shapes ranks grid_ndim bsize =
     bindE (hypercube_grid root ranks grid_ndim) (\<lambda>g.
     bindE (foldE (cyclic_entry g grid_ndim bsize) [] shapes) (\<lambda>arrays.
       if arrays = [] then Inl (ValueError ''no array has enough axes'')
       else Inr \<lparr>plan_grid = dims g, plan_arrays = arrays\<rparr>))"

section \<open>The plan of a kernel\<close>

text \<open>The fields of \<^verbatim>\<open>Arg\<close> and \<^verbatim>\<open>Binding\<close> (\<^verbatim>\<open>support/bindings/contract.py\<close>) read here.\<close>

datatype arg_kind = Ptr | Scalar

record arg =
  arg_name :: string
  arg_kind_of :: arg_kind
  arg_shape :: "string list option"
  arg_role :: "string option"
  arg_dtype :: string

record binding =
  args :: "arg list"

definition pointers :: "binding \<Rightarrow> arg list" where
  "pointers b = filter (\<lambda>a. arg_kind_of a = Ptr) (args b)"

definition scalars :: "binding \<Rightarrow> arg list" where
  "scalars b = filter (\<lambda>a. arg_kind_of a = Scalar) (args b)"

definition binding_shapes :: "binding \<Rightarrow> (string, string list) dict" where
  "binding_shapes b =
     foldl (\<lambda>d p. case arg_shape p of None \<Rightarrow> d | Some shp \<Rightarrow> dict_set (arg_name p) shp d) [] (pointers b)"

definition binding_ndims :: "binding \<Rightarrow> (string, nat) dict" where
  "binding_ndims b = map (\<lambda>(name, shp). (name, length shp)) (binding_shapes b)"

text \<open>The \<^verbatim>\<open>mpi:\<close> block, its \<^verbatim>\<open>decomposition\<close> defaults filled in.\<close>

record mpi_block =
  mpi_arrays :: "(string, string list) dict option"
  mpi_split :: "(string, string option) dict option"
  decomp_axis :: "string list"
  decomp_scheme :: scheme
  decomp_grid_ndim :: int
  decomp_block_size :: int

definition no_mpi_block :: mpi_block where
  "no_mpi_block = \<lparr>mpi_arrays = None, mpi_split = None, decomp_axis = [], decomp_scheme = Block,
     decomp_grid_ndim = 1, decomp_block_size = 1\<rparr>"

text \<open>\<open>x or default\<close> of an optional dict: an empty one is falsy.\<close>

definition or_dict :: "('k, 'v) dict option \<Rightarrow> ('k, 'v) dict \<Rightarrow> ('k, 'v) dict" where
  "or_dict x d = (case x of None \<Rightarrow> d | Some [] \<Rightarrow> d | Some y \<Rightarrow> y)"

definition kernel_ndims :: "mpi_block option \<Rightarrow> binding \<Rightarrow> (string, nat) dict" where
  "kernel_ndims mpi b =
     dict_merge (map (\<lambda>(name, shp). (name, length shp)) (case mpi of None \<Rightarrow> [] | Some m \<Rightarrow> or_dict (mpi_arrays m) []))
       (binding_ndims b)"

definition distribution_over_symbol ::
    "binding \<Rightarrow> string list \<Rightarrow> int \<Rightarrow> scheme \<Rightarrow> int \<Rightarrow> plan res" where
  "distribution_over_symbol b wanted ranks sch bsize =
     distribution_from_shapes (binding_shapes b) wanted ranks sch bsize"

definition distribution_for_kernel ::
    "(int \<Rightarrow> int \<Rightarrow> int) \<Rightarrow> mpi_block option \<Rightarrow> binding \<Rightarrow> int \<Rightarrow> plan res" where
  "distribution_for_kernel root mpi b ranks =
     (let m = (case mpi of None \<Rightarrow> no_mpi_block | Some m \<Rightarrow> m);
          sch = decomp_scheme m; bsize = decomp_block_size m; manifest = or_dict (mpi_arrays m) [];
          split = or_dict (mpi_split m) []
      in if sch \<noteq> Block \<and> 1 < decomp_grid_ndim m
         then blockcyclic_distribution_from_shapes root (or_dict (mpi_arrays m) (binding_shapes b)) ranks
                (decomp_grid_ndim m) bsize
         else if split \<noteq> []
         then distribution_from_split (dict_merge (binding_shapes b) manifest) split ranks sch bsize
         else if manifest \<noteq> []
         then distribution_from_shapes manifest (decomp_axis m) ranks sch bsize
         else distribution_over_symbol b (decomp_axis m) ranks sch bsize)"

section \<open>Grids span the ranks\<close>

lemma divisor_below:
  assumes "0 < r"
  shows "0 < divisor_below r hi \<and> divisor_below r hi dvd r"
proof (cases "find (\<lambda>c. r mod c = 0) (rev (py_range 1 (max 1 hi + 1)))")
  case None
  then show ?thesis by (simp add: divisor_below_def)
next
  case (Some c)
  from find_SomeD [OF this] Some show ?thesis by (auto simp: divisor_below_def)
qed

lemma factor_dims:
  assumes "0 < r" "factor_dims root k r = (ds, r')"
  shows "length ds = k \<and> positive ds \<and> 0 < r' \<and> prod_list ds * r' = r"
  using assms
proof (induction k arbitrary: r ds r')
  case (Suc k)
  show ?case
  proof (cases "r = 1")
    case True
    with Suc.prems show ?thesis by (auto simp: positive_def list_all_iff)
  next
    case False
    define d where "d = divisor_below r (root r (int (Suc k)))"
    obtain es q where e: "factor_dims root k (r div d) = (es, q)" by force
    have d: "0 < d" "d dvd r" using divisor_below [OF Suc.prems(1)] by (auto simp: d_def)
    then have "0 < r div d" using Suc.prems(1) by (simp add: pos_imp_zdiv_pos_iff zdvd_imp_le)
    from Suc.IH [OF this e] have "length es = k" "positive es" "0 < q" "prod_list es * q = r div d"
      by auto
    moreover have "(d # es, q) = (ds, r')" using Suc.prems(2) False e by (simp add: d_def)
    moreover have "d * (r div d) = r" using d by simp
    ultimately show ?thesis using d by (auto simp: positive_def mult.assoc)
  qed
qed (simp add: positive_def)

text \<open>\<^verbatim>\<open>factor_grid\<close> always spans the ranks, whatever the float root rounds to: the extents are
  positive, there are \<open>max(1, ndim)\<close> of them and they multiply to the rank count.\<close>

theorem factor_grid_spans:
  assumes "0 < ranks"
  shows "nranks (factor_grid root ranks ndim) = ranks
     \<and> length (dims (factor_grid root ranks ndim)) = nat (max 1 ndim)
     \<and> list_all (\<lambda>d. 0 < d) (dims (factor_grid root ranks ndim))"
proof -
  obtain ds r where f: "factor_dims root (nat (max 1 ndim)) ranks = (ds, r)" by force
  from factor_dims [OF assms this] have *: "length ds = nat (max 1 ndim)" "positive ds" "0 < r"
    "prod_list ds * r = ranks" by auto
  then have "ds \<noteq> []" by auto
  then obtain es e where ds: "ds = es @ [e]" by (cases ds rule: rev_cases) auto
  then have "length ds - 1 = length es" by simp
  with ds f have "dims (factor_grid root ranks ndim) = es @ [e * r]" by (simp add: factor_grid_def)
  with * ds show ?thesis by (auto simp: nranks_def positive_def ac_simps)
qed

theorem factor_grid_spans_witness:
  "nranks (factor_grid (\<lambda>r k. if r = 12 then 3 else 4) 12 2) = 12
     \<and> length (dims (factor_grid (\<lambda>r k. if r = 12 then 3 else 4) 12 2)) = 2
     \<and> list_all (\<lambda>d. 0 < d) (dims (factor_grid (\<lambda>r k. if r = 12 then 3 else 4) 12 2))"
  using factor_grid_spans [of 12 "\<lambda>r k. if r = 12 then 3 else 4" 2] by simp

lemma hypercube_grid_dims:
  assumes "hypercube_grid root ranks ndim = Inr g"
  shows "1 \<le> ndim \<and> dims g = replicate (nat ndim) (root ranks ndim) \<and> nranks g = ranks"
  using assms by (auto simp: hypercube_grid_def nranks_def Let_def split: if_splits)

section \<open>Default layouts partition\<close>

lemma one_axis_per_grid_dimI:
  assumes "\<And>i j gd. i < length xs \<Longrightarrow> j < length xs \<Longrightarrow> grid_dim (xs ! i) = Some gd \<Longrightarrow>
    grid_dim (xs ! j) = Some gd \<Longrightarrow> i = j"
  shows "one_axis_per_grid_dim xs"
  using assms
proof (induction xs)
  case (Cons x xs)
  have "one_axis_per_grid_dim xs" using Cons.prems [of "Suc _" "Suc _"] by (intro Cons.IH) fastforce
  moreover have "gd \<notin> set (List.map_filter grid_dim xs)" if "grid_dim x = Some gd" for gd
  proof
    assume "gd \<in> set (List.map_filter grid_dim xs)"
    then obtain y where "y \<in> set xs" "grid_dim y = Some gd" by (auto simp: map_filter_def)
    then obtain j where "j < length xs" "grid_dim (xs ! j) = Some gd" by (auto simp: in_set_conv_nth)
    with that show False using Cons.prems [of 0 "Suc j"] by auto
  qed
  ultimately show ?case by (auto simp: one_axis_per_grid_dim_def map_filter_simps split: option.splits)
qed (simp add: one_axis_per_grid_dim_def map_filter_simps)

lemma grid_dim_default_axis:
  "grid_dim (default_axis ds b d) = (if d < length ds \<and> 1 < ds ! d then Some (int d) else None)"
  by (simp add: default_axis_def)

lemma wf_default_distribution:
  assumes "default_distribution shp g b = Inr dist" "positive (dims g)"
  shows "wf_dist shp dist g \<and> \<not> replicated dist \<and> every_split_bound dist g"
proof -
  have dist: "axes dist = map (default_axis (dims g) b) [0..<length shp]" "\<not> replicated dist"
    and fits: "\<And>k. length shp \<le> k \<Longrightarrow> k < length (dims g) \<Longrightarrow> \<not> 1 < dims g ! k"
    using assms(1) by (auto simp: default_distribution_def list_ex_iff split: if_splits)
  have "one_axis_per_grid_dim (axes dist)"
    by (rule one_axis_per_grid_dimI) (auto simp: dist grid_dim_default_axis split: if_splits)
  moreover have "dims g ! k = 1 \<or> binds_grid_dim dist k" if k: "k < length (dims g)" for k
  proof (cases "1 < dims g ! k")
    case True
    then have "k < length shp" using fits [of k] k by force
    then show ?thesis using True k
      by (auto simp: binds_grid_dim_def dist list_ex_iff grid_dim_default_axis)
  next
    case False
    then show ?thesis using positive_nth [OF assms(2) k] by linarith
  qed
  ultimately show ?thesis
    by (auto simp: wf_dist_def every_split_bound_def dist list_all_iff grid_dim_default_axis)
qed

text \<open>The default block-cyclic layout of an array tiles it: whenever \<^verbatim>\<open>default_distribution\<close>
  returns, on a grid of positive extents, every rank's tile is well defined and together they hold
  each element of a non-empty array exactly once.\<close>

theorem default_distribution_partitions:
  assumes "default_distribution shp g bsize = Inr dist"
    and "list_all (\<lambda>d. 0 < d) (dims g)" and "list_all (\<lambda>n. 0 < n) shp"
  shows "is_partition shp dist g = Inr True"
proof -
  have "positive (dims g)" using assms(2) by (simp add: positive_def)
  from wf_default_distribution [OF assms(1) this] is_partition_tiles [OF assms(2,3)]
  show ?thesis by simp
qed

theorem default_distribution_partitions_witness:
  "\<exists>dist. default_distribution [6, 5, 4] \<lparr>dims = [2, 2]\<rparr> 2 = Inr dist
     \<and> is_partition [6, 5, 4] dist \<lparr>dims = [2, 2]\<rparr> = Inr True"
proof -
  obtain dist where "default_distribution [6, 5, 4] \<lparr>dims = [2, 2]\<rparr> 2 = Inr dist"
    by (simp add: default_distribution_def)
  with default_distribution_partitions [OF this] show ?thesis by simp
qed

section \<open>The plan of a kernel fits its grid\<close>

definition axes_in_grid :: "grid \<Rightarrow> axis_dist list \<Rightarrow> bool" where
  "axes_in_grid g xs \<longleftrightarrow> list_all (\<lambda>ax. case grid_dim ax of None \<Rightarrow> True
     | Some gd \<Rightarrow> 0 \<le> gd \<and> gd < int (length (dims g))) xs"

definition entry_fits :: "grid \<Rightarrow> planned_array \<Rightarrow> bool" where
  "entry_fits g e \<longleftrightarrow> replicated e \<or>
     (one_axis_per_grid_dim (axes e) \<and> axes_in_grid g (axes e) \<and> every_split_bound (array_dist.truncate e) g)"

definition arrays_fit :: "grid \<Rightarrow> (string, planned_array) dict \<Rightarrow> bool" where
  "arrays_fit g arrays \<longleftrightarrow> list_all (\<lambda>(_, e). entry_fits g e) arrays"

definition plan_fits :: "plan \<Rightarrow> int \<Rightarrow> bool" where
  "plan_fits p ranks \<longleftrightarrow>
     list_all (\<lambda>d. 0 < d) (plan_grid p) \<and> nranks \<lparr>dims = plan_grid p\<rparr> = ranks \<and>
     arrays_fit \<lparr>dims = plan_grid p\<rparr> (plan_arrays p)"

lemma axes_truncate [simp]: "axes (array_dist.truncate e) = axes e"
  "replicated (array_dist.truncate e) = replicated e"
  by (simp_all add: array_dist.truncate_def)

lemma arrays_fit_Nil [simp]: "arrays_fit g []"
  by (simp add: arrays_fit_def)

lemma arrays_fit_set:
  assumes "arrays_fit g arrays" "entry_fits g e"
  shows "arrays_fit g (dict_set name e arrays)"
  using assms set_dict_set [of name e arrays] by (auto simp: arrays_fit_def list_all_iff)

lemma first_pos_Some:
  "first_pos P xs = Some d \<Longrightarrow> d < length xs \<and> P (xs ! d) \<and> (\<forall>i < d. \<not> P (xs ! i))"
  by (induction xs arbitrary: d) (auto split: if_splits simp: less_Suc_eq_0_disj)

lemma split_along_fits:
  assumes "d < n"
  shows "entry_fits \<lparr>dims = [r]\<rparr> (split_along n d (split_axis sch b))"
proof -
  let ?xs = "axes (split_along n d (split_axis sch b))"
  have gd: "grid_dim (?xs ! i) = (if i = d then Some 0 else None)" if "i < n" for i
    using that by (simp add: split_along_def split_axis_def)
  have len: "length ?xs = n" by (simp add: split_along_def)
  have "one_axis_per_grid_dim ?xs"
    by (rule one_axis_per_grid_dimI) (auto simp: len gd split: if_splits)
  moreover have "axes_in_grid \<lparr>dims = [r]\<rparr> ?xs"
    by (simp add: axes_in_grid_def list_all_length len gd)
  moreover have "every_split_bound (array_dist.truncate (split_along n d (split_axis sch b))) \<lparr>dims = [r]\<rparr>"
    using assms len gd [of d] by (auto simp: every_split_bound_def binds_grid_dim_def list_ex_length)
  ultimately show ?thesis by (simp add: entry_fits_def)
qed

lemma split_entry_fits:
  assumes "arrays_fit \<lparr>dims = [r]\<rparr> arrays" "split_entry shapes sch b arrays entry = Inr arrays'"
  shows "arrays_fit \<lparr>dims = [r]\<rparr> arrays'"
proof -
  obtain name os where e: "entry = (name, os)" by force
  show ?thesis
  proof (cases os)
    case None
    with assms e show ?thesis
      by (auto simp: split_entry_def entry_fits_def intro!: arrays_fit_set)
  next
    case (Some s)
    then obtain shp d where "dict_item KeyError shapes name = Inr shp"
      "first_pos (\<lambda>t. t = s) shp = Some d"
      "arrays' = dict_set name (split_along (length shp) d (split_axis sch b)) arrays"
      using assms(2) e by (auto simp: split_entry_def bindE_Inr_iff split: option.splits)
    with assms(1) first_pos_Some [of _ shp d] show ?thesis
      by (auto intro!: arrays_fit_set split_along_fits)
  qed
qed

lemma shape_entry_fits:
  assumes "arrays_fit \<lparr>dims = [r]\<rparr> arrays"
  shows "arrays_fit \<lparr>dims = [r]\<rparr> (shape_entry wanted sch b arrays entry)"
  using assms
  by (auto simp: shape_entry_def intro!: arrays_fit_set split_along_fits dest!: first_pos_Some
      split: option.splits)

lemma cyclic_entry_fits:
  assumes "arrays_fit g arrays" "cyclic_entry g k b arrays entry = Inr arrays'" "positive (dims g)"
  shows "arrays_fit g arrays'"
proof (cases "int (length (snd entry)) < k")
  case False
  with assms(2) obtain dist where
    d: "default_distribution (replicate (length (snd entry)) 2) g b = Inr dist"
    "arrays' = dict_set (fst entry) \<lparr>axes = axes dist, replicated = False, placed = None\<rparr> arrays"
    by (auto simp: cyclic_entry_def bindE_Inr_iff)
  from wf_default_distribution [OF d(1) assms(3)]
  have "entry_fits g \<lparr>axes = axes dist, replicated = False, placed = None\<rparr>"
    by (simp add: entry_fits_def wf_dist_def axes_in_grid_def every_split_bound_def binds_grid_dim_def)
  with d(2) assms(1) show ?thesis by (simp add: arrays_fit_set)
qed (use assms in \<open>simp add: cyclic_entry_def\<close>)

lemma distribution_from_split_fits:
  assumes "distribution_from_split shapes split ranks sch b = Inr p" "0 < ranks"
  shows "plan_fits p ranks"
proof -
  obtain arrays where a: "foldE (split_entry shapes sch b) [] split = Inr arrays"
      "p = \<lparr>plan_grid = [ranks], plan_arrays = arrays\<rparr>"
    using assms(1) by (auto simp: distribution_from_split_def bindE_Inr_iff split: if_splits)
  have "arrays_fit \<lparr>dims = [ranks]\<rparr> arrays"
    by (rule foldE_invariant [OF a(1), where I = "arrays_fit \<lparr>dims = [ranks]\<rparr>"]) (auto intro: split_entry_fits)
  with a assms(2) show ?thesis by (simp add: plan_fits_def nranks_def)
qed

lemma distribution_from_shapes_fits:
  assumes "distribution_from_shapes shapes wanted ranks sch b = Inr p" "0 < ranks"
  shows "plan_fits p ranks"
proof -
  have "arrays_fit \<lparr>dims = [ranks]\<rparr> (foldl (shape_entry wanted sch b) [] shapes)"
    by (rule foldl_invariant) (auto intro: shape_entry_fits)
  with assms show ?thesis
    by (auto simp: distribution_from_shapes_def Let_def plan_fits_def nranks_def split: if_splits)
qed

lemma blockcyclic_distribution_fits:
  assumes "blockcyclic_distribution_from_shapes root shapes ranks k b = Inr p" "0 < ranks"
    and "0 \<le> root ranks k"
  shows "plan_fits p ranks"
proof -
  obtain g arrays where g: "hypercube_grid root ranks k = Inr g"
      and a: "foldE (cyclic_entry g k b) [] shapes = Inr arrays"
      and p: "p = \<lparr>plan_grid = dims g, plan_arrays = arrays\<rparr>"
    using assms(1) by (auto simp: blockcyclic_distribution_from_shapes_def bindE_Inr_iff split: if_splits)
  note h = hypercube_grid_dims [OF g]
  have "root ranks k \<noteq> 0" using h assms(2) by (auto simp: nranks_def zero_power)
  then have pos: "positive (dims g)" using h assms(3) by (auto simp: positive_def list_all_iff)
  have "arrays_fit g arrays"
    by (rule foldE_invariant [OF a, where I = "arrays_fit g"]) (auto intro: cyclic_entry_fits pos)
  moreover have "\<lparr>dims = plan_grid p\<rparr> = g" using p by simp
  moreover have "nranks g = ranks" using h by simp
  ultimately show ?thesis using pos p by (simp add: plan_fits_def positive_def)
qed

lemma kernel_plan_fits:
  assumes "distribution_for_kernel root mpi b ranks = Inr p" and "0 < ranks"
    and "\<And>r k. 0 \<le> root r k"
  shows "plan_fits p ranks"
  using assms
  by (auto simp: distribution_for_kernel_def distribution_over_symbol_def Let_def
      intro: distribution_from_split_fits distribution_from_shapes_fits blockcyclic_distribution_fits
      split: if_splits)

text \<open>C24. Every plan \<^verbatim>\<open>distribution_for_kernel\<close> builds is well formed, whichever of its four
  builders it takes: the grid has positive extents that multiply to the rank count, and each array is
  replicated or binds each split grid dimension with exactly one of its axes.\<close>

theorem distribution_for_kernel_fits:
  assumes "distribution_for_kernel root mpi b ranks = Inr p" and "0 < ranks"
    and "\<And>r k. 0 \<le> root r k"
  shows "plan_fits p ranks"
  by (rule kernel_plan_fits [OF assms])

theorem distribution_for_kernel_fits_witness:
  "\<exists>p. distribution_for_kernel (\<lambda>_ _. 2)
       (Some (no_mpi_block\<lparr>decomp_scheme := Cyclic, decomp_grid_ndim := 2, mpi_arrays := Some [(''A'', [''N'', ''N''])]\<rparr>))
       \<lparr>args = []\<rparr> 4 = Inr p \<and> plan_fits p 4"
proof -
  obtain p where "distribution_for_kernel (\<lambda>_ _. 2)
       (Some (no_mpi_block\<lparr>decomp_scheme := Cyclic, decomp_grid_ndim := 2, mpi_arrays := Some [(''A'', [''N'', ''N''])]\<rparr>))
       \<lparr>args = []\<rparr> 4 = Inr p"
    by (simp add: distribution_for_kernel_def blockcyclic_distribution_from_shapes_def hypercube_grid_def
        no_mpi_block_def or_dict_def cyclic_entry_def default_distribution_def upt_rec numeral_2_eq_2)
  with distribution_for_kernel_fits [OF this] show ?thesis by simp
qed

end
