(* ===== verification/Mpi_Checks.thy ===== *)
theory Mpi_Checks
  imports Mpi_Descriptor
begin

text \<open>
  What the per-rank sizes and the layout refusals of \<^verbatim>\<open>harness/mpi_descriptor.py\<close> guarantee: the
  number of elements a dealt axis owns, the per-rank value of a size symbol, and for each refusal
  what holds of every rank's tiles when the judge does not refuse.
\<close>

section \<open>How many elements a coordinate owns\<close>

lemma div_eq_interval:
  assumes "0 < (b :: int)"
  shows "i div b = q \<longleftrightarrow> b * q \<le> i \<and> i < b * (q + 1)"
proof
  assume "i div b = q"
  then show "b * q \<le> i \<and> i < b * (q + 1)"
    using assms mult_div_mod_eq [of b i] pos_mod_bound [OF assms, of i] pos_mod_sign [OF assms, of i]
    by (simp add: algebra_simps)
next
  assume "b * q \<le> i \<and> i < b * (q + 1)"
  then show "i div b = q"
    using assms by (intro int_div_pos_eq [where r = "i - b * q"]) (auto simp: algebra_simps)
qed

lemma mod_eq_interval:
  assumes "0 \<le> c" "c < p" "p * m \<le> j" "j < p * (m + 1)"
  shows "j mod p = c \<longleftrightarrow> j = p * m + (c :: int)"
proof -
  have "j div p = m" using assms div_eq_interval [of p j m] by auto
  then have "j = p * m + j mod p" using mult_div_mod_eq [of p j] by simp
  then show ?thesis using assms by (auto simp: add_right_cancel)
qed

text \<open>One round of blocks deals each coordinate exactly one block.\<close>

lemma cyclic_round:
  assumes "0 < b" "0 < p" "0 \<le> c" "c < (p :: int)"
  shows "{i \<in> {b * p * m..<b * p * (m + 1)}. (i div b) mod p = c} = {b * (p * m + c)..<b * (p * m + c + 1)}"
proof -
  have in_round: "b * p * m \<le> i \<and> i < b * p * (m + 1) \<longleftrightarrow> p * m \<le> i div b \<and> i div b < p * (m + 1)" for i
  proof -
    have "p * m \<le> i div b \<longleftrightarrow> b * p * m \<le> i" for m
      using le_div_iff_int [OF assms(1)] by (simp add: mult.assoc)
    then show ?thesis by (metis not_le)
  qed
  have "i \<in> {i \<in> {b * p * m..<b * p * (m + 1)}. (i div b) mod p = c} \<longleftrightarrow>
      i \<in> {b * (p * m + c)..<b * (p * m + c + 1)}" for i
  proof -
    have "i \<in> {i \<in> {b * p * m..<b * p * (m + 1)}. (i div b) mod p = c} \<longleftrightarrow> i div b = p * m + c"
      using mod_eq_interval [OF assms(3,4), of m "i div b"] in_round [of i] assms
      by (auto simp: algebra_simps)
    then show ?thesis using div_eq_interval [OF assms(1), of i "p * m + c"] by auto
  qed
  then show ?thesis by blast
qed

definition cyc_count :: "int \<Rightarrow> int \<Rightarrow> int \<Rightarrow> int \<Rightarrow> nat" where
  "cyc_count b p c n = card {i \<in> {0..<n}. (i div b) mod p = c}"

lemma length_cyclic_own: "length (cyclic_own b n p c) = cyc_count b p c n"
  unfolding cyc_count_def by (subst distinct_card [symmetric]) (simp_all add: cyclic_own_def)

lemma cyc_count_split:
  assumes "0 \<le> k" "k \<le> n"
  shows "cyc_count b p c n = cyc_count b p c k + card {i \<in> {k..<n}. (i div b) mod p = c}"
proof -
  have fin: "finite {i \<in> {u..<v}. (i div b) mod p = c}" for u v
    by (rule finite_subset [of _ "{u..<v}"]) auto
  have "{i \<in> {0..<n}. (i div b) mod p = c} =
      {i \<in> {0..<k}. (i div b) mod p = c} \<union> {i \<in> {k..<n}. (i div b) mod p = c}"
    using assms by auto
  moreover have "card ({i \<in> {0..<k}. (i div b) mod p = c} \<union> {i \<in> {k..<n}. (i div b) mod p = c}) =
      card {i \<in> {0..<k}. (i div b) mod p = c} + card {i \<in> {k..<n}. (i div b) mod p = c}"
    by (rule card_Un_disjoint [OF fin fin]) auto
  ultimately show ?thesis by (simp add: cyc_count_def)
qed

lemma cyc_count_rounds:
  assumes "0 < b" "0 < p" "0 \<le> c" "c < p"
  shows "cyc_count b p c (b * p * int m) = m * nat b"
proof (induction m)
  case (Suc m)
  have "cyc_count b p c (b * p * (int m + 1)) =
      cyc_count b p c (b * p * int m) + card {i \<in> {b * p * int m..<b * p * (int m + 1)}. (i div b) mod p = c}"
    using assms(1,2) by (intro cyc_count_split) (simp_all add: mult_left_mono)
  then have "cyc_count b p c (b * p * (int m + 1)) = m * nat b + nat b"
    unfolding Suc cyclic_round [OF assms] by (simp add: algebra_simps)
  then show ?case by (simp add: algebra_simps)
qed (simp add: cyc_count_def)

text \<open>A cyclic axis of width 1 deals each coordinate as many elements as the blocks do.\<close>

lemma cyc_count_one:
  assumes p: "0 < p" and c: "0 \<le> c" "c < p" and n: "0 \<le> n"
  shows "cyc_count 1 p c n = length (block_own n p c)"
proof -
  define q where "q = n div p"
  define r where "r = n mod p"
  have r: "0 \<le> r" "r < p" using p by (simp_all add: r_def)
  have q: "0 \<le> q" using p n by (simp add: q_def pos_imp_zdiv_nonneg_iff)
  have nqr: "n = p * q + r" by (simp add: q_def r_def)
  have "cyc_count 1 p c n = cyc_count 1 p c (p * q) + card {i \<in> {p * q..<n}. (i div 1) mod p = c}"
    using r q p by (intro cyc_count_split) (simp_all add: nqr)
  also have "cyc_count 1 p c (p * q) = nat q"
    using cyc_count_rounds [of 1 p c "nat q"] p c q by simp
  also have "{i \<in> {p * q..<n}. (i div 1) mod p = c} = (if c < r then {p * q + c} else {})"
  proof -
    have "i mod p = c \<longleftrightarrow> i = p * q + c" if "p * q \<le> i" "i < n" for i
      using that r by (intro mod_eq_interval c) (simp_all add: nqr algebra_simps)
    then show ?thesis using c r by (auto simp: nqr)
  qed
  finally have "cyc_count 1 p c n = nat q + (if c < r then 1 else 0)" by simp
  moreover have "block_lo n p (c + 1) - block_lo n p c = q + (if c < r then 1 else 0)"
    by (simp add: block_lo_def q_def [symmetric] r_def [symmetric] algebra_simps)
  ultimately show ?thesis using q by (simp add: block_own_def Suc_nat_eq_nat_zadd1 add.commute)
qed

text \<open>So the number owned depends on the grid dimension and the effective block size alone.\<close>

lemma length_axis_own:
  assumes "0 < p" "0 \<le> c" "c < p" "0 \<le> n"
  shows "length (axis_own ax n p c) = cyc_count (effective_block_size ax) p c n"
  using cyc_count_one [OF assms]
  by (simp add: axis_own_def length_cyclic_own effective_block_size_def)

section \<open>The size symbols of a rank\<close>

definition cand_keys :: "descriptor \<Rightarrow> (string \<times> nat) list \<Rightarrow> (int \<times> int) set" where
  "cand_keys d cands = (\<lambda>ax. (the (grid_dim ax), effective_block_size ax)) ` set (List.map_filter (split_of d) cands)"

definition symbol_inv ::
    "descriptor \<Rightarrow> int list \<Rightarrow> int \<Rightarrow> (string \<times> nat) list \<Rightarrow> symbol_state \<Rightarrow> bool" where
  "symbol_inv d coords n cands st \<longleftrightarrow> (case st of (schemes, whole, local_val) \<Rightarrow>
     distinct schemes \<and> set schemes = cand_keys d cands \<and>
     whole = (\<exists>c \<in> set cands. split_of d c = None) \<and>
     (case local_val of None \<Rightarrow> \<forall>c \<in> set cands. split_of d c = None
      | Some v \<Rightarrow> \<exists>c \<in> set cands. \<exists>ax ixs. split_of d c = Some ax \<and>
          owned_indices n ax (d_grid d) coords = Inr ixs \<and> v = int (length ixs)))"

lemma cand_keys_snoc:
  "cand_keys d (cands @ [c]) = (case split_of d c of None \<Rightarrow> cand_keys d cands
     | Some ax \<Rightarrow> insert (the (grid_dim ax), effective_block_size ax) (cand_keys d cands))"
  by (auto simp: cand_keys_def map_filter_def split: option.splits)

lemma symbol_step_inv:
  assumes "symbol_inv d coords n cands st" "symbol_step d coords n st c = Inr st'"
  shows "symbol_inv d coords n (cands @ [c]) st'"
proof -
  obtain schemes whole lv where st: "st = (schemes, whole, lv)" by (cases st)
  show ?thesis
  proof (cases "split_of d c")
    case None
    with assms st show ?thesis
      by (auto simp: symbol_inv_def symbol_step_def cand_keys_snoc split: option.splits)
  next
    case (Some ax)
    show ?thesis
    proof (cases lv)
      case None
      with assms st Some show ?thesis
        by (auto simp: symbol_inv_def symbol_step_def cand_keys_snoc Let_def bindE_Inr_iff)
    next
      case (Some v)
      with assms st \<open>split_of d c = Some ax\<close> show ?thesis
        by (fastforce simp: symbol_inv_def symbol_step_def cand_keys_snoc Let_def)
    qed
  qed
qed

lemma symbol_fold_inv:
  "foldE (symbol_step d coords n) ([], False, None) cands = Inr st \<Longrightarrow> symbol_inv d coords n cands st"
proof (induction cands arbitrary: st rule: rev_induct)
  case Nil
  then show ?case by (auto simp: symbol_inv_def cand_keys_def map_filter_simps)
next
  case (snoc c cands)
  then obtain st0 where "foldE (symbol_step d coords n) ([], False, None) cands = Inr st0"
    "symbol_step d coords n st0 c = Inr st"
    by (auto simp: foldE_append bindE_Inr_iff)
  with snoc.IH symbol_step_inv show ?case by blast
qed

definition grids_ok :: "descriptor \<Rightarrow> bool" where
  "grids_ok d \<longleftrightarrow> list_all (\<lambda>e. 0 < e) (dims (d_grid d)) \<and>
     list_all (\<lambda>(_, ad). axes_in_grid (d_grid d) (axes ad)) (d_arrays d)"

lemma split_of_owned:
  assumes "grids_ok d" "split_of d c = Some ax" "0 \<le> n" "coords_of (d_grid d) r = Inr coords"
  shows "\<exists>gd ixs. grid_dim ax = Some gd \<and> owned_indices n ax (d_grid d) coords = Inr ixs \<and>
    length ixs = cyc_count (effective_block_size ax) (dims (d_grid d) ! nat gd) (coords ! nat gd) n"
proof -
  let ?g = "d_grid d"
  have pos: "positive (dims ?g)" using assms(1) by (simp add: grids_ok_def positive_def)
  have coords: "coords = unravel (dims ?g) r" using assms(4) by (simp add: coords_of_eq [OF pos])
  obtain ad gd where ad: "map_of (d_arrays d) (fst c) = Some ad" "snd c < length (axes ad)"
      "ax = axes ad ! snd c" "grid_dim ax = Some gd"
    using assms(2) by (auto simp: split_of_def Let_def split: option.splits if_splits)
  then have "axes_in_grid ?g (axes ad)" using assms(1) map_of_SomeD by (fastforce simp: grids_ok_def list_all_iff)
  with ad have gd: "0 \<le> gd" "gd < int (length (dims ?g))"
    by (auto simp: axes_in_grid_def list_all_length)
  have box: "in_box (dims ?g) coords" unfolding coords by (rule unravel_in_box [OF pos])
  have "nat gd < length (dims ?g)" using gd by auto
  from in_box_nth [OF box this] positive_nth [OF pos this]
  have len: "length (axis_own ax n (dims ?g ! nat gd) (coords ! nat gd)) =
      cyc_count (effective_block_size ax) (dims ?g ! nat gd) (coords ! nat gd) n"
    using assms(3) by (intro length_axis_own) auto
  have "owned_indices n ax ?g coords = Inr (axis_own ax n (dims ?g ! nat gd) (coords ! nat gd))"
    by (subst owned_indices_eq [OF pos]) (use ad gd box in \<open>auto simp: in_box_def list_all2_lengthD\<close>)
  with len ad(4) show ?thesis by auto
qed

text \<open>Every split candidate of a symbol has \<open>m\<close> elements on the rank.\<close>

definition local_extent :: "descriptor \<Rightarrow> int list \<Rightarrow> int \<Rightarrow> string \<times> nat \<Rightarrow> int \<Rightarrow> bool" where
  "local_extent d coords n c m \<longleftrightarrow> (case split_of d c of None \<Rightarrow> False
     | Some ax \<Rightarrow> (case owned_indices n ax (d_grid d) coords of Inl _ \<Rightarrow> False
                   | Inr ixs \<Rightarrow> m = int (length ixs)))"

definition all_split :: "descriptor \<Rightarrow> (string \<times> nat) list \<Rightarrow> bool" where
  "all_split d cands \<longleftrightarrow> cands \<noteq> [] \<and> list_all (\<lambda>c. split_of d c \<noteq> None) cands"

lemma local_symbols_iff:
  assumes "distinct (map fst (symbol_axes d))" "map_of (symbol_axes d) s = Some cands"
  shows "s \<in> set (local_symbols d) \<longleftrightarrow> all_split d cands"
proof -
  let ?P = "\<lambda>cs. filter (\<lambda>c. split_of d c \<noteq> None) cs \<noteq> [] \<and>
    length (filter (\<lambda>c. split_of d c \<noteq> None) cs) = length cs"
  have "s \<in> set (local_symbols d) \<longleftrightarrow> (\<exists>cs. (s, cs) \<in> set (symbol_axes d) \<and> ?P cs)"
    unfolding local_symbols_def Let_def set_map set_filter image_iff by (simp add: split_beta)
  also have "\<dots> \<longleftrightarrow> ?P cands"
  proof -
    have "(s, cs) \<in> set (symbol_axes d) \<longleftrightarrow> cs = cands" for cs
      using assms(2) map_of_eq_Some_iff [OF assms(1), of s cs] by auto
    then show ?thesis by simp
  qed
  also have "\<dots> \<longleftrightarrow> all_split d cands"
  proof (cases "\<exists>c \<in> set cands. split_of d c = None")
    case True
    then obtain c where "c \<in> set cands" "\<not> split_of d c \<noteq> None" by auto
    from length_filter_less [where P = "\<lambda>c. split_of d c \<noteq> None", OF this] True show ?thesis by (auto simp: all_split_def list_all_iff)
  next
    case False
    then have "filter (\<lambda>c. split_of d c \<noteq> None) cands = cands" by (auto simp: filter_id_conv)
    with False show ?thesis by (auto simp: all_split_def list_all_iff)
  qed
  finally show ?thesis .
qed

lemma localize_other:
  "localize_symbol d coords globals out (s, cands) = Inr out' \<Longrightarrow> s \<noteq> s' \<Longrightarrow> map_of out' s' = map_of out s'"
  by (auto simp: localize_symbol_def bindE_Inr_iff update_conv' split: option.splits if_splits)

lemma localize_others:
  "foldE (localize_symbol d coords globals) out entries = Inr out' \<Longrightarrow> s \<notin> fst ` set entries \<Longrightarrow>
     map_of out' s = map_of out s"
proof (induction entries arbitrary: out)
  case (Cons e entries)
  obtain s' cands where e: "e = (s', cands)" by force
  with Cons.prems obtain out1 where "localize_symbol d coords globals out (s', cands) = Inr out1"
    "foldE (localize_symbol d coords globals) out1 entries = Inr out'" "s' \<noteq> s" "s \<notin> fst ` set entries"
    by (auto simp: bindE_Inr_iff)
  with Cons.IH localize_other show ?case by metis
qed simp

lemma localize_here:
  assumes ok: "grids_ok d" and c: "coords_of (d_grid d) r = Inr coords"
    and n: "map_of globals s = Some n" "0 \<le> n" "map_of out s = Some n"
    and step: "localize_symbol d coords globals out (s, cands) = Inr out'"
  shows "if all_split d cands
    then \<exists>m. map_of out' s = Some m \<and> (\<forall>c \<in> set cands. local_extent d coords n c m)
    else map_of out' s = Some n"
proof -
  obtain schemes whole lv where f: "foldE (symbol_step d coords n) ([], False, None) cands = Inr (schemes, whole, lv)"
      "\<not> 1 < length schemes"
      "out' = (case lv of Some v \<Rightarrow> if whole then out else dict_set s v out | None \<Rightarrow> out)"
    using step n(1) by (auto simp: localize_symbol_def bindE_Inr_iff split: if_splits option.splits)
  from symbol_fold_inv [OF f(1)] have inv: "symbol_inv d coords n cands (schemes, whole, lv)" .
  show ?thesis
  proof (cases "all_split d cands")
    case True
    then have "hd cands \<in> set cands" "\<forall>c \<in> set cands. split_of d c \<noteq> None"
      by (auto simp: all_split_def list_all_iff)
    then have "\<not> whole" "lv \<noteq> None"
      using inv unfolding symbol_inv_def by (auto split: option.splits)
    then obtain v c0 ax0 ixs0 where v: "lv = Some v" "c0 \<in> set cands" "split_of d c0 = Some ax0"
        "owned_indices n ax0 (d_grid d) coords = Inr ixs0" "v = int (length ixs0)"
      using inv by (auto simp: symbol_inv_def)
    have one: "x = y" if "x \<in> cand_keys d cands" "y \<in> cand_keys d cands" for x y
    proof -
      have "length schemes \<le> 1" "x \<in> set schemes" "y \<in> set schemes"
        using that inv f(2) by (simp_all add: symbol_inv_def)
      then show ?thesis by (cases schemes) simp_all
    qed
    have mem: "(the (grid_dim ax), effective_block_size ax) \<in> cand_keys d cands"
      if "c \<in> set cands" "split_of d c = Some ax" for c ax
      using that by (force simp: cand_keys_def map_filter_def)
    have "local_extent d coords n c v" if "c \<in> set cands" for c
    proof -
      have "split_of d c \<noteq> None" using True that unfolding all_split_def list_all_iff by blast
      then obtain ax where ax: "split_of d c = Some ax" by blast
      from split_of_owned [OF ok ax n(2) assms(2)] split_of_owned [OF ok v(3) n(2) assms(2)]
        one [OF mem [OF that ax] mem [OF v(2,3)]] v(4,5)
      show ?thesis by (auto simp: local_extent_def ax)
    qed
    moreover have "map_of out' s = Some v" using f(3) v(1) \<open>\<not> whole\<close> by (simp add: update_conv')
    ultimately show ?thesis using True by auto
  next
    case False
    then have "whole \<or> lv = None"
      using inv by (auto simp: symbol_inv_def all_split_def list_all_iff split: option.splits)
    with False f(3) n(3) show ?thesis by (auto split: option.splits)
  qed
qed

text \<open>C16. The size scalars a rank receives agree with the tiles it holds: when
  \<^verbatim>\<open>local_size_scalars\<close> returns, a symbol that \<^verbatim>\<open>local_symbols\<close> lists has, on this rank, the
  number of indices the rank owns along every axis the symbol sizes (whatever the schemes of those
  axes), and every other symbol keeps its global value.\<close>

theorem local_size_scalars_sound:
  assumes "local_size_scalars d globals r = Inr out" and "grids_ok d"
    and "distinct (map fst (symbol_axes d))"
    and "map_of (symbol_axes d) s = Some cands" and "map_of globals s = Some n" and "0 \<le> n"
  shows "if s \<in> set (local_symbols d)
    then \<exists>coords m. coords_of (d_grid d) r = Inr coords \<and> map_of out s = Some m \<and>
      (\<forall>c \<in> set cands. local_extent d coords n c m)
    else map_of out s = Some n"
proof -
  obtain coords where c: "coords_of (d_grid d) r = Inr coords"
      and f: "foldE (localize_symbol d coords globals) globals (symbol_axes d) = Inr out"
    using assms(1) by (auto simp: local_size_scalars_def bindE_Inr_iff)
  obtain pre post where ax: "symbol_axes d = pre @ (s, cands) # post"
    using split_list [OF map_of_SomeD [OF assms(4)]] by auto
  then have fresh: "s \<notin> fst ` set pre" "s \<notin> fst ` set post" using assms(3) by auto
  from f obtain out1 out2 where o: "foldE (localize_symbol d coords globals) globals pre = Inr out1"
      "localize_symbol d coords globals out1 (s, cands) = Inr out2"
      "foldE (localize_symbol d coords globals) out2 post = Inr out"
    by (auto simp: ax foldE_append bindE_Inr_iff)
  have "map_of out1 s = Some n" "map_of out s = map_of out2 s"
    using localize_others [OF o(1) fresh(1)] localize_others [OF o(3) fresh(2)] assms(5) by simp_all
  with localize_here [OF assms(2) c assms(5,6) _ o(2)] c show ?thesis
    by (auto simp: local_symbols_iff [OF assms(3,4)] split: if_splits)
qed

theorem local_size_scalars_sound_witness:
  "\<exists>coords m. coords_of \<lparr>dims = [2]\<rparr> 1 = Inr coords \<and> m = 2 \<and>
     local_extent \<lparr>d_grid = \<lparr>dims = [2]\<rparr>,
        d_arrays = [(''A'', \<lparr>axes = [split_axis Block 1], replicated = False\<rparr>),
                    (''B'', \<lparr>axes = [split_axis Cyclic 1], replicated = False\<rparr>)],
        symbol_axes = [(''N'', [(''A'', 0), (''B'', 0)])], locations = []\<rparr> coords 5 (''B'', 0) m"
proof -
  let ?d = "\<lparr>d_grid = \<lparr>dims = [2]\<rparr>,
        d_arrays = [(''A'', \<lparr>axes = [split_axis Block 1], replicated = False\<rparr>),
                    (''B'', \<lparr>axes = [split_axis Cyclic 1], replicated = False\<rparr>)],
        symbol_axes = [(''N'', [(''A'', 0), (''B'', 0)])], locations = []\<rparr>"
  have "local_size_scalars ?d [(''N'', 5)] 1 = Inr [(''N'', 2)]" by code_simp
  moreover have "grids_ok ?d" by code_simp
  moreover have "''N'' \<in> set (local_symbols ?d)" by code_simp
  ultimately show ?thesis
    using local_size_scalars_sound [of ?d "[(''N'', 5)]" 1 "[(''N'', 2)]" "''N''" "[(''A'', 0), (''B'', 0)]" 5]
    by auto
qed

section \<open>Contiguous blocks\<close>

lemma axis_own_eqI:
  assumes "0 < p" "0 \<le> n" "set (axis_own ax n p c) = set (block_own n p c)"
  shows "axis_own ax n p c = block_own n p c"
  using ax.own_sorted [OF assms(1,2), of ax c] block.own_sorted [OF assms(1,2), of c] assms(3)
  by (intro sorted_distinct_set_unique) auto

lemma degenerate_block_own:
  assumes d: "degenerates_to_block n p ax" and p: "0 < p" and n: "0 \<le> n" and c: "0 \<le> c" "c < p"
  shows "axis_own ax n p c = block_own n p c"
proof (cases "scheme_of ax = Block")
  case False
  define w where "w = effective_block_size ax"
  have own: "set (axis_own ax n p c) = {i \<in> {0..<n}. (i div w) mod p = c}"
    using False by (auto simp: axis_own_def cyclic_own_def w_def)
  from d False consider "p = 1" | "n \<le> 1" "1 < p" | "1 < n" "1 < p" "n mod p = 0" "w = n div p"
    using p unfolding degenerates_to_block_def w_def by fastforce
  then show ?thesis
  proof cases
    case 1
    then have "c = 0" using c by simp
    have "set (axis_own ax n p c) = {0..<n}" by (simp only: own) (auto simp: 1 \<open>c = 0\<close>)
    moreover have "set (block_own n p c) = {0..<n}"
      by (simp add: set_block_own block_lo_def \<open>c = 0\<close> 1)
    ultimately show ?thesis by (intro axis_own_eqI p n) simp
  next
    case 2
    then consider "n = 0" | "n = 1" using n by linarith
    then show ?thesis
    proof cases
      case 2
      then have "n div p = 0" "n mod p = 1" using \<open>1 < p\<close> by simp_all
      then have "set (block_own n p c) = {min c 1..<1}" using 2 c by (simp add: set_block_own block_lo_def)
      moreover have "i \<in> set (axis_own ax n p c) \<longleftrightarrow> i = 0 \<and> c = 0" for i
      proof -
        have "i \<in> set (axis_own ax n p c) \<longleftrightarrow> 0 \<le> i \<and> i < 1 \<and> (i div w) mod p = c"
          by (subst own) (simp add: 2)
        then show ?thesis by (cases "i = 0") auto
      qed
      ultimately show ?thesis using c by (intro axis_own_eqI p n set_eqI) auto
    next
      case 1
      then show ?thesis using c by (simp add: axis_own_def cyclic_own_def block_own_def py_range_def block_lo_def)
    qed
  next
    case 3
    have nw: "n = w * p * 1" using 3 div_mult_mod_eq [of n p] by simp
    have "0 < w" by (simp add: w_def)
    from cyclic_round [OF this p c, of 0] have "set (axis_own ax n p c) = {w * c..<w * (c + 1)}"
      by (subst own) (simp add: nw)
    then show ?thesis
      using 3 c by (intro axis_own_eqI p n) (simp add: set_block_own block_lo_def algebra_simps)
  qed
qed (simp add: axis_own_def)

text \<open>On an extent the coordinates divide evenly, \<^verbatim>\<open>degenerates_to_block\<close> decides exactly when a
  declared scheme realizes the contiguous blocks: every coordinate then owns the index set
  \<^verbatim>\<open>block_bounds\<close> hands out.\<close>

theorem degenerates_to_block_exact:
  assumes "0 < p" and "0 \<le> n" and "n mod p = 0"
  shows "degenerates_to_block n p ax \<longleftrightarrow> (\<forall>c \<in> {0..<p}. axis_own ax n p c = block_own n p c)"
proof
  assume "degenerates_to_block n p ax"
  then show "\<forall>c \<in> {0..<p}. axis_own ax n p c = block_own n p c"
    using degenerate_block_own assms(1,2) by simp
next
  assume all: "\<forall>c \<in> {0..<p}. axis_own ax n p c = block_own n p c"
  define w where "w = effective_block_size ax"
  have w: "0 < w" by (simp add: w_def)
  show "degenerates_to_block n p ax"
  proof (rule ccontr)
    assume "\<not> degenerates_to_block n p ax"
    then have nd: "scheme_of ax \<noteq> Block" "1 < p" "1 < n" "w \<noteq> n div p"
      using assms(3) by (auto simp: degenerates_to_block_def w_def)
    have "p * (n div p) = n" using assms(3) by auto
    then have "0 < p * (n div p)" using nd(3) by linarith
    then have k0: "0 < n div p" using assms(1) by (simp add: zero_less_mult_iff)
    then have "1 * (n div p) < p * (n div p)" using nd(2) by (intro mult_strict_right_mono)
    with k0 \<open>p * (n div p) = n\<close> have k: "0 < n div p" "n div p < n" by simp_all
    have own: "i \<in> set (axis_own ax n p 0) \<longleftrightarrow> 0 \<le> i \<and> i < n \<and> (i div w) mod p = 0" for i
      using nd(1) by (auto simp: axis_own_def cyclic_own_def w_def)
    have blk: "set (axis_own ax n p 0) = {0..<n div p}"
      using all assms nd(2) by (simp add: set_block_own block_lo_def)
    show False
    proof (cases "w < n div p")
      case True
      then have "(w div w) mod p = 0" using own [of w] blk w by simp
      then show False using w nd(2) by simp
    next
      case False
      then have "(n div p) div w = 0" using nd(4) k by (intro div_pos_pos_trivial) auto
      then show False using own [of "n div p"] blk k by simp
    qed
  qed
qed

theorem degenerates_to_block_exact_witness:
  "degenerates_to_block 6 3 \<lparr>grid_dim = Some 0, scheme_of = Block_cyclic, block_size = 2\<rparr> \<longleftrightarrow>
     (\<forall>c \<in> {0..<3}. axis_own \<lparr>grid_dim = Some 0, scheme_of = Block_cyclic, block_size = 2\<rparr> 6 3 c = block_own 6 3 c)"
  using degenerates_to_block_exact [of 3 6] by simp

text \<open>On an uneven extent the test is one-sided: width 2 over 2 coordinates of 3 elements deals the
  contiguous blocks [0, 1] and [2], and \<^verbatim>\<open>degenerates_to_block\<close> answers False.\<close>

theorem degenerates_to_block_incomplete:
  "\<not> degenerates_to_block 3 2 \<lparr>grid_dim = Some 0, scheme_of = Block_cyclic, block_size = 2\<rparr>
   \<and> map (axis_own \<lparr>grid_dim = Some 0, scheme_of = Block_cyclic, block_size = 2\<rparr> 3 2) [0, 1] =
     map (block_own 3 2) [0, 1]"
  by code_simp

text \<open>An accepted layout is what the ranks materialize: when \<^verbatim>\<open>block_partition_mismatch\<close> finds
  nothing, every split axis of every array of known shape owns, at every coordinate of the grid,
  exactly the contiguous block of \<^verbatim>\<open>block_bounds\<close>.\<close>

theorem block_partition_mismatch_none:
  assumes "block_partition_mismatch d shapes = Inr None"
    and "list_all (\<lambda>e. 0 < e) (dims (d_grid d))"
    and "map_of (d_arrays d) name = Some dist" and "\<not> replicated dist"
    and "map_of shapes name = Some shp" and "length (axes dist) = length shp"
    and "i < length shp" and "grid_dim (axes dist ! i) = Some gd" and "0 \<le> gd" and "gd < int (length (dims (d_grid d)))"
    and "0 \<le> shp ! i" and "coords_of (d_grid d) r = Inr coords"
  shows "\<exists>lo hi. block_bounds (shp ! i) (dims (d_grid d) ! nat gd) (coords ! nat gd) = Inr (lo, hi)
     \<and> owned_indices (shp ! i) (axes dist ! i) (d_grid d) coords = Inr (py_range lo hi)"
proof -
  let ?g = "d_grid d"
  have pos: "positive (dims ?g)" using assms(2) by (simp add: positive_def)
  have gd: "nat gd < length (dims ?g)" using assms(9,10) by auto
  have name: "name \<in> set (sort (keys (d_arrays d)))"
    using assms(3) by (force simp: keys_def dest: map_of_SomeD)
  then have "array_mismatch d shapes name = Inr None"
    using assms(1) by (simp add: block_partition_mismatch_def first_some_None)
  then have "first_some (axis_mismatch d name shp) (enumerate 0 (axes dist)) = Inr None"
    using assms(3-6) by (simp add: array_mismatch_def dict_item_def)
  moreover have "(i, axes dist ! i) \<in> set (enumerate 0 (axes dist))"
    using assms(6,7) by (simp add: in_set_enumerate_eq)
  ultimately have "axis_mismatch d name shp (i, axes dist ! i) = Inr None"
    by (simp add: first_some_None)
  then have deg: "degenerates_to_block (shp ! i) (dims ?g ! nat gd) (axes dist ! i)"
    using assms(7-10)
    by (auto simp: axis_mismatch_def res_simps bindE_Inr_iff split: if_splits)
  have box: "in_box (dims ?g) coords" using assms(12) unravel_in_box [OF pos, of r] by (simp add: coords_of_eq [OF pos])
  note b = in_box_nth [OF box gd] and p = positive_nth [OF pos gd]
  have "owned_indices (shp ! i) (axes dist ! i) ?g coords =
      Inr (axis_own (axes dist ! i) (shp ! i) (dims ?g ! nat gd) (coords ! nat gd))"
    by (subst owned_indices_eq [OF pos]) (use assms(8-10) box in \<open>auto simp: in_box_def list_all2_lengthD\<close>)
  with degenerate_block_own [OF deg p assms(11)] b block_bounds_eq [OF p] show ?thesis
    by (auto simp: block_own_def)
qed

theorem block_partition_mismatch_none_witness:
  "\<exists>lo hi. block_bounds 4 2 1 = Inr (lo, hi) \<and>
     owned_indices 4 \<lparr>grid_dim = Some 0, scheme_of = Block_cyclic, block_size = 2\<rparr> \<lparr>dims = [2]\<rparr> [1] = Inr (py_range lo hi)"
proof -
  let ?d = "\<lparr>d_grid = \<lparr>dims = [2]\<rparr>,
        d_arrays = [(''A'', \<lparr>axes = [\<lparr>grid_dim = Some 0, scheme_of = Block_cyclic, block_size = 2\<rparr>], replicated = False\<rparr>)],
        symbol_axes = [], locations = []\<rparr>"
  have "block_partition_mismatch ?d [(''A'', [4])] = Inr None" by code_simp
  moreover have "coords_of \<lparr>dims = [2]\<rparr> 1 = Inr [1]" by code_simp
  ultimately show ?thesis
    using block_partition_mismatch_none [of ?d "[(''A'', [4])]" "''A''" _ "[4]" 0 0 1 "[1]"] by simp
qed

section \<open>Divisibility and replication\<close>

text \<open>The divisibility rule delivers equal tiles: when \<^verbatim>\<open>layout_divisibility_refusal\<close> finds
  nothing, a cyclic or block-cyclic axis of a flexible array owns the same number of elements at
  every coordinate, for every graded rank count the rule checks.\<close>

theorem layout_divisibility_even:
  assumes "layout_divisibility_refusal d flexible shapes graded = Inr None"
    and "name \<in> set flexible" and "map_of (d_arrays d) name = Some dist" and "\<not> replicated dist"
    and "map_of shapes name = Some shp" and "i < length shp" and "i < length (axes dist)"
    and "grid_dim (axes dist ! i) \<noteq> None" and "scheme_of (axes dist ! i) \<noteq> Block"
    and "p \<in> set graded" and "1 \<le> p" and "p \<le> max_checked_ranks" and "0 \<le> c" and "c < p" and "0 \<le> shp ! i"
  shows "int (length (axis_own (axes dist ! i) (shp ! i) p c)) * p = shp ! i"
proof -
  let ?ax = "axes dist ! i"
  let ?w = "effective_block_size ?ax"
  have "name \<in> set (sort (keys (d_arrays d)))"
    using assms(3) by (force simp: keys_def dest: map_of_SomeD)
  then have "first_some (axis_indivisible name shp graded) (enumerate 0 (axes dist)) = Inr None"
    using bspec [OF iffD1 [OF first_some_None assms(1) [unfolded layout_divisibility_refusal_def]]] assms(2-5)
    by (fastforce simp: dict_item_def)
  moreover have "(i, ?ax) \<in> set (enumerate 0 (axes dist))" using assms(7) by (simp add: in_set_enumerate_eq)
  ultimately have "axis_indivisible name shp graded (i, ?ax) = Inr None" by (simp add: first_some_None)
  moreover have "p \<in> set (checked_ranks graded)" using assms(10-12) by (simp add: checked_ranks_def)
  moreover have "?w * p \<noteq> 0" using assms(11) less_imp_neq [OF effective_block_size_pos [of ?ax]] by simp
  ultimately have dvd: "(shp ! i) mod (?w * p) = 0"
    using assms(6,8,9)
    by (auto simp: axis_indivisible_def Let_def res_simps first_some_None split: if_splits)
  define m where "m = (shp ! i) div (?w * p)"
  have n: "shp ! i = ?w * p * m" using dvd mult_div_mod_eq [of "?w * p" "shp ! i"] by (simp add: m_def)
  have "0 < ?w * p" using assms(11) by simp
  then have "0 \<le> m" using assms(15) by (simp add: m_def pos_imp_zdiv_nonneg_iff)
  have "length (axis_own ?ax (shp ! i) p c) = cyc_count ?w p c (?w * p * int (nat m))"
    using assms(9) n \<open>0 \<le> m\<close> by (simp add: axis_own_def length_cyclic_own)
  also have "\<dots> = nat m * nat ?w"
    using assms(11,13,14) by (intro cyc_count_rounds) simp_all
  finally show ?thesis using n \<open>0 \<le> m\<close> by (simp add: less_imp_le)
qed

theorem layout_divisibility_even_witness:
  "int (length (axis_own \<lparr>grid_dim = Some 0, scheme_of = Block_cyclic, block_size = 4\<rparr> 16 2 1)) * 2 = 16"
proof -
  let ?d = "\<lparr>d_grid = \<lparr>dims = [2]\<rparr>,
        d_arrays = [(''A'', \<lparr>axes = [\<lparr>grid_dim = Some 0, scheme_of = Block_cyclic, block_size = 4\<rparr>], replicated = False\<rparr>)],
        symbol_axes = [], locations = []\<rparr>"
  have "layout_divisibility_refusal ?d [''A''] [(''A'', [16])] [1, 2, 4] = Inr None" by code_simp
  then show ?thesis
    using layout_divisibility_even [of ?d "[''A'']" "[(''A'', [16])]" "[1, 2, 4]" "''A''" _ "[16]" 0 2 1]
    by (simp add: max_checked_ranks_def)
qed

definition held_whole :: "array_dist \<Rightarrow> bool" where
  "held_whole dist \<longleftrightarrow> replicated dist \<or> list_all (\<lambda>ax. grid_dim ax = None) (axes dist)"

definition single_element :: "(string, int list) dict \<Rightarrow> string \<Rightarrow> bool" where
  "single_element shapes name \<longleftrightarrow> (case map_of shapes name of None \<Rightarrow> False | Some shp \<Rightarrow> prod_list shp \<le> 1)"

text \<open>The replication rule: \<^verbatim>\<open>replication_refusal\<close> never fails, and it accepts exactly the
  layouts in which every array held whole on all ranks is on the allow list or has one element.\<close>

theorem replication_refusal_iff:
  assumes "distinct (map fst (d_arrays d))"
  shows "replication_refusal d shapes allowed = Inr None \<longleftrightarrow>
      (\<forall>(name, dist) \<in> set (d_arrays d). held_whole dist \<longrightarrow> name \<in> set allowed \<or> single_element shapes name)"
proof -
  have get: "dict_item KeyError (d_arrays d) (fst e) = Inr (snd e)" if "e \<in> set (d_arrays d)" for e
    using map_of_eq_Some_iff [OF assms, of "fst e" "snd e"] that by (simp add: dict_item_def)
  have "replication_refusal d shapes allowed = Inr None \<longleftrightarrow>
      (\<forall>e \<in> set (d_arrays d). held_whole (snd e) \<longrightarrow> fst e \<in> set allowed \<or> single_element shapes (fst e))"
    by (auto simp: replication_refusal_def first_some_None keys_def get held_whole_def single_element_def
        split: if_splits)
  then show ?thesis by (simp add: split_beta)
qed

theorem replication_refusal_iff_witness:
  "replication_refusal \<lparr>d_grid = \<lparr>dims = [2]\<rparr>, d_arrays = [(''w'', replicated_dist)], symbol_axes = [], locations = []\<rparr>
     [(''w'', [8])] [] \<noteq> Inr None"
  using replication_refusal_iff [of "\<lparr>d_grid = \<lparr>dims = [2]\<rparr>, d_arrays = [(''w'', replicated_dist)],
      symbol_axes = [], locations = []\<rparr>" "[(''w'', [8])]" "[]"]
  by (simp add: held_whole_def single_element_def)

end
