(* ===== verification/Mpi_Wire.thy ===== *)
theory Mpi_Wire
  imports Mpi_Descriptor "HOL-Library.Word"
begin

text \<open>
  The wire format of the MPI drivers (\<open>harness/mpi_wire.py\<close>): the byte layout of the infile the
  harness writes (\<open>pack_infile\<close>) and the drivers read (\<open>unpack_infile\<close>), and of the outfile on the
  way back. A file is a list of bytes; an int64 or float64 slot is eight of them, little-endian. A
  float64 is its bit pattern, an array element the bytes of its type. The interface \<open>fixed_codec\<close>
  states what a reader may rely on for any run of fixed-width slots; the round trips are proved once
  for it.
\<close>

type_synonym byte = "8 word"

section \<open>Fixed-width slots\<close>

text \<open>\<open>np.frombuffer(raw, dtype, count, offset)\<close>: a negative count reads all that is left.\<close>

definition np_frombuffer :: "nat \<Rightarrow> (byte list \<Rightarrow> 'a) \<Rightarrow> byte list \<Rightarrow> int \<Rightarrow> int \<Rightarrow> 'a list res" where
  "np_frombuffer width dec raw count off =
     (if off < 0 \<or> int (length raw) < off
      then Inl (ValueError ''offset must be non-negative and no greater than buffer length'')
      else let rest = drop (nat off) raw; w = int width in
        if count < 0 \<and> (w = 0 \<or> int (length rest) mod w \<noteq> 0)
        then Inl (ValueError ''buffer size must be a multiple of element size'')
        else let n = (if count < 0 then int (length rest) div w else count) in
          if int (length rest) < n * w then Inl (ValueError ''buffer is smaller than requested size'')
          else Inr (map (\<lambda>i. dec (take width (drop (i * width) rest))) [0..<nat n]))"

text \<open>What is left of a file from an offset on.\<close>

definition rest_at :: "byte list \<Rightarrow> int \<Rightarrow> byte list \<Rightarrow> bool" where
  "rest_at raw off rest \<longleftrightarrow> 0 \<le> off \<and> off \<le> int (length raw) \<and> drop (nat off) raw = rest"

lemma rest_at_0 [simp]: "rest_at raw 0 raw"
  by (simp add: rest_at_def)

lemma rest_at_append:
  assumes "rest_at raw off (xs @ ys)" "n = int (length xs)"
  shows "rest_at raw (off + n) ys"
proof -
  have "length xs + length ys = length raw - nat off"
    using assms(1) unfolding rest_at_def by (metis length_append length_drop)
  moreover have "nat (off + n) = length xs + nat off"
    using assms by (simp add: rest_at_def nat_add_distrib add.commute)
  then have "drop (nat (off + n)) raw = drop (length xs) (drop (nat off) raw)" by simp
  then have "drop (nat (off + n)) raw = ys" using assms(1) unfolding rest_at_def by simp
  ultimately show ?thesis using assms by (auto simp: rest_at_def)
qed

text \<open>What the two ends of a file agree on: an encoder of fixed width and the decoder that undoes it
  on the values the encoder accepts.\<close>

locale fixed_codec =
  fixes enc :: "'a \<Rightarrow> byte list" and dec :: "byte list \<Rightarrow> 'a" and width :: nat and ok :: "'a \<Rightarrow> bool"
  assumes length_enc: "ok x \<Longrightarrow> length (enc x) = width"
    and dec_enc: "ok x \<Longrightarrow> dec (enc x) = x"
begin

lemma length_run: "list_all ok xs \<Longrightarrow> length (concat (map enc xs)) = length xs * width"
  by (induction xs) (auto simp: length_enc)

lemma slot_of_run:
  "list_all ok xs \<Longrightarrow> i < length xs \<Longrightarrow>
     dec (take width (drop (i * width) (concat (map enc xs) @ post))) = xs ! i"
proof (induction xs arbitrary: i)
  case (Cons x xs)
  then have x: "length (enc x) = width" "dec (enc x) = x" by (simp_all add: length_enc dec_enc)
  show ?case
  proof (cases i)
    case (Suc j)
    with Cons x show ?thesis by simp
  qed (use x in simp)
qed simp

lemma read_run:
  assumes "rest_at raw off (concat (map enc xs) @ post)" "list_all ok xs" "n = int (length xs)"
  shows "np_frombuffer width dec raw n off = Inr xs" "rest_at raw (off + int width * n) post"
proof -
  have len: "length (drop (nat off) raw) = length xs * width + length post"
    using assms(1) length_run [OF assms(2)] by (simp add: rest_at_def)
  have "map (\<lambda>i. dec (take width (drop (i * width) (concat (map enc xs) @ post)))) [0..<length xs] = xs"
    using slot_of_run [OF assms(2)] by (intro nth_equalityI) simp_all
  with len assms show "np_frombuffer width dec raw n off = Inr xs"
    by (simp add: np_frombuffer_def rest_at_def Let_def length_run del: length_concat flip: of_nat_mult)
  show "rest_at raw (off + int width * n) post"
    by (rule rest_at_append [OF assms(1)]) (simp add: length_run [OF assms(2)] assms(3))
qed

text \<open>A file cut inside the run is refused, never misread.\<close>

lemma read_short:
  assumes "0 \<le> off" "0 \<le> n" "int (length raw) < off + n * int width"
  shows "\<exists>m. np_frombuffer width dec raw n off = Inl (ValueError m)"
  using assms by (auto simp: np_frombuffer_def Let_def)

end

section \<open>64-bit slots\<close>

definition le_bytes :: "64 word \<Rightarrow> byte list" where
  "le_bytes w = map (\<lambda>i. word_of_int (uint w div 256 ^ i)) [0..<8]"

definition of_le_bytes :: "byte list \<Rightarrow> 64 word" where
  "of_le_bytes bs = word_of_int (foldr (\<lambda>b acc. uint b + 256 * acc) bs 0)"

lemma horner_bytes:
  "0 \<le> n \<Longrightarrow> foldr (\<lambda>b acc. uint b + 256 * acc) (map (\<lambda>i. word_of_int (n div 256 ^ i) :: byte) [0..<k]) 0 =
     n mod 256 ^ k"
proof (induction k arbitrary: n)
  case (Suc k)
  have "map (\<lambda>i. word_of_int (n div 256 ^ i) :: byte) [0..<Suc k] =
      word_of_int n # map (\<lambda>i. word_of_int (n div 256 div 256 ^ i)) [0..<k]"
    by (subst upt_conv_Cons) (simp_all add: map_Suc_upt [symmetric] zdiv_zmult2_eq [symmetric] del: upt_Suc)
  moreover have "n mod 256 ^ Suc k = n mod 256 + 256 * (n div 256 mod 256 ^ k)"
    by (simp add: zmod_zmult2_eq)
  ultimately show ?case
    using Suc.IH [of "n div 256"] Suc.prems by (simp add: uint_word_of_int)
qed simp

lemma of_le_bytes_le_bytes [simp]: "of_le_bytes (le_bytes w) = w"
proof -
  have "uint w mod 256 ^ 8 = uint w" using uint_lt2p [of w] by (intro mod_pos_pos_trivial) simp_all
  with horner_bytes [of "uint w" 8] show ?thesis by (simp add: of_le_bytes_def le_bytes_def)
qed

lemma length_le_bytes [simp]: "length (le_bytes w) = 8"
  by (simp add: le_bytes_def)

text \<open>A Python integer in a \<open><i8\<close> slot: out of the int64 range it is an error.\<close>

definition in_int64 :: "int \<Rightarrow> bool" where
  "in_int64 n \<longleftrightarrow> - (2 ^ 63) \<le> n \<and> n < 2 ^ 63"

definition int64_bytes :: "int \<Rightarrow> byte list" where
  "int64_bytes n = le_bytes (word_of_int n)"

definition read_int64 :: "byte list \<Rightarrow> int" where
  "read_int64 bs = sint (of_le_bytes bs)"

interpretation i64c: fixed_codec int64_bytes read_int64 8 in_int64
proof
  fix x assume "in_int64 x"
  then show "read_int64 (int64_bytes x) = x"
    by (simp add: read_int64_def int64_bytes_def in_int64_def sint_sbintrunc' signed_take_bit_int_eq_self)
qed (simp add: int64_bytes_def)

interpretation f64c: fixed_codec le_bytes of_le_bytes 8 "\<lambda>_. True"
  by unfold_locales simp_all

interpretation elemc: fixed_codec "\<lambda>bs. bs" "\<lambda>bs. bs" w "\<lambda>bs. length bs = w" for w
  by unfold_locales simp_all


section \<open>Type codes and scalars\<close>

definition magic_number :: int where
  "magic_number = 0x4F4D5049"

definition wire_version :: int where
  "wire_version = 2"

definition type_codes :: "(string, int) dict" where
  "type_codes = [(''float64'', 0), (''float32'', 1), (''int64'', 2), (''int32'', 3), (''uint8'', 4), (''bfloat16'', 5)]"

definition code_to_dtype :: "(int, string) dict" where
  "code_to_dtype = map (\<lambda>(k, v). (v, k)) type_codes"

definition int_codes :: "int list" where
  "int_codes = [2, 3, 4]"

text \<open>\<open>np.dtype(name).itemsize\<close> of the types above.\<close>

definition itemsize :: "string \<Rightarrow> nat" where
  "itemsize dtype =
     (if dtype = ''float64'' \<or> dtype = ''int64'' then 8
      else if dtype = ''float32'' \<or> dtype = ''int32'' then 4
      else if dtype = ''bfloat16'' then 2 else 1)"

text \<open>A scalar argument is a Python int or float; \<open>float(n)\<close> and \<open>int(x)\<close> are the hardware's
  conversions, a parameter.\<close>

datatype py_scalar = PyInt int | PyFloat "64 word"

record float_conv =
  of_int_value :: "int \<Rightarrow> 64 word res"
  trunc_value :: "64 word \<Rightarrow> int res"

fun as_int :: "float_conv \<Rightarrow> py_scalar \<Rightarrow> int res" where
  "as_int fc (PyInt n) = Inr n"
| "as_int fc (PyFloat w) = trunc_value fc w"

fun as_float :: "float_conv \<Rightarrow> py_scalar \<Rightarrow> 64 word res" where
  "as_float fc (PyInt n) = of_int_value fc n"
| "as_float fc (PyFloat w) = Inr w"

definition i64 :: "int list \<Rightarrow> byte list res" where
  "i64 ns = (if list_all in_int64 ns then Inr (concat (map int64_bytes ns)) else Inl OverflowError)"

definition scalar8 :: "float_conv \<Rightarrow> py_scalar \<Rightarrow> int \<Rightarrow> byte list res" where
  "scalar8 fc v code =
     (if code \<in> set int_codes
      then bindE (as_int fc v) (\<lambda>n. if in_int64 n then Inr (int64_bytes n) else Inl StructError)
      else bindE (as_float fc v) (\<lambda>w. Inr (le_bytes w)))"

definition read_scalar8 :: "byte list \<Rightarrow> int \<Rightarrow> py_scalar res" where
  "read_scalar8 raw code =
     (if length raw < 8 then Inl StructError
      else if code \<in> set int_codes then Inr (PyInt (read_int64 (take 8 raw)))
      else Inr (PyFloat (of_le_bytes (take 8 raw))))"

text \<open>The value a scalar has once it went through its slot.\<close>

definition slot_value :: "float_conv \<Rightarrow> py_scalar \<Rightarrow> int \<Rightarrow> py_scalar res" where
  "slot_value fc v code =
     (if code \<in> set int_codes then bindE (as_int fc v) (\<lambda>n. Inr (PyInt n))
      else bindE (as_float fc v) (\<lambda>w. Inr (PyFloat w)))"

lemma scalar8_slot:
  assumes "scalar8 fc v code = Inr bs"
  shows "length bs = 8" "\<exists>u. slot_value fc v code = Inr u \<and> read_scalar8 (bs @ post) code = Inr u"
  using assms i64c.dec_enc i64c.length_enc
  by (auto simp: scalar8_def slot_value_def read_scalar8_def bindE_Inr_iff split: if_splits)


section \<open>The infile\<close>

text \<open>\<open>np.ascontiguousarray\<close> keeps the elements and gives a 0-dimensional array one axis.\<close>

definition ascontiguous :: "'a ndarray \<Rightarrow> 'a ndarray" where
  "ascontiguous a = (if shape a = [] then a\<lparr>shape := [1]\<rparr> else a)"

definition ptr_tiles ::
    "descriptor \<Rightarrow> (string, string \<times> byte list ndarray) dict \<Rightarrow> arg \<Rightarrow> byte list ndarray list res" where
  "ptr_tiles d data a =
     (if map_of type_codes (arg_dtype a) = None
      then Inl (ValueError ''dtype is not wire-serialisable'')
      else bindE (dict_item KeyError data (arg_name a)) (\<lambda>(dtype, src).
        if dtype \<noteq> arg_dtype a then Inl (ValueError ''refusing to silently cast the scattered payload'')
        else bindE (d_scatter d (arg_name a) (ascontiguous src)) (\<lambda>tiles.
          Inr (map ascontiguous tiles))))"

text \<open>\<open>local_size_scalars\<close> on scalars of which the size symbols are integers: it rewrites only those.\<close>

definition int_part :: "(string, py_scalar) dict \<Rightarrow> (string, int) dict" where
  "int_part scal = concat (map (\<lambda>(k, v). case v of PyInt n \<Rightarrow> [(k, n)] | PyFloat w \<Rightarrow> []) scal)"

definition local_scalars :: "descriptor \<Rightarrow> (string, py_scalar) dict \<Rightarrow> int \<Rightarrow> (string, py_scalar) dict res" where
  "local_scalars d scal rank =
     bindE (local_size_scalars d (int_part scal) rank) (\<lambda>ints.
       Inr (map (\<lambda>(k, v). (k, case map_of ints k of None \<Rightarrow> v | Some n \<Rightarrow> PyInt n)) scal))"

definition code_of :: "arg \<Rightarrow> int res" where
  "code_of a = dict_item KeyError type_codes (arg_dtype a)"

definition is_output :: "arg \<Rightarrow> bool" where
  "is_output a \<longleftrightarrow> arg_role a = Some ''output''"

definition tile_rank :: "'a ndarray \<Rightarrow> int" where
  "tile_rank t = int (length (shape t))"

definition widest :: "'a ndarray list \<Rightarrow> int" where
  "widest tiles = foldl max 1 (map tile_rank tiles)"

definition ptr_meta :: "arg \<Rightarrow> byte list res" where
  "ptr_meta a = bindE (code_of a) (\<lambda>c. i64 [int (itemsize (arg_dtype a)), of_bool (is_output a), c])"

definition tile_meta :: "int \<Rightarrow> 'a ndarray \<Rightarrow> byte list res" where
  "tile_meta max_ndim t =
     i64 (int (length (elems t)) # tile_rank t # shape t @ replicate (nat (max_ndim - tile_rank t)) 0)"

definition scalar_row :: "float_conv \<Rightarrow> arg list \<Rightarrow> (string, py_scalar) dict \<Rightarrow> byte list res" where
  "scalar_row fc scal l =
     bindE (traverseE (\<lambda>a. bindE (dict_item KeyError l (arg_name a)) (\<lambda>v.
       bindE (code_of a) (scalar8 fc v))) scal) (\<lambda>slots. Inr (concat slots))"

definition tobytes :: "byte list ndarray \<Rightarrow> byte list" where
  "tobytes t = concat (elems t)"

definition pack_infile ::
    "float_conv \<Rightarrow> ((string, py_scalar) dict \<Rightarrow> int res) \<Rightarrow> binding \<Rightarrow> descriptor \<Rightarrow>
     (string, string \<times> byte list ndarray) dict \<Rightarrow> (string, py_scalar) dict \<Rightarrow> int \<Rightarrow> byte list res" where
  "pack_infile fc workspace b d data scal k_repeats =
     (let ptrs = pointers b; scalar_args = scalars b; nr = nranks (d_grid d);
          n_out = int (length (filter is_output ptrs)) in
      bindE (traverseE (ptr_tiles d data) ptrs) (\<lambda>tiles.
      let max_ndim = widest (concat tiles) in
      bindE (traverseE (local_scalars d scal) (py_range 0 nr)) (\<lambda>locals.
      bindE (traverseE workspace locals) (\<lambda>ws_bytes.
      bindE (i64 [magic_number, wire_version, nr, k_repeats, int (length ptrs), n_out,
                  int (length scalar_args), max_ndim]) (\<lambda>header.
      bindE (bindE (traverseE code_of scalar_args) i64) (\<lambda>codes.
      bindE (traverseE (scalar_row fc scalar_args) locals) (\<lambda>rows.
      bindE (i64 ws_bytes) (\<lambda>ws.
      bindE (traverseE ptr_meta ptrs) (\<lambda>metas.
      bindE (traverseE (tile_meta max_ndim) (concat tiles)) (\<lambda>tile_metas.
      Inr (header @ codes @ concat rows @ ws @ concat metas @ concat tile_metas @
           concat (map tobytes (concat tiles)))))))))))))"

record ptr_plan =
  p_name :: string
  p_dtype :: string
  p_output :: bool
  p_counts :: "int list"
  p_shapes :: "int list list"
  p_tiles :: "byte list ndarray list"

record parsed_infile =
  f_nranks :: int
  f_repeats :: int
  f_ptrs :: "ptr_plan list"
  f_scalars :: "py_scalar list list"
  f_workspace :: "int list"

text \<open>\<open>reshape\<close>: one extent may be -1, inferred from the others; the number of elements must fit.\<close>

definition np_reshape :: "'a list \<Rightarrow> int list \<Rightarrow> 'a ndarray res" where
  "np_reshape xs shp =
     (let n = int (length xs); known = prod_list (filter (\<lambda>e. e \<noteq> - 1) shp) in
      if list_ex (\<lambda>e. e < - 1) shp \<or> 1 < length (filter (\<lambda>e. e = - 1) shp)
      then Inl (ValueError ''can only specify one unknown dimension'')
      else if - 1 \<in> set shp
      then (if known = 0 \<or> n mod known \<noteq> 0 then Inl (ValueError ''cannot reshape'')
            else Inr \<lparr>shape = map (\<lambda>e. if e = - 1 then n div known else e) shp, elems = xs\<rparr>)
      else if known = n then Inr \<lparr>shape = shp, elems = xs\<rparr> else Inl (ValueError ''cannot reshape''))"

text \<open>\<open>xs[lo:hi]\<close>: negative ends count from the back, ends outside are clipped.\<close>

definition slice_end :: "nat \<Rightarrow> int \<Rightarrow> nat" where
  "slice_end n i = nat (min (int n) (if i < 0 then max 0 (int n + i) else i))"

definition py_slice :: "'a list \<Rightarrow> int \<Rightarrow> int \<Rightarrow> 'a list" where
  "py_slice xs lo hi =
     (let l = slice_end (length xs) lo; h = slice_end (length xs) hi in take (h - l) (drop l xs))"

text \<open>One tile of \<open>unpack_infile\<close>'s inner loop: the offset moves by the element size of the file.\<close>

type_synonym tile_state = "int list \<times> int list list \<times> byte list ndarray list \<times> int"

definition read_tile ::
    "byte list \<Rightarrow> int list \<Rightarrow> int \<Rightarrow> int \<Rightarrow> int \<Rightarrow> string \<Rightarrow> int \<Rightarrow> tile_state \<Rightarrow> int \<Rightarrow> tile_state res" where
  "read_tile raw tmeta stride nr elem_size dtype i st r =
     (let (counts, shapes, tiles, off) = st;
          row = take (nat stride) (drop (nat ((i * nr + r) * stride)) tmeta) in
      bindE (py_get row 0) (\<lambda>count.
      bindE (py_get row 1) (\<lambda>ndim.
      let shp = py_slice row 2 (2 + ndim) in
      bindE (np_frombuffer (itemsize dtype) (\<lambda>bs. bs) raw count off) (\<lambda>flat.
      bindE (np_reshape flat shp) (\<lambda>tile.
        Inr (counts @ [count], shapes @ [shp], tiles @ [tile], off + count * elem_size))))))"

definition read_ptr ::
    "byte list \<Rightarrow> int list \<Rightarrow> int list \<Rightarrow> int \<Rightarrow> int \<Rightarrow> ptr_plan list \<times> int \<Rightarrow> int \<Rightarrow> (ptr_plan list \<times> int) res" where
  "read_ptr raw metas tmeta stride nr st i =
     (let (ptrs, off) = st; elem_size = metas ! nat (3 * i); out = metas ! nat (3 * i + 1) in
      bindE (dict_item (\<lambda>c. KeyError ''type code'') code_to_dtype (metas ! nat (3 * i + 2))) (\<lambda>dtype.
      bindE (foldE (read_tile raw tmeta stride nr elem_size dtype i) ([], [], [], off) (py_range 0 nr))
        (\<lambda>(counts, shapes, tiles, off).
          Inr (ptrs @ [\<lparr>p_name = ''ptr'' @ decimal (nat i), p_dtype = dtype, p_output = (out \<noteq> 0),
                        p_counts = counts, p_shapes = shapes, p_tiles = tiles\<rparr>], off))))"

text \<open>One row of scalars.\<close>

definition read_row ::
    "byte list \<Rightarrow> int list \<Rightarrow> py_scalar list list \<times> int \<Rightarrow> int \<Rightarrow> (py_scalar list list \<times> int) res" where
  "read_row raw codes st r =
     (let (rows, off) = st in
      bindE (traverseE (\<lambda>(s, c). read_scalar8 (drop (nat (off + 8 * int s)) raw) c) (enumerate 0 codes)) (\<lambda>row.
        Inr (rows @ [row], off + 8 * int (length codes))))"

text \<open>\<open>reshape\<close> of a flat header table: only its check matters, entries are read at their flat index.\<close>

definition table :: "int list \<Rightarrow> int list \<Rightarrow> int list res" where
  "table xs shp = bindE (np_reshape xs shp) (\<lambda>a. Inr (elems a))"

definition unpack_infile :: "byte list \<Rightarrow> parsed_infile res" where
  "unpack_infile raw =
     bindE (np_frombuffer 8 read_int64 raw 8 0) (\<lambda>h.
     if h ! 0 \<noteq> magic_number \<or> h ! 1 \<noteq> wire_version then Inl (ValueError ''bad MPI infile'')
     else let nr = h ! 2; k_repeats = h ! 3; n_ptr = h ! 4; n_scalar = h ! 6; max_ndim = h ! 7; off = 8 * 8 in
     bindE (np_frombuffer 8 read_int64 raw n_scalar off) (\<lambda>codes.
     let off = off + 8 * n_scalar in
     bindE (if n_scalar < 0 then Inr (replicate (nat nr) [], off + 8 * n_scalar * max 0 nr)
            else foldE (read_row raw codes) ([], off) (py_range 0 nr)) (\<lambda>(rows, off).
     bindE (np_frombuffer 8 read_int64 raw nr off) (\<lambda>ws.
     let off = off + 8 * nr in
     bindE (bindE (np_frombuffer 8 read_int64 raw (3 * n_ptr) off) (\<lambda>m. table m [n_ptr, 3])) (\<lambda>metas.
     let off = off + 8 * 3 * n_ptr; stride = 2 + max_ndim in
     bindE (bindE (np_frombuffer 8 read_int64 raw (stride * n_ptr * nr) off) (\<lambda>m. table m [n_ptr, nr, stride])) (\<lambda>tmeta.
     let off = off + 8 * stride * n_ptr * nr in
     bindE (foldE (read_ptr raw metas tmeta stride nr) ([], off) (py_range 0 n_ptr)) (\<lambda>(ptrs, off).
     Inr \<lparr>f_nranks = nr, f_repeats = k_repeats, f_ptrs = ptrs, f_scalars = rows, f_workspace = ws\<rparr>)))))))"


section \<open>Tiles fit their array\<close>

text \<open>An array of a type: its elements have that type's width.\<close>

definition typed_array :: "string \<Rightarrow> byte list ndarray \<Rightarrow> bool" where
  "typed_array dtype a \<longleftrightarrow> wf_array a \<and> list_all (\<lambda>e. length e = itemsize dtype) (elems a)"

lemma wf_array_elems: "wf_array a \<Longrightarrow> in_box (shape a) ix \<Longrightarrow> elem a ix \<in> set (elems a)"
  by (subst wf_array_nth_box [of a, symmetric]) (auto simp: set_box_indices)

lemma np_indexD: "np_index n i = Inr j \<Longrightarrow> 0 \<le> j \<and> j < n"
  by (auto simp: np_index_def split: if_splits)

lemma np_ixD:
  assumes "np_ix shp ls = Inr ls'"
  shows "length ls' = length shp" "\<And>d. d < length shp \<Longrightarrow> set (ls' ! d) \<subseteq> {0..<shp ! d}"
proof -
  from assms have len: "length ls = length shp" and
    t: "traverseE (\<lambda>(n, l). traverseE (np_index n) l) (zip shp ls) = Inr ls'"
    by (auto simp: np_ix_def split: if_splits)
  from traverseE_InrD [OF t] len show "length ls' = length shp" by simp
  fix d assume "d < length shp"
  with traverseE_InrD [OF t] len have "traverseE (np_index (shp ! d)) (ls ! d) = Inr (ls' ! d)" by simp
  from traverseE_InrD [OF this] show "set (ls' ! d) \<subseteq> {0..<shp ! d}"
    by (auto simp: in_set_conv_nth dest!: np_indexD)
qed

lemma typed_np_ix_get:
  assumes "typed_array dtype a" "np_ix_get a ls = Inr t"
  shows "typed_array dtype t"
proof -
  from assms(2) obtain ls' where ix: "np_ix (shape a) ls = Inr ls'"
    and t: "t = \<lparr>shape = map (\<lambda>l. int (length l)) ls', elems = map (elem a) (product_lists ls')\<rparr>"
    by (auto simp: np_ix_get_def bindE_Inr_iff)
  have "elem a ix \<in> set (elems a)" if "ix \<in> set (product_lists ls')" for ix
    by (rule wf_array_elems [OF _ in_box_product_lists [OF np_ixD [OF ix] that]])
      (use assms(1) in \<open>simp add: typed_array_def\<close>)
  then show ?thesis
    using assms(1)
    by (auto simp: typed_array_def wf_array_def t list_all_iff length_product_lists_prod int_prod_list)
qed

lemma typed_scatter:
  assumes "typed_array dtype a" "scatter a dist g = Inr tiles"
  shows "length tiles = nat (nranks g)" "t \<in> set tiles \<Longrightarrow> typed_array dtype t"
proof -
  have "length tiles = nat (nranks g) \<and> (\<forall>t \<in> set tiles. typed_array dtype t)"
  proof (cases "replicated dist")
    case False
    with assms(2) have t: "traverseE (\<lambda>rank. bindE (coords_of g rank) (\<lambda>coords.
             bindE (axis_index_lists (shape a) dist g coords) (\<lambda>ls. np_ix_get a ls)))
           (py_range 0 (nranks g)) = Inr tiles" by (simp add: scatter_def)
    have len: "length tiles = nat (nranks g)" using traverseE_InrD [OF t] by simp
    have "typed_array dtype (tiles ! i)" if "i < length tiles" for i
    proof -
      from traverseE_InrD [OF t] that len obtain ls where "np_ix_get a ls = Inr (tiles ! i)"
        by (auto simp: bindE_Inr_iff)
      then show ?thesis by (rule typed_np_ix_get [OF assms(1)])
    qed
    with len show ?thesis by (auto simp: in_set_conv_nth)
  qed (use assms in \<open>auto simp: scatter_def\<close>)
  then show "length tiles = nat (nranks g)" "t \<in> set tiles \<Longrightarrow> typed_array dtype t" by simp_all
qed

lemma typed_ascontiguous [simp]: "typed_array dtype (ascontiguous a) \<longleftrightarrow> typed_array dtype a"
  by (auto simp: typed_array_def wf_array_def ascontiguous_def)

lemma ptr_tilesD:
  assumes "ptr_tiles d data a = Inr tiles"
    and "\<forall>(name, dtype, src) \<in> set data. typed_array dtype src"
  shows "length tiles = nat (nranks (d_grid d))" "\<forall>t \<in> set tiles. typed_array (arg_dtype a) t"
    and "\<exists>src. map_of data (arg_name a) = Some (arg_dtype a, src) \<and>
           bindE (d_scatter d (arg_name a) (ascontiguous src)) (\<lambda>ts. Inr (map ascontiguous ts)) = Inr tiles"
    and "\<exists>c. map_of type_codes (arg_dtype a) = Some c"
proof -
  from assms(1) obtain src ts where s: "map_of data (arg_name a) = Some (arg_dtype a, src)"
    "d_scatter d (arg_name a) (ascontiguous src) = Inr ts" "tiles = map ascontiguous ts"
    "map_of type_codes (arg_dtype a) \<noteq> None"
    by (auto simp: ptr_tiles_def bindE_Inr_iff dict_item_def split: if_splits option.splits)
  from s(1) assms(2) have ty: "typed_array (arg_dtype a) (ascontiguous src)" by (auto dest: map_of_SomeD)
  from s(2) obtain dist where "scatter (ascontiguous src) dist (d_grid d) = Inr ts"
    by (auto simp: d_scatter_def bindE_Inr_iff)
  from typed_scatter [OF ty this] s(3) show
    "length tiles = nat (nranks (d_grid d))" "\<forall>t \<in> set tiles. typed_array (arg_dtype a) t" by auto
  show "\<exists>src. map_of data (arg_name a) = Some (arg_dtype a, src) \<and>
           bindE (d_scatter d (arg_name a) (ascontiguous src)) (\<lambda>ts. Inr (map ascontiguous ts)) = Inr tiles"
    using s by auto
  show "\<exists>c. map_of type_codes (arg_dtype a) = Some c" using s(4) by simp
qed


section \<open>Reading back what was packed\<close>

lemma i64_InrD:
  assumes "i64 ns = Inr bs"
  shows "bs = concat (map int64_bytes ns)" "list_all in_int64 ns"
  using assms by (auto simp: i64_def split: if_splits)

lemma traverse_i64:
  assumes "traverseE f xs = Inr bss" "\<And>x bs. x \<in> set xs \<Longrightarrow> f x = Inr bs \<Longrightarrow> i64 (g x) = Inr bs"
  shows "concat bss = concat (map int64_bytes (concat (map g xs)))" "list_all in_int64 (concat (map g xs))"
proof -
  have "concat bss = concat (map int64_bytes (concat (map g xs))) \<and> list_all in_int64 (concat (map g xs))"
    using assms
  proof (induction xs arbitrary: bss)
    case (Cons x xs)
    from Cons.prems(1) obtain b bs where b: "f x = Inr b" "traverseE f xs = Inr bs" "bss = b # bs"
      by (auto simp: bindE_Inr_iff)
    from Cons.prems(2) [OF _ b(1)] have "i64 (g x) = Inr b" by simp
    with i64_InrD [OF this] Cons.IH [OF b(2) Cons.prems(2)] b(3) show ?case by simp
  qed simp
  then show "concat bss = concat (map int64_bytes (concat (map g xs)))" "list_all in_int64 (concat (map g xs))"
    by simp_all
qed

text \<open>Entries of a table of rows of one width.\<close>

lemma row_of_concat:
  "\<forall>r \<in> set rows. length r = w \<Longrightarrow> k < length rows \<Longrightarrow> take w (drop (k * w) (concat rows)) = rows ! k"
proof (induction rows arbitrary: k)
  case (Cons r rows)
  then show ?case by (cases k) auto
qed simp

lemma nth_concat_rows:
  "\<forall>r \<in> set rows. length r = w \<Longrightarrow> k < length rows \<Longrightarrow> j < w \<Longrightarrow> concat rows ! (k * w + j) = rows ! k ! j"
proof (induction rows arbitrary: k)
  case (Cons r rows)
  then show ?case by (cases k) (auto simp: nth_append)
qed simp

lemma length_concat_rows: "\<forall>r \<in> set rows. length r = w \<Longrightarrow> length (concat rows) = length rows * w"
  by (induction rows) auto

text \<open>The scalar rows.\<close>

definition sent_row :: "float_conv \<Rightarrow> arg list \<Rightarrow> (string, py_scalar) dict \<Rightarrow> py_scalar list res" where
  "sent_row fc scal l =
     traverseE (\<lambda>a. bindE (dict_item KeyError l (arg_name a)) (\<lambda>v. bindE (code_of a) (slot_value fc v))) scal"

lemma scalar_slots_read:
  assumes "traverseE (\<lambda>a. bindE (dict_item KeyError l (arg_name a)) (\<lambda>v. bindE (code_of a) (scalar8 fc v))) scal = Inr slots"
    and "traverseE code_of scal = Inr codes"
    and "rest_at raw off (concat slots @ post)"
  shows "length (concat slots) = 8 * length codes"
    and "\<exists>us. sent_row fc scal l = Inr us \<and>
      traverseE (\<lambda>(s, c). read_scalar8 (drop (nat (off + 8 * (int s - int k))) raw) c) (enumerate k codes) = Inr us"
proof -
  have "length (concat slots) = 8 * length codes \<and> (\<exists>us. sent_row fc scal l = Inr us \<and>
      traverseE (\<lambda>(s, c). read_scalar8 (drop (nat (off + 8 * (int s - int k))) raw) c) (enumerate k codes) = Inr us)"
    using assms
  proof (induction scal arbitrary: slots codes off k)
    case (Cons a scal)
    from Cons.prems(1,2) obtain v c bs slots' codes' where
      v: "dict_item KeyError l (arg_name a) = Inr v" "code_of a = Inr c" "scalar8 fc v c = Inr bs"
      and t: "traverseE (\<lambda>a. bindE (dict_item KeyError l (arg_name a)) (\<lambda>v. bindE (code_of a) (scalar8 fc v))) scal = Inr slots'"
        "traverseE code_of scal = Inr codes'"
      and [simp]: "slots = bs # slots'" "codes = c # codes'"
      by (auto simp: bindE_Inr_iff)
    have len: "length bs = 8" by (rule scalar8_slot(1) [OF v(3)])
    have "rest_at raw (off + 8) (concat slots' @ post)"
      by (rule rest_at_append [of raw off bs]) (use Cons.prems(3) len in simp_all)
    from Cons.IH [OF t this, of "Suc k"] obtain us where
      IH: "length (concat slots') = 8 * length codes'" "sent_row fc scal l = Inr us"
      "traverseE (\<lambda>(s, c). read_scalar8 (drop (nat (off + 8 + 8 * (int s - int (Suc k)))) raw) c) (enumerate (Suc k) codes') = Inr us"
      by blast
    have "off + 8 + 8 * (int s - int (Suc k)) = off + 8 * (int s - int k)" for s by simp
    with IH(3) have rest: "traverseE (\<lambda>(s, c). read_scalar8 (drop (nat (off + 8 * (int s - int k))) raw) c)
        (enumerate (Suc k) codes') = Inr us" by simp
    from scalar8_slot(2) [OF v(3), of "concat slots' @ post"] obtain u where
      u: "slot_value fc v c = Inr u" "read_scalar8 (bs @ concat slots' @ post) c = Inr u" by blast
    moreover have "drop (nat off) raw = bs @ concat slots' @ post"
      using Cons.prems(3) by (simp add: rest_at_def)
    ultimately have "sent_row fc (a # scal) l = Inr (u # us)"
      and "traverseE (\<lambda>(s, c). read_scalar8 (drop (nat (off + 8 * (int s - int k))) raw) c) (enumerate k codes) = Inr (u # us)"
      using v IH(2) rest by (simp_all add: sent_row_def)
    with len IH(1) show ?case by simp
  qed (simp add: sent_row_def)
  then show "length (concat slots) = 8 * length codes"
    and "\<exists>us. sent_row fc scal l = Inr us \<and>
      traverseE (\<lambda>(s, c). read_scalar8 (drop (nat (off + 8 * (int s - int k))) raw) c) (enumerate k codes) = Inr us"
    by auto
qed

lemma rows_read:
  assumes "traverseE (scalar_row fc scal) locals = Inr rows" "traverseE code_of scal = Inr codes"
    and "rest_at raw off (concat rows @ post)" "length rs = length locals"
  shows "\<exists>vals. traverseE (sent_row fc scal) locals = Inr vals \<and>
     foldE (read_row raw codes) (acc, off) rs = Inr (acc @ vals, off + 8 * int (length codes) * int (length locals)) \<and>
     rest_at raw (off + 8 * int (length codes) * int (length locals)) post"
  using assms
proof (induction locals arbitrary: rows off acc rs)
  case (Cons l locals)
  from Cons.prems(1) obtain slots rows' where
    s: "traverseE (\<lambda>a. bindE (dict_item KeyError l (arg_name a)) (\<lambda>v. bindE (code_of a) (scalar8 fc v))) scal = Inr slots"
    "traverseE (scalar_row fc scal) locals = Inr rows'" and [simp]: "rows = concat slots # rows'"
    by (auto simp: bindE_Inr_iff scalar_row_def [of fc scal l])
  from Cons.prems(4) obtain r rs' where [simp]: "rs = r # rs'" "length rs' = length locals" by (cases rs) auto
  have at: "rest_at raw off (concat slots @ concat rows' @ post)" using Cons.prems(3) by simp
  note len = scalar_slots_read(1) [OF s(1) Cons.prems(2) at]
  from scalar_slots_read(2) [OF s(1) Cons.prems(2) at, of 0] obtain us where
    us: "sent_row fc scal l = Inr us"
    "traverseE (\<lambda>(s, c). read_scalar8 (drop (nat (off + 8 * int s)) raw) c) (enumerate 0 codes) = Inr us"
    by auto
  have "rest_at raw (off + 8 * int (length codes)) (concat rows' @ post)"
    by (rule rest_at_append [OF at]) (simp add: len del: length_concat)
  from Cons.IH [OF s(2) Cons.prems(2) this, of rs' "acc @ [us]"] us show ?case
    by (auto simp: read_row_def algebra_simps)
qed auto


text \<open>The tiles.\<close>

definition tile_size :: "'a ndarray \<Rightarrow> int" where
  "tile_size t = int (length (elems t))"

definition tile_row :: "int \<Rightarrow> 'a ndarray \<Rightarrow> int list" where
  "tile_row m t = tile_size t # tile_rank t # shape t @ replicate (nat (m - tile_rank t)) 0"

lemma length_tile_row: "tile_rank t \<le> m \<Longrightarrow> length (tile_row m t) = nat (2 + m)"
  by (auto simp: tile_row_def tile_rank_def)

lemma tile_row_shape: "py_slice (tile_row m t) 2 (2 + tile_rank t) = shape t"
  by (cases "shape t") (auto simp: py_slice_def slice_end_def tile_row_def tile_rank_def min_def nat_add_distrib)

lemma reshape_same:
  "list_all (\<lambda>n. 0 \<le> n) shp \<Longrightarrow> int (length xs) = prod_list shp \<Longrightarrow> np_reshape xs shp = Inr \<lparr>shape = shp, elems = xs\<rparr>"
proof -
  assume s: "list_all (\<lambda>n. 0 \<le> n) shp" "int (length xs) = prod_list shp"
  then have f: "filter (\<lambda>e. e \<noteq> - 1) shp = shp" "filter (\<lambda>e. e = - 1) shp = []" "- 1 \<notin> set shp"
    "\<not> list_ex (\<lambda>e. e < - 1) shp"
    by (auto simp: list_all_iff list_ex_iff filter_empty_conv filter_id_conv)
  show ?thesis using s(2) by (simp add: np_reshape_def f Let_def)
qed

lemma read_tile_ok:
  assumes "\<forall>t \<in> set ts. tile_rank t \<le> m" "0 \<le> m" "k < length ts" "i * nr + r = int k"
    and "typed_array dtype (ts ! k)" "rest_at raw off (tobytes (ts ! k) @ post)"
  shows "read_tile raw (concat (map (tile_row m) ts)) (2 + m) nr (int (itemsize dtype)) dtype i (cs, ss, us, off) r =
      Inr (cs @ [tile_size (ts ! k)], ss @ [shape (ts ! k)], us @ [ts ! k], off + tile_size (ts ! k) * int (itemsize dtype))"
    and "rest_at raw (off + tile_size (ts ! k) * int (itemsize dtype)) post"
proof -
  let ?t = "ts ! k"
  have row: "take (nat (2 + m)) (drop (nat ((i * nr + r) * (2 + m))) (concat (map (tile_row m) ts))) = tile_row m ?t"
    using row_of_concat [of "map (tile_row m) ts" "nat (2 + m)" k] assms(1-4)
    by (auto simp: length_tile_row nat_mult_distrib)
  have get: "py_get (tile_row m ?t) 0 = Inr (tile_size ?t)" "py_get (tile_row m ?t) 1 = Inr (tile_rank ?t)"
    by (simp_all add: py_get_def tile_row_def)
  have "rest_at raw off (concat (map (\<lambda>bs. bs) (elems ?t)) @ post)"
    using assms(6) by (simp add: tobytes_def)
  note run = elemc.read_run [OF this, of "itemsize dtype" "tile_size ?t"]
  have ok: "list_all (\<lambda>bs. length bs = itemsize dtype) (elems ?t)" "wf_array ?t"
    using assms(5) by (simp_all add: typed_array_def)
  then have "np_reshape (elems ?t) (shape ?t) = Inr ?t"
    by (subst reshape_same) (simp_all add: wf_array_def)
  with run ok show
    "read_tile raw (concat (map (tile_row m) ts)) (2 + m) nr (int (itemsize dtype)) dtype i (cs, ss, us, off) r =
      Inr (cs @ [tile_size ?t], ss @ [shape ?t], us @ [?t], off + tile_size ?t * int (itemsize dtype))"
    "rest_at raw (off + tile_size ?t * int (itemsize dtype)) post"
    by (simp_all add: read_tile_def Let_def row get tile_row_shape tile_size_def mult.commute)
qed

definition tiles_bytes :: "string \<Rightarrow> 'a ndarray list \<Rightarrow> int" where
  "tiles_bytes dtype us = sum_list (map (\<lambda>t. tile_size t * int (itemsize dtype)) us)"

lemma read_tiles_ok:
  assumes "\<forall>t \<in> set ts. tile_rank t \<le> m" "0 \<le> m" "i * nr + int r = int k"
    and "take (length us) (drop k ts) = us" "\<forall>t \<in> set us. typed_array dtype t"
    and "rest_at raw off (concat (map tobytes us) @ post)"
  shows "foldE (read_tile raw (concat (map (tile_row m) ts)) (2 + m) nr (int (itemsize dtype)) dtype i)
        (cs, ss, vs, off) (map int [r..<r + length us]) =
      Inr (cs @ map tile_size us, ss @ map shape us, vs @ us, off + tiles_bytes dtype us)
    \<and> rest_at raw (off + tiles_bytes dtype us) post"
  using assms(3-6)
proof (induction us arbitrary: r k cs ss vs off)
  case (Cons u us)
  have k: "k < length ts" "ts ! k = u" "take (length us) (drop (Suc k) ts) = us"
    using Cons.prems(2) by (cases "k < length ts"; auto simp: Cons_nth_drop_Suc [symmetric])+
  have at: "rest_at raw off (tobytes (ts ! k) @ concat (map tobytes us) @ post)"
    using Cons.prems(4) k by simp
  note one = read_tile_ok [OF assms(1,2) k(1) Cons.prems(1) _ at, of dtype]
  have ty: "typed_array dtype (ts ! k)" using Cons.prems(3) k by simp
  have "map int [r..<r + length (u # us)] = int r # map int [Suc r..<Suc r + length us]"
    by (subst upt_conv_Cons) simp_all
  moreover have "i * nr + int (Suc r) = int (Suc k)" using Cons.prems(1) by simp
  note Cons.IH [OF this k(3) _ one(2) [OF ty], of "cs @ [tile_size u]" "ss @ [shape u]" "vs @ [u]"]
  ultimately show ?case
    using one(1) [OF ty] Cons.prems(3) k(2) by (simp add: tiles_bytes_def add.assoc)
qed (simp add: tiles_bytes_def)


definition meta_row :: "arg \<Rightarrow> int list" where
  "meta_row a = [int (itemsize (arg_dtype a)), of_bool (is_output a), the (map_of type_codes (arg_dtype a))]"

definition plan_of :: "nat \<Rightarrow> arg \<Rightarrow> byte list ndarray list \<Rightarrow> ptr_plan" where
  "plan_of i a us =
     \<lparr>p_name = ''ptr'' @ decimal i, p_dtype = arg_dtype a, p_output = is_output a,
      p_counts = map tile_size us, p_shapes = map shape us, p_tiles = us\<rparr>"

lemma code_to_dtype: "map_of type_codes dtype = Some c \<Longrightarrow> map_of code_to_dtype c = Some dtype"
  by (auto simp: type_codes_def code_to_dtype_def split: if_splits)

lemma read_ptr_ok:
  assumes "\<forall>t \<in> set ts. tile_rank t \<le> m" "0 \<le> m"
    and "i < length ptrs" "map_of type_codes (arg_dtype (ptrs ! i)) = Some c"
    and "take (length us) (drop (i * length us) ts) = us" "\<forall>t \<in> set us. typed_array (arg_dtype (ptrs ! i)) t"
    and "rest_at raw off (concat (map tobytes us) @ post)"
  shows "read_ptr raw (concat (map meta_row ptrs)) (concat (map (tile_row m) ts)) (2 + m) (int (length us)) (acc, off) (int i) =
      Inr (acc @ [plan_of i (ptrs ! i) us], off + tiles_bytes (arg_dtype (ptrs ! i)) us)
    \<and> rest_at raw (off + tiles_bytes (arg_dtype (ptrs ! i)) us) post"
proof -
  let ?a = "ptrs ! i"
  have row: "concat (map meta_row ptrs) ! (i * 3 + j) = meta_row ?a ! j" if "j < 3" for j
    using nth_concat_rows [of "map meta_row ptrs" 3 i j] assms(3) that by (simp add: meta_row_def)
  have "nat (3 * int i) = i * 3 + 0" "nat (3 * int i + 1) = i * 3 + 1" "nat (3 * int i + 2) = i * 3 + 2"
    by (simp_all add: nat_mult_distrib nat_add_distrib)
  then have metas: "concat (map meta_row ptrs) ! nat (3 * int i) = int (itemsize (arg_dtype ?a))"
    "concat (map meta_row ptrs) ! nat (3 * int i + 1) = of_bool (is_output ?a)"
    "concat (map meta_row ptrs) ! nat (3 * int i + 2) = c"
    using row [of 0] row [of 1] row [of 2] assms(4) by (simp_all add: meta_row_def)
  have "py_range 0 (int (length us)) = map int [0..<0 + length us]"
    by (intro nth_equalityI) simp_all
  moreover have "int i * int (length us) + int 0 = int (i * length us)" by simp
  note read_tiles_ok [OF assms(1,2) this assms(5-7), of "[]" "[]" "[]"]
  ultimately show ?thesis
    by (simp add: read_ptr_def metas dict_item_def code_to_dtype [OF assms(4)] plan_of_def)
qed

lemma read_ptrs_ok:
  assumes "\<forall>t \<in> set (concat tiles). tile_rank t \<le> m" "0 \<le> m"
    and "\<forall>us \<in> set tiles. length us = nr" "length tiles = length ptrs"
    and "\<forall>i < length ptrs. map_of type_codes (arg_dtype (ptrs ! i)) \<noteq> None \<and>
           (\<forall>t \<in> set (tiles ! i). typed_array (arg_dtype (ptrs ! i)) t)"
    and "i \<le> length ptrs" "rest_at raw off (concat (map tobytes (concat (drop i tiles))) @ post)"
  shows "\<exists>off'. foldE (read_ptr raw (concat (map meta_row ptrs)) (concat (map (tile_row m) (concat tiles))) (2 + m) (int nr))
        (acc, off) (map int [i..<length ptrs]) =
      Inr (acc @ map (\<lambda>i. plan_of i (ptrs ! i) (tiles ! i)) [i..<length ptrs], off')"
  using assms(6,7)
proof (induction "length ptrs - i" arbitrary: i acc off)
  case (Suc n)
  then have i: "i < length ptrs" "n = length ptrs - Suc i" by simp_all
  let ?us = "tiles ! i"
  from i have mem: "?us \<in> set tiles" using assms(4) by simp
  then have len: "length ?us = nr" using assms(3) by simp
  from assms(5) i obtain c where c: "map_of type_codes (arg_dtype (ptrs ! i)) = Some c"
    "\<forall>t \<in> set ?us. typed_array (arg_dtype (ptrs ! i)) t" by blast
  have slice: "take (length ?us) (drop (i * length ?us) (concat tiles)) = ?us"
    using row_of_concat [of tiles nr i] assms(3,4) i by (simp add: len)
  have split: "drop i tiles = ?us # drop (Suc i) tiles"
    using Cons_nth_drop_Suc [of i tiles] i assms(4) by simp
  have at: "rest_at raw off (concat (map tobytes ?us) @ concat (map tobytes (concat (drop (Suc i) tiles))) @ post)"
    using Suc.prems(2) by (simp add: split)
  note one = read_ptr_ok [OF assms(1,2) i(1) c(1) slice c(2) at, of acc, unfolded len]
  have "[i..<length ptrs] = i # [Suc i..<length ptrs]" using i by (simp add: upt_conv_Cons)
  with one Suc.hyps(1) [OF i(2) _ conjunct2 [OF one], of "acc @ [plan_of i (ptrs ! i) ?us]"] i(1)
  show ?case by simp
qed simp


lemma foldl_max_ge: "(c :: int) \<le> foldl max c xs"
  by (induction xs arbitrary: c) (auto intro: order_trans [OF max.cobounded1])

lemma foldl_max: "x \<in> set xs \<Longrightarrow> (x :: int) \<le> foldl max c xs"
  by (induction xs arbitrary: c) (auto intro: order_trans [OF max.cobounded2 foldl_max_ge])

lemma widest_bounds:
  "\<forall>t \<in> set ts. tile_rank t \<le> widest ts" "0 \<le> widest ts"
  using foldl_max [of _ "map tile_rank ts" 1] foldl_max_ge [of 1 "map tile_rank ts"] by (auto simp: widest_def)

lemma i64_run:
  assumes "rest_at raw off (bs @ post)" "bs = concat (map int64_bytes ns)" "list_all in_int64 ns" "n = int (length ns)"
  shows "np_frombuffer 8 read_int64 raw n off = Inr ns" "rest_at raw (off + 8 * n) post"
  using i64c.read_run [of raw off ns post n] assms by simp_all

lemma table_ok: "list_all (\<lambda>n. 0 \<le> n) shp \<Longrightarrow> int (length xs) = prod_list shp \<Longrightarrow> table xs shp = Inr xs"
  by (simp add: table_def reshape_same)

lemma meta_bytes:
  assumes "ptr_meta a = Inr bs"
  shows "i64 (meta_row a) = Inr bs"
  using assms by (auto simp: ptr_meta_def code_of_def dict_item_def bindE_Inr_iff meta_row_def split: option.splits)

lemma tile_meta_row: "tile_meta m t = i64 (tile_row m t)"
  by (simp add: tile_meta_def tile_row_def tile_size_def)

lemma infile_roundtrip_lemma:
  assumes pack: "pack_infile fc workspace b d data scal k = Inr raw"
    and typed: "\<forall>(name, dtype, src) \<in> set data. typed_array dtype src"
    and nr: "0 < nranks (d_grid d)"
  shows "\<exists>tiles locals vals ws.
    traverseE (ptr_tiles d data) (pointers b) = Inr tiles \<and>
    traverseE (local_scalars d scal) (py_range 0 (nranks (d_grid d))) = Inr locals \<and>
    traverseE (sent_row fc (scalars b)) locals = Inr vals \<and> traverseE workspace locals = Inr ws \<and>
    unpack_infile raw = Inr \<lparr>f_nranks = nranks (d_grid d), f_repeats = k,
      f_ptrs = map (\<lambda>i. plan_of i (pointers b ! i) (tiles ! i)) [0..<length (pointers b)],
      f_scalars = vals, f_workspace = ws\<rparr>"
proof -
  define R where "R = nranks (d_grid d)"
  define ptrs where "ptrs = pointers b"
  define args where "args = scalars b"
  from pack obtain tiles locals ws header codes cbytes rows wbytes metas tmetas where
    t: "traverseE (ptr_tiles d data) ptrs = Inr tiles" and
    l: "traverseE (local_scalars d scal) (py_range 0 R) = Inr locals" and
    w: "traverseE workspace locals = Inr ws" and
    h: "i64 [magic_number, wire_version, R, k, int (length ptrs), int (length (filter is_output ptrs)),
             int (length args), widest (concat tiles)] = Inr header" and
    c: "traverseE code_of args = Inr codes" "i64 codes = Inr cbytes" and
    r: "traverseE (scalar_row fc args) locals = Inr rows" and
    wb: "i64 ws = Inr wbytes" and
    m: "traverseE ptr_meta ptrs = Inr metas" and
    tm: "traverseE (tile_meta (widest (concat tiles))) (concat tiles) = Inr tmetas" and
    raw: "raw = header @ cbytes @ concat rows @ wbytes @ concat metas @ concat tmetas @ concat (map tobytes (concat tiles))"
    by (auto simp: pack_infile_def Let_def bindE_Inr_iff R_def ptrs_def args_def)
  define M where "M = widest (concat tiles)"
  have M: "\<forall>t \<in> set (concat tiles). tile_rank t \<le> M" "0 \<le> M"
    unfolding M_def by (rule widest_bounds)+
  note T = traverseE_InrD [OF t]
  have each: "ptr_tiles d data (ptrs ! i) = Inr (tiles ! i)" if "i < length ptrs" for i using T that by simp
  note P = ptr_tilesD [OF each typed]
  have lens: "\<forall>us \<in> set tiles. length us = nat R"
    using P(1) T by (auto simp: in_set_conv_nth R_def)
  have lenl: "length locals = nat R" "length ws = nat R" "length codes = length args"
    using traverseE_InrD [OF l] traverseE_InrD [OF w] traverseE_InrD [OF c(1)] by simp_all
  have "length (concat tiles) = length ptrs * nat R" using length_concat_rows [OF lens] T by simp
  then have len_rows: "int (length (concat (map (tile_row M) (concat tiles)))) = (2 + M) * int (length ptrs) * R"
    using length_concat_rows [of "map (tile_row M) (concat tiles)" "nat (2 + M)"] M nr
    by (auto simp: length_tile_row R_def)
  have len_metas: "length (concat (map meta_row ptrs)) = length ptrs * 3"
    using length_concat_rows [of "map meta_row ptrs" 3] by (simp add: meta_row_def)
  have "rest_at raw 0 (header @ cbytes @ concat rows @ wbytes @ concat metas @ concat tmetas @ concat (map tobytes (concat tiles)) @ [])"
    by (simp add: raw)
  note s1 = i64_run [OF this i64_InrD [OF h], of 8, simplified]
  define o2 where "o2 = 64 + 8 * int (length args)"
  have s2: "np_frombuffer 8 read_int64 raw (int (length args)) 64 = Inr codes"
    "rest_at raw o2 (concat rows @ wbytes @ concat metas @ concat tmetas @ concat (map tobytes (concat tiles)) @ [])"
    using i64_run [OF s1(2) i64_InrD [OF c(2)], of "int (length args)"] by (simp_all add: lenl o2_def)
  define o3 where "o3 = o2 + 8 * int (length args) * R"
  obtain vals where v: "traverseE (sent_row fc args) locals = Inr vals"
      "foldE (read_row raw codes) ([], o2) (py_range 0 R) = Inr (vals, o3)"
      "rest_at raw o3 (wbytes @ concat metas @ concat tmetas @ concat (map tobytes (concat tiles)) @ [])"
    using rows_read [OF r c(1) s2(2), of "py_range 0 R" "[]"] lenl nr by (auto simp: R_def o3_def)
  have s3: "np_frombuffer 8 read_int64 raw R o3 = Inr ws"
    "rest_at raw (o3 + 8 * R) (concat metas @ concat tmetas @ concat (map tobytes (concat tiles)) @ [])"
    using i64_run [OF v(3) i64_InrD [OF wb], of R] nr by (simp_all add: lenl R_def)
  define o5 where "o5 = o3 + 8 * R + 8 * 3 * int (length ptrs)"
  have s4: "np_frombuffer 8 read_int64 raw (3 * int (length ptrs)) (o3 + 8 * R) = Inr (concat (map meta_row ptrs))"
    "rest_at raw o5 (concat tmetas @ concat (map tobytes (concat tiles)) @ [])"
    using i64_run [where n = "3 * int (length ptrs)", OF s3(2) traverse_i64 [where g = meta_row, OF m meta_bytes]]
    by (simp_all add: len_metas o5_def del: length_concat)
  have "tile_meta M t = Inr bs \<Longrightarrow> i64 (tile_row M t) = Inr bs" for t :: "byte list ndarray" and bs
    by (simp add: tile_meta_row)
  from i64_run [where n = "(2 + M) * int (length ptrs) * R",
      OF s4(2) traverse_i64 [where g = "tile_row M", OF tm [folded M_def] this]]
  have s5: "np_frombuffer 8 read_int64 raw ((2 + M) * int (length ptrs) * R) o5 = Inr (concat (map (tile_row M) (concat tiles)))"
    "rest_at raw (o5 + 8 * (2 + M) * int (length ptrs) * R) (concat (map tobytes (concat tiles)) @ [])"
    by (simp_all add: len_rows mult.assoc distrib_right distrib_left del: length_concat)
  have fits: "\<forall>i < length ptrs. map_of type_codes (arg_dtype (ptrs ! i)) \<noteq> None \<and>
           (\<forall>t \<in> set (tiles ! i). typed_array (arg_dtype (ptrs ! i)) t)"
    using P(2,4) by blast
  have ranges: "py_range 0 (int (length ptrs)) = map int [0..<length ptrs]" "int (nat R) = R"
    using nr by (auto simp: R_def intro!: nth_equalityI)
  from read_ptrs_ok [OF M lens _ fits, of 0 raw "o5 + 8 * (2 + M) * int (length ptrs) * R" "[]" "[]",
      unfolded ranges(2)] s5(2) T
  obtain o6 where ptrs: "foldE (read_ptr raw (concat (map meta_row ptrs)) (concat (map (tile_row M) (concat tiles))) (2 + M) R)
      ([], o5 + 8 * (2 + M) * int (length ptrs) * R) (py_range 0 (int (length ptrs))) =
      Inr (map (\<lambda>i. plan_of i (ptrs ! i) (tiles ! i)) [0..<length ptrs], o6)"
    by (auto simp: ranges(1))
  have tables: "table (concat (map meta_row ptrs)) [int (length ptrs), 3] = Inr (concat (map meta_row ptrs))"
    "table (concat (map (tile_row M) (concat tiles))) [int (length ptrs), R, 2 + M] =
       Inr (concat (map (tile_row M) (concat tiles)))"
    by (rule table_ok; use M nr in \<open>simp add: len_metas len_rows R_def del: length_concat\<close>)+
  have "unpack_infile raw = Inr \<lparr>f_nranks = R, f_repeats = k,
      f_ptrs = map (\<lambda>i. plan_of i (ptrs ! i) (tiles ! i)) [0..<length ptrs], f_scalars = vals, f_workspace = ws\<rparr>"
    using s2(1) v(2) s3(1) s4(1) s5(1) ptrs tables
    by (simp add: unpack_infile_def s1(1) Let_def o2_def [symmetric] o5_def M_def [symmetric] add.assoc)
  with t l v(1) w show ?thesis unfolding R_def ptrs_def args_def by blast
qed


text \<open>C17. What the harness packs is what a driver unpacks: whenever \<open>pack_infile\<close> accepts a problem on
  a non-empty grid whose arrays carry their declared types, \<open>unpack_infile\<close> accepts the bytes and
  answers the rank count, the repeats, every pointer in binding order with its type, output flag and
  the exact tiles \<open>scatter\<close> cut for the ranks, every rank's scalars as localised for it (as int64 or
  float64 by the declared type), and every rank's workspace request.\<close>

theorem infile_roundtrip:
  assumes "pack_infile fc workspace b d data scal k = Inr raw"
    and "\<forall>(name, dtype, src) \<in> set data. typed_array dtype src" and "0 < nranks (d_grid d)"
  shows "\<exists>tiles locals vals ws.
    traverseE (ptr_tiles d data) (pointers b) = Inr tiles \<and>
    traverseE (local_scalars d scal) (py_range 0 (nranks (d_grid d))) = Inr locals \<and>
    traverseE (sent_row fc (scalars b)) locals = Inr vals \<and> traverseE workspace locals = Inr ws \<and>
    unpack_infile raw = Inr \<lparr>f_nranks = nranks (d_grid d), f_repeats = k,
      f_ptrs = map (\<lambda>i. plan_of i (pointers b ! i) (tiles ! i)) [0..<length (pointers b)],
      f_scalars = vals, f_workspace = ws\<rparr>"
  by (rule infile_roundtrip_lemma [OF assms])

definition sample_binding :: binding where
  "sample_binding = \<lparr>args =
     [\<lparr>arg_name = ''A'', arg_kind_of = Ptr, arg_shape = Some [''N''], arg_role = Some ''output'', arg_dtype = ''uint8''\<rparr>,
      \<lparr>arg_name = ''N'', arg_kind_of = Scalar, arg_shape = None, arg_role = None, arg_dtype = ''int64''\<rparr>]\<rparr>"

definition sample_descriptor :: descriptor where
  "sample_descriptor = \<lparr>d_grid = \<lparr>dims = [2]\<rparr>,
     d_arrays = [(''A'', \<lparr>axes = [split_axis Block 1], replicated = False\<rparr>)],
     symbol_axes = [(''N'', [(''A'', 0)])], locations = []\<rparr>"

theorem infile_roundtrip_witness:
  "\<exists>raw P. pack_infile \<lparr>of_int_value = \<lambda>n. Inl OverflowError, trunc_value = \<lambda>w. Inl OverflowError\<rparr>
       (\<lambda>l. Inr 16) sample_binding sample_descriptor [(''A'', ''uint8'', \<lparr>shape = [3], elems = [[1], [2], [3]]\<rparr>)]
       [(''N'', PyInt 3)] 5 = Inr raw \<and>
     unpack_infile raw = Inr P \<and> f_scalars P = [[PyInt 2], [PyInt 1]] \<and> f_workspace P = [16, 16] \<and>
     map p_tiles (f_ptrs P) = [[\<lparr>shape = [2], elems = [[1], [2]]\<rparr>, \<lparr>shape = [1], elems = [[3]]\<rparr>]]"
proof -
  let ?fc = "\<lparr>of_int_value = \<lambda>n. Inl OverflowError, trunc_value = \<lambda>w. Inl OverflowError\<rparr>"
  let ?data = "[(''A'', ''uint8'', \<lparr>shape = [3], elems = [[1], [2], [3 :: byte]]\<rparr>)]"
  let ?scal = "[(''N'', PyInt 3)]"
  let ?pack = "pack_infile ?fc (\<lambda>l. Inr 16) sample_binding sample_descriptor ?data ?scal 5"
  have "is_ok ?pack" by code_simp
  then obtain raw where raw: "?pack = Inr raw" by (auto simp: is_ok_iff)
  have "\<forall>(name, dtype, src) \<in> set ?data. typed_array dtype src" by code_simp
  moreover have "0 < nranks (d_grid sample_descriptor)" by code_simp
  moreover have "traverseE (ptr_tiles sample_descriptor ?data) (pointers sample_binding) =
      Inr [[\<lparr>shape = [2], elems = [[1], [2]]\<rparr>, \<lparr>shape = [1], elems = [[3]]\<rparr>]]" by code_simp
  moreover have "traverseE (local_scalars sample_descriptor ?scal) (py_range 0 (nranks (d_grid sample_descriptor))) =
      Inr [[(''N'', PyInt 2)], [(''N'', PyInt 1)]]" by code_simp
  moreover have "traverseE (sent_row ?fc (scalars sample_binding)) [[(''N'', PyInt 2)], [(''N'', PyInt 1)]] =
      Inr [[PyInt 2], [PyInt 1]]" by code_simp
  moreover have "length (pointers sample_binding) = 1" by code_simp
  ultimately show ?thesis
    using infile_roundtrip [OF raw] raw by (auto simp: plan_of_def)
qed

end
