(* ===== verification/Mpi_Outfile.thy ===== *)
theory Mpi_Outfile
  imports Mpi_Wire
begin

text \<open>
  The way back (\<open>pack_outfile\<close>, \<open>unpack_outfile\<close> of \<open>harness/mpi_wire.py\<close>), and the trip of an
  array through scatter, the infile and gather. The facts of \<open>fixed_codec\<close> do the reading here too;
  a file cut short at any byte is refused.
\<close>

section \<open>The outfile\<close>

text \<open>An output is its name, its type and one tile per rank, whose elements are already of that
  type. A type outside the table is refused (numpy's own refusal of a name it does not know is not
  told apart from the table's \<open>KeyError\<close>).\<close>

type_synonym wire_output = "string \<times> string \<times> byte list ndarray list"

definition out_meta :: "wire_output \<Rightarrow> byte list res" where
  "out_meta p =
     (let (name, dtype, tiles) = p in
      bindE (dict_item KeyError type_codes dtype) (\<lambda>c. i64 [int (itemsize dtype), c]))"

definition out_counts :: "wire_output \<Rightarrow> byte list res" where
  "out_counts p = (let (name, dtype, tiles) = p in i64 (map tile_size tiles))"

definition pack_outfile :: "int \<Rightarrow> int \<Rightarrow> 64 word list \<Rightarrow> wire_output list \<Rightarrow> byte list res" where
  "pack_outfile nr k_repeats samples outputs =
     (if int (length samples) \<noteq> k_repeats then Inl (ValueError ''pack_outfile: samples against repeats'')
      else
        bindE (i64 [magic_number, wire_version, nr, k_repeats, int (length outputs)]) (\<lambda>header.
        bindE (traverseE out_meta outputs) (\<lambda>metas.
        bindE (traverseE out_counts outputs) (\<lambda>counts.
        Inr (header @ concat (map le_bytes samples) @ concat (map le_bytes (replicate (nat (2 * k_repeats)) 0)) @
             concat metas @ concat counts @
             concat (map (\<lambda>(name, dtype, tiles). concat (map tobytes tiles)) outputs))))))"

record out_file =
  o_samples :: "64 word list"
  o_cast_in :: "64 word list"
  o_cast_out :: "64 word list"
  o_outputs :: "(string \<times> byte list list list) list"

text \<open>The flat tile of output \<open>j\<close> and rank \<open>r\<close>.\<close>

definition read_out_tile ::
    "byte list \<Rightarrow> int list \<Rightarrow> int \<Rightarrow> int \<Rightarrow> string \<Rightarrow> int \<Rightarrow> byte list list list \<times> int \<Rightarrow> int \<Rightarrow>
     (byte list list list \<times> int) res" where
  "read_out_tile raw counts nr elem_size dtype j st r =
     (let (tiles, off) = st; count = counts ! nat (j * nr + r) in
      bindE (np_frombuffer (itemsize dtype) (\<lambda>bs. bs) raw count off) (\<lambda>tile.
        Inr (tiles @ [tile], off + count * elem_size)))"

definition read_output ::
    "byte list \<Rightarrow> int list \<Rightarrow> int list \<Rightarrow> int \<Rightarrow> (string \<times> byte list list list) list \<times> int \<Rightarrow> int \<Rightarrow>
     ((string \<times> byte list list list) list \<times> int) res" where
  "read_output raw metas counts nr st j =
     (let (outputs, off) = st; elem_size = metas ! nat (2 * j) in
      bindE (dict_item (\<lambda>c. KeyError ''type code'') code_to_dtype (metas ! nat (2 * j + 1))) (\<lambda>dtype.
      bindE (foldE (read_out_tile raw counts nr elem_size dtype j) ([], off) (py_range 0 nr)) (\<lambda>(tiles, off).
        Inr (outputs @ [(dtype, tiles)], off))))"

definition unpack_outfile :: "byte list \<Rightarrow> out_file res" where
  "unpack_outfile raw =
     bindE (np_frombuffer 8 read_int64 raw 5 0) (\<lambda>h.
     if h ! 0 \<noteq> magic_number \<or> h ! 1 \<noteq> wire_version then Inl (ValueError ''bad MPI outfile'')
     else let nr = h ! 2; k = h ! 3; n_out = h ! 4; off = 8 * 5 in
     bindE (np_frombuffer 8 of_le_bytes raw (3 * k) off) (\<lambda>flat.
     bindE (np_reshape flat [3, k]) (\<lambda>timings.
     let row = (\<lambda>i. take (nat k) (drop (i * nat k) (elems timings))); off = off + 8 * 3 * k in
     bindE (bindE (np_frombuffer 8 read_int64 raw (2 * n_out) off) (\<lambda>m. table m [n_out, 2])) (\<lambda>metas.
     let off = off + 8 * 2 * n_out in
     bindE (bindE (np_frombuffer 8 read_int64 raw (n_out * nr) off) (\<lambda>m. table m [n_out, nr])) (\<lambda>counts.
     let off = off + 8 * n_out * nr in
     bindE (foldE (read_output raw metas counts nr) ([], off) (py_range 0 n_out)) (\<lambda>(outputs, off).
     Inr \<lparr>o_samples = row 0, o_cast_in = row 1, o_cast_out = row 2, o_outputs = outputs\<rparr>))))))"

section \<open>Reading back the outfile\<close>

definition out_meta_row :: "wire_output \<Rightarrow> int list" where
  "out_meta_row p = [int (itemsize (fst (snd p))), the (map_of type_codes (fst (snd p)))]"

definition out_count_row :: "wire_output \<Rightarrow> int list" where
  "out_count_row p = map tile_size (snd (snd p))"

definition out_bytes :: "wire_output \<Rightarrow> byte list" where
  "out_bytes p = concat (map tobytes (snd (snd p)))"

definition flat_output :: "wire_output \<Rightarrow> string \<times> byte list list list" where
  "flat_output p = (fst (snd p), map elems (snd (snd p)))"

text \<open>The outputs one call packs: a tile per rank, each of the output's type.\<close>

definition wf_outputs :: "nat \<Rightarrow> wire_output list \<Rightarrow> bool" where
  "wf_outputs nr outputs \<longleftrightarrow>
     list_all (\<lambda>(name, dtype, tiles). length tiles = nr \<and> list_all (typed_array dtype) tiles) outputs"

lemma read_out_tile_ok:
  assumes "typed_array dtype t" "counts ! nat (j * nr + r) = tile_size t" "rest_at raw off (tobytes t @ post)"
  shows "read_out_tile raw counts nr (int (itemsize dtype)) dtype j (us, off) r =
      Inr (us @ [elems t], off + tile_size t * int (itemsize dtype))"
    and "rest_at raw (off + tile_size t * int (itemsize dtype)) post"
proof -
  have "rest_at raw off (concat (map (\<lambda>bs. bs) (elems t)) @ post)" using assms(3) by (simp add: tobytes_def)
  from elemc.read_run [OF this, of "itemsize dtype" "tile_size t"] assms(1)
  have run: "np_frombuffer (itemsize dtype) (\<lambda>bs. bs) raw (tile_size t) off = Inr (elems t)"
    "rest_at raw (off + int (itemsize dtype) * tile_size t) post"
    by (simp_all add: typed_array_def tile_size_def)
  from run(1) show "read_out_tile raw counts nr (int (itemsize dtype)) dtype j (us, off) r =
      Inr (us @ [elems t], off + tile_size t * int (itemsize dtype))"
    by (simp add: read_out_tile_def assms(2))
  from run(2) show "rest_at raw (off + tile_size t * int (itemsize dtype)) post"
    by (subst mult.commute)
qed

lemma read_out_tiles_ok:
  assumes "list_all (typed_array dtype) ts"
    and "\<forall>i < length ts. counts ! nat (j * nr + int (r + i)) = tile_size (ts ! i)"
    and "rest_at raw off (concat (map tobytes ts) @ post)"
  shows "\<exists>off'. foldE (read_out_tile raw counts nr (int (itemsize dtype)) dtype j) (us, off) (map int [r..<r + length ts]) =
      Inr (us @ map elems ts, off') \<and> rest_at raw off' post"
  using assms
proof (induction ts arbitrary: r us off)
  case (Cons t ts)
  have "counts ! nat (j * nr + int r) = tile_size t" using Cons.prems(2) by force
  note one = read_out_tile_ok [OF _ this, where raw = raw and off = off and post = "concat (map tobytes ts) @ post"]
  have "map int [r..<r + length (t # ts)] = int r # map int [Suc r..<Suc r + length ts]"
    by (subst upt_conv_Cons) simp_all
  moreover have "\<forall>i < length ts. counts ! nat (j * nr + int (Suc r + i)) = tile_size (ts ! i)"
  proof (intro allI impI)
    fix i assume "i < length ts"
    then show "counts ! nat (j * nr + int (Suc r + i)) = tile_size (ts ! i)"
      using Cons.prems(2) [rule_format, of "Suc i"] by simp
  qed
  note Cons.IH [OF _ this, where off = "off + tile_size t * int (itemsize dtype)" and us = "us @ [elems t]"]
  ultimately show ?case using one Cons.prems(1,3) by simp
qed simp

lemma read_output_ok:
  assumes "wf_outputs nr os" "i < length os" "out_meta (os ! i) = Inr bs"
    and "rest_at raw off (out_bytes (os ! i) @ post)"
  shows "\<exists>off'. read_output raw (concat (map out_meta_row os)) (concat (map out_count_row os)) (int nr) (acc, off) (int i) =
      Inr (acc @ [flat_output (os ! i)], off') \<and> rest_at raw off' post"
proof -
  obtain name dtype ts where o: "os ! i = (name, dtype, ts)" by (cases "os ! i")
  have wf: "length ts = nr" "list_all (typed_array dtype) ts"
    using assms(1,2) o nth_mem [OF assms(2)] by (auto simp: wf_outputs_def list_all_iff)
  obtain c where c: "map_of type_codes dtype = Some c"
    using assms(3) by (auto simp: o out_meta_def dict_item_def split: option.splits)
  have row: "concat (map out_meta_row os) ! (i * 2 + k) = out_meta_row (os ! i) ! k" if "k < 2" for k
    using nth_concat_rows [of "map out_meta_row os" 2 i k] assms(2) that by (simp add: out_meta_row_def)
  have "nat (2 * int i) = i * 2 + 0" "nat (2 * int i + 1) = i * 2 + 1"
    by (simp_all add: nat_mult_distrib nat_add_distrib)
  then have metas: "concat (map out_meta_row os) ! nat (2 * int i) = int (itemsize dtype)"
    "concat (map out_meta_row os) ! nat (2 * int i + 1) = c"
    using row [of 0] row [of 1] by (simp_all add: out_meta_row_def o c)
  have "\<forall>r \<in> set (map out_count_row os). length r = nr"
    using assms(1) by (auto simp: wf_outputs_def list_all_iff out_count_row_def)
  from nth_concat_rows [OF this] assms(2)
  have "\<forall>r < length ts. concat (map out_count_row os) ! nat (int i * int nr + int (0 + r)) = tile_size (ts ! r)"
    by (auto simp: nat_add_distrib nat_mult_distrib wf(1) o out_count_row_def)
  from read_out_tiles_ok [OF wf(2) this, of raw off post "[]"] assms(4)
  obtain off' where "foldE (read_out_tile raw (concat (map out_count_row os)) (int nr) (int (itemsize dtype)) dtype (int i))
      ([], off) (map int [0..<0 + length ts]) = Inr (map elems ts, off')" "rest_at raw off' post"
    by (auto simp: out_bytes_def o)
  moreover have "py_range 0 (int nr) = map int [0..<0 + length ts]"
    by (intro nth_equalityI) (simp_all add: wf(1))
  ultimately show ?thesis
    by (simp add: read_output_def metas dict_item_def code_to_dtype [OF c] flat_output_def o)
qed

lemma read_outputs_ok:
  assumes "wf_outputs nr os" "\<forall>p \<in> set os. is_ok (out_meta p)"
    and "i \<le> length os" "rest_at raw off (concat (map out_bytes (drop i os)) @ post)"
  shows "\<exists>off'. foldE (read_output raw (concat (map out_meta_row os)) (concat (map out_count_row os)) (int nr)) (acc, off)
       (map int [i..<length os]) = Inr (acc @ map flat_output (drop i os), off') \<and> rest_at raw off' post"
  using assms(3,4)
proof (induction "length os - i" arbitrary: i acc off)
  case (Suc n)
  then have i: "i < length os" "n = length os - Suc i" by simp_all
  have split: "drop i os = os ! i # drop (Suc i) os" using i by (simp add: Cons_nth_drop_Suc)
  from assms(2) i obtain bs where "out_meta (os ! i) = Inr bs" by (force simp: is_ok_iff)
  from read_output_ok [OF assms(1) i(1) this] Suc.prems(2) obtain off' where
    one: "read_output raw (concat (map out_meta_row os)) (concat (map out_count_row os)) (int nr) (acc, off) (int i) =
      Inr (acc @ [flat_output (os ! i)], off')" "rest_at raw off' (concat (map out_bytes (drop (Suc i) os)) @ post)"
    by (force simp: split)
  have "[i..<length os] = i # [Suc i..<length os]" using i by (simp add: upt_conv_Cons)
  with one Suc.hyps(1) [OF i(2) _ one(2), of "acc @ [flat_output (os ! i)]"] i(1)
  show ?case by (simp add: split)
qed simp

lemma length_out_rows:
  "length (concat (map out_meta_row os)) = length os * 2"
  "wf_outputs nr os \<Longrightarrow> length (concat (map out_count_row os)) = length os * nr"
proof -
  show "length (concat (map out_meta_row os)) = length os * 2"
    using length_concat_rows [of "map out_meta_row os" 2] by (simp add: out_meta_row_def)
  assume "wf_outputs nr os"
  then have "\<forall>r \<in> set (map out_count_row os). length r = nr"
    by (auto simp: wf_outputs_def list_all_iff out_count_row_def)
  from length_concat_rows [OF this] show "length (concat (map out_count_row os)) = length os * nr"
    by (simp del: length_concat)
qed

text \<open>Where each part of a packed outfile stands.\<close>

lemma packed_outfile:
  assumes "pack_outfile nr k samples os = Inr raw" "0 \<le> nr"
  defines "n_out \<equiv> int (length os)"
  shows "np_frombuffer 8 read_int64 raw 5 0 = Inr [magic_number, wire_version, nr, k, n_out]"
    and "k = int (length samples)"
    and "np_frombuffer 8 of_le_bytes raw (3 * k) 40 = Inr (samples @ replicate (nat (2 * k)) 0)"
    and "np_frombuffer 8 read_int64 raw (2 * n_out) (40 + 24 * k) = Inr (concat (map out_meta_row os))"
    and "wf_outputs (nat nr) os \<Longrightarrow>
      np_frombuffer 8 read_int64 raw (n_out * nr) (40 + 24 * k + 16 * n_out) = Inr (concat (map out_count_row os)) \<and>
      rest_at raw (40 + 24 * k + 16 * n_out + 8 * n_out * nr) (concat (map out_bytes os))"
    and "\<forall>p \<in> set os. is_ok (out_meta p)"
proof -
  show k: "k = int (length samples)"
    using assms(1) by (auto simp: pack_outfile_def split: if_splits)
  from assms(1) obtain header metas counts where
    h: "i64 [magic_number, wire_version, nr, k, n_out] = Inr header" and
    m: "traverseE out_meta os = Inr metas" and c: "traverseE out_counts os = Inr counts" and
    raw: "raw = header @ concat (map le_bytes samples) @ concat (map le_bytes (replicate (nat (2 * k)) 0)) @
             concat metas @ concat counts @ concat (map (\<lambda>(name, dtype, tiles). concat (map tobytes tiles)) os)"
    by (auto simp: pack_outfile_def bindE_Inr_iff n_out_def split: if_splits)
  have payload: "concat (map (\<lambda>(name, dtype, tiles). concat (map tobytes tiles)) os) = concat (map out_bytes os)"
    by (simp add: out_bytes_def [abs_def] case_prod_unfold)
  have "rest_at raw 0 (header @ concat (map le_bytes (samples @ replicate (nat (2 * k)) 0)) @
             concat metas @ concat counts @ concat (map out_bytes os))"
    by (simp add: raw payload)
  note s1 = i64_run [OF this i64_InrD [OF h], of 5, simplified]
  then show "np_frombuffer 8 read_int64 raw 5 0 = Inr [magic_number, wire_version, nr, k, n_out]" by simp
  have s1': "rest_at raw 40 (concat (map le_bytes (samples @ replicate (nat (2 * k)) 0)) @
             concat metas @ concat counts @ concat (map out_bytes os))"
    using s1(2) by simp
  have len: "3 * k = int (length (samples @ replicate (nat (2 * k)) 0))" by (simp add: k)
  have s2: "np_frombuffer 8 of_le_bytes raw (3 * k) 40 = Inr (samples @ replicate (nat (2 * k)) 0)"
    "rest_at raw (40 + 24 * k) (concat metas @ concat counts @ concat (map out_bytes os))"
    using f64c.read_run [OF s1' _ len] by (simp_all add: list_all_iff)
  show "np_frombuffer 8 of_le_bytes raw (3 * k) 40 = Inr (samples @ replicate (nat (2 * k)) 0)" by (rule s2)
  have "out_meta p = Inr bs \<Longrightarrow> i64 (out_meta_row p) = Inr bs" for p bs
    by (auto simp: out_meta_def out_meta_row_def dict_item_def bindE_Inr_iff split: option.splits prod.splits)
  note m64 = traverse_i64 [where g = out_meta_row, OF m this]
  have s3: "np_frombuffer 8 read_int64 raw (2 * n_out) (40 + 24 * k) = Inr (concat (map out_meta_row os))"
    "rest_at raw (40 + 24 * k + 16 * n_out) (concat counts @ concat (map out_bytes os))"
    using i64_run [where n = "2 * n_out", OF s2(2) m64] by (simp_all add: n_out_def length_out_rows del: length_concat)
  show "np_frombuffer 8 read_int64 raw (2 * n_out) (40 + 24 * k) = Inr (concat (map out_meta_row os))" by (rule s3)
  have "out_counts p = Inr bs \<Longrightarrow> i64 (out_count_row p) = Inr bs" for p bs
    by (auto simp: out_counts_def out_count_row_def split: prod.splits)
  note c64 = traverse_i64 [where g = out_count_row, OF c this]
  show "np_frombuffer 8 read_int64 raw (n_out * nr) (40 + 24 * k + 16 * n_out) = Inr (concat (map out_count_row os)) \<and>
      rest_at raw (40 + 24 * k + 16 * n_out + 8 * n_out * nr) (concat (map out_bytes os))"
    if "wf_outputs (nat nr) os"
  proof -
    have "int (length (concat (map out_count_row os))) = n_out * nr"
      using assms(2) by (simp add: n_out_def length_out_rows(2) [OF that] del: length_concat)
    with i64_run [where n = "n_out * nr", OF s3(2) c64] show ?thesis
      by (simp add: mult.assoc del: length_concat)
  qed
  show "\<forall>p \<in> set os. is_ok (out_meta p)"
    using m traverseE_ok_iff [of out_meta os] by (simp add: is_ok_iff)
qed

text \<open>C28. A driver's results reach the harness unchanged: what \<open>pack_outfile\<close> writes for a rank
  count, one tile per rank and output, \<open>unpack_outfile\<close> reads back as the same samples, zero cast
  times, and for every output in order its type and the elements of every rank's tile.\<close>

theorem outfile_roundtrip:
  assumes "pack_outfile nr k samples outputs = Inr raw" and "0 \<le> nr" and "wf_outputs (nat nr) outputs"
  shows "unpack_outfile raw = Inr \<lparr>o_samples = samples, o_cast_in = replicate (length samples) 0,
    o_cast_out = replicate (length samples) 0, o_outputs = map flat_output outputs\<rparr>"
proof -
  note P = packed_outfile [OF assms(1,2)]
  define n_out where "n_out = int (length outputs)"
  have k: "nat k = length samples" "nat (2 * k) = 2 * length samples" using P(2) by simp_all
  have rest: "rest_at raw (40 + 24 * k + 16 * n_out + 8 * n_out * nr) (concat (map out_bytes (drop 0 outputs)) @ [])"
    using P(5) [OF assms(3)] by (simp add: n_out_def)
  have ranges: "py_range 0 n_out = map int [0..<length outputs]" "int (nat nr) = nr"
    using assms(2) by (auto simp: n_out_def intro!: nth_equalityI)
  from read_outputs_ok [OF assms(3) P(6) _ rest, of "[]"]
  obtain off where outs: "foldE (read_output raw (concat (map out_meta_row outputs)) (concat (map out_count_row outputs)) nr)
      ([], 40 + 24 * k + 16 * n_out + 8 * n_out * nr) (py_range 0 n_out) = Inr (map flat_output outputs, off)"
    unfolding ranges by auto
  have lens: "int (length (concat (map out_meta_row outputs))) = n_out * 2"
    "int (length (concat (map out_count_row outputs))) = n_out * nr"
    using assms(2) by (simp_all add: n_out_def length_out_rows(1) length_out_rows(2) [OF assms(3)] del: length_concat)
  have tables: "table (concat (map out_meta_row outputs)) [n_out, 2] = Inr (concat (map out_meta_row outputs))"
    "table (concat (map out_count_row outputs)) [n_out, nr] = Inr (concat (map out_count_row outputs))"
    by (rule table_ok; use assms(2) in \<open>simp add: lens n_out_def del: length_concat\<close>)+
  have "np_reshape (samples @ replicate (nat (2 * k)) 0) [3, k] =
      Inr \<lparr>shape = [3, k], elems = samples @ replicate (nat (2 * k)) 0\<rparr>"
    by (rule reshape_same) (simp_all add: P(2) k)
  with P(1,3,4) P(5) [OF assms(3)] outs tables show ?thesis
    by (simp add: unpack_outfile_def Let_def n_out_def [symmetric] k P(2))
qed

theorem outfile_roundtrip_witness:
  "\<exists>raw. pack_outfile 2 3 [5, 6, 7] [(''A'', ''uint8'', [\<lparr>shape = [2], elems = [[1], [2]]\<rparr>, \<lparr>shape = [1], elems = [[3]]\<rparr>])] = Inr raw \<and>
     unpack_outfile raw = Inr \<lparr>o_samples = [5, 6, 7], o_cast_in = [0, 0, 0], o_cast_out = [0, 0, 0],
       o_outputs = [(''uint8'', [[[1], [2]], [[3]]])]\<rparr>"
proof -
  let ?o = "[(''A'', ''uint8'', [\<lparr>shape = [2], elems = [[1], [2]]\<rparr>, \<lparr>shape = [1], elems = [[3 :: byte]]\<rparr>])]"
  have "is_ok (pack_outfile 2 3 [5, 6, 7] ?o)" by code_simp
  then obtain raw where raw: "pack_outfile 2 3 [5, 6, 7] ?o = Inr raw" by (auto simp: is_ok_iff)
  have "wf_outputs (nat 2) ?o" by code_simp
  from outfile_roundtrip [OF raw _ this] raw show ?thesis
    by (simp add: flat_output_def numeral_eq_Suc)
qed

section \<open>A file cut short\<close>

lemma frombuffer_prefix:
  assumes "np_frombuffer w dec (take n raw) c off = Inr xs" "0 \<le> c"
  shows "np_frombuffer w dec raw c off = Inr xs" "off + c * int w \<le> int n" "0 \<le> off"
proof -
  let ?rest = "drop (nat off) raw"
  have rest: "drop (nat off) (take n raw) = take (n - nat off) ?rest" by (simp add: drop_take)
  from assms have off: "0 \<le> off" "off \<le> int (min (length raw) n)"
    and fits: "c * int w \<le> int (length (take (n - nat off) ?rest))"
    and xs: "xs = map (\<lambda>i. dec (take w (drop (i * w) (take (n - nat off) ?rest)))) [0..<nat c]"
    by (auto simp: np_frombuffer_def Let_def rest split: if_splits)
  from fits off show "off + c * int w \<le> int n" "0 \<le> off" by auto
  have "take w (drop (i * w) (take (n - nat off) ?rest)) = take w (drop (i * w) ?rest)" if "i < nat c" for i
  proof -
    have "(i + 1) * w \<le> nat c * w" using that by (intro mult_le_mono1) simp
    moreover have "int (nat c * w) \<le> int (n - nat off)" using fits assms(2) by auto
    then have "nat c * w \<le> n - nat off" by (simp only: of_nat_le_iff)
    ultimately have "i * w + w \<le> n - nat off" by simp
    then show ?thesis by (simp add: drop_take min_def take_take)
  qed
  then have "xs = map (\<lambda>i. dec (take w (drop (i * w) ?rest))) [0..<nat c]" by (simp add: xs)
  with off fits assms(2) show "np_frombuffer w dec raw c off = Inr xs"
    by (auto simp: np_frombuffer_def Let_def)
qed

text \<open>The reading loops on a cut file never leave it.\<close>

lemma read_out_tiles_prefix:
  assumes "foldE (read_out_tile (take n raw) counts nr (int (itemsize dtype)) dtype j) (us, off) (map int [r..<r + length ts]) = Inr (vs, off')"
    and "\<forall>i < length ts. counts ! nat (j * nr + int (r + i)) = tile_size (ts ! i)" "off \<le> int n"
  shows "off' = off + tiles_bytes dtype ts \<and> off' \<le> int n"
  using assms
proof (induction ts arbitrary: r us off)
  case (Cons t ts)
  have c: "counts ! nat (j * nr + int r) = tile_size t" using Cons.prems(2) by force
  have "map int [r..<r + length (t # ts)] = int r # map int [Suc r..<Suc r + length ts]"
    by (subst upt_conv_Cons) simp_all
  with Cons.prems(1) have
    "bindE (read_out_tile (take n raw) counts nr (int (itemsize dtype)) dtype j (us, off) (int r))
       (\<lambda>st. foldE (read_out_tile (take n raw) counts nr (int (itemsize dtype)) dtype j) st
          (map int [Suc r..<Suc r + length ts])) = Inr (vs, off')"
    by (simp only: foldE.simps)
  with c obtain tile where
    one: "np_frombuffer (itemsize dtype) (\<lambda>bs. bs) (take n raw) (tile_size t) off = Inr tile" and
    more: "foldE (read_out_tile (take n raw) counts nr (int (itemsize dtype)) dtype j)
        (us @ [tile], off + tile_size t * int (itemsize dtype)) (map int [Suc r..<Suc r + length ts]) = Inr (vs, off')"
    by (auto simp: read_out_tile_def [where st = "(us, off)"] bindE_Inr_iff Let_def simp del: upt_Suc)
  have "off + tile_size t * int (itemsize dtype) \<le> int n"
    by (rule frombuffer_prefix(2) [OF one]) (simp add: tile_size_def)
  moreover have "\<forall>i < length ts. counts ! nat (j * nr + int (Suc r + i)) = tile_size (ts ! i)"
  proof (intro allI impI)
    fix i assume "i < length ts"
    then show "counts ! nat (j * nr + int (Suc r + i)) = tile_size (ts ! i)"
      using Cons.prems(2) [rule_format, of "Suc i"] by simp
  qed
  ultimately show ?case
    using Cons.IH [OF more] by (simp add: tiles_bytes_def)
qed (simp add: tiles_bytes_def)

definition output_size :: "wire_output \<Rightarrow> int" where
  "output_size p = tiles_bytes (fst (snd p)) (snd (snd p))"

lemma length_out_bytes:
  assumes "wf_outputs nr os" "p \<in> set os"
  shows "int (length (out_bytes p)) = output_size p"
proof -
  have t: "int (length (tobytes t)) = tile_size t * int (itemsize dtype)" if "typed_array dtype t" for t dtype
    using that length_concat_rows [of "elems t" "itemsize dtype"]
    by (simp add: tobytes_def tile_size_def typed_array_def list_all_iff del: length_concat)
  have "int (length (concat (map tobytes ts))) = tiles_bytes dtype ts" if "list_all (typed_array dtype) ts" for ts dtype
    using that by (induction ts) (auto simp: t tiles_bytes_def)
  then show ?thesis
    using assms by (auto simp: wf_outputs_def list_all_iff out_bytes_def output_size_def)
qed

lemma read_outputs_prefix:
  assumes "wf_outputs nr os" "\<forall>p \<in> set os. is_ok (out_meta p)" "i \<le> length os" "off \<le> int n"
    and "foldE (read_output (take n raw) (concat (map out_meta_row os)) (concat (map out_count_row os)) (int nr)) (acc, off)
       (map int [i..<length os]) = Inr (acc', off')"
  shows "off' = off + sum_list (map output_size (drop i os)) \<and> off' \<le> int n"
  using assms(3-5)
proof (induction "length os - i" arbitrary: i acc off)
  case (Suc m)
  then have i: "i < length os" "m = length os - Suc i" by simp_all
  obtain name dtype ts where o: "os ! i = (name, dtype, ts)" by (cases "os ! i")
  have mem: "os ! i \<in> set os" using i by simp
  with assms(1) o have len: "length ts = nr" by (auto simp: wf_outputs_def list_all_iff)
  from assms(2) mem o obtain c where c: "map_of type_codes dtype = Some c"
    by (auto simp: is_ok_iff out_meta_def dict_item_def split: option.splits)
  have row: "concat (map out_meta_row os) ! (i * 2 + k) = out_meta_row (os ! i) ! k" if "k < 2" for k
    using nth_concat_rows [of "map out_meta_row os" 2 i k] i(1) that by (simp add: out_meta_row_def)
  have "nat (2 * int i) = i * 2 + 0" "nat (2 * int i + 1) = i * 2 + 1"
    by (simp_all add: nat_mult_distrib nat_add_distrib)
  then have metas: "concat (map out_meta_row os) ! nat (2 * int i) = int (itemsize dtype)"
    "concat (map out_meta_row os) ! nat (2 * int i + 1) = c"
    using row [of 0] row [of 1] by (simp_all add: out_meta_row_def o c)
  have "\<forall>r \<in> set (map out_count_row os). length r = nr"
    using assms(1) by (auto simp: wf_outputs_def list_all_iff out_count_row_def)
  from nth_concat_rows [OF this] i(1)
  have counts: "\<forall>r < length ts. concat (map out_count_row os) ! nat (int i * int nr + int (0 + r)) = tile_size (ts ! r)"
    by (auto simp: nat_add_distrib nat_mult_distrib len o out_count_row_def)
  have ranks: "py_range 0 (int nr) = map int [0..<0 + length ts]"
    by (intro nth_equalityI) (simp_all add: len)
  have "[i..<length os] = i # [Suc i..<length os]" using i by (simp add: upt_conv_Cons)
  with Suc.prems(3) obtain acc1 off1 where
    one: "read_output (take n raw) (concat (map out_meta_row os)) (concat (map out_count_row os)) (int nr) (acc, off) (int i) =
      Inr (acc1, off1)" and
    more: "foldE (read_output (take n raw) (concat (map out_meta_row os)) (concat (map out_count_row os)) (int nr)) (acc1, off1)
       (map int [Suc i..<length os]) = Inr (acc', off')"
    by (auto simp: bindE_Inr_iff)
  from one obtain vs where
    "foldE (read_out_tile (take n raw) (concat (map out_count_row os)) (int nr) (int (itemsize dtype)) dtype (int i))
      ([], off) (map int [0..<0 + length ts]) = Inr (vs, off1)"
    by (auto simp: read_output_def metas dict_item_def code_to_dtype [OF c] bindE_Inr_iff ranks)
  from read_out_tiles_prefix [OF this counts Suc.prems(2)]
  have off1: "off1 = off + output_size (os ! i)" "off1 \<le> int n" by (simp_all add: output_size_def o)
  from Suc.hyps(1) [OF i(2) _ off1(2) more] i(1) off1(1)
  show ?case by (simp add: Cons_nth_drop_Suc [symmetric])
qed auto

text \<open>C29. A truncated outfile is caught, never misread: cutting a packed file at any byte before its
  end makes \<open>unpack_outfile\<close> raise, whichever part the cut falls in.\<close>

theorem truncated_outfile_refused:
  assumes "pack_outfile nr k samples outputs = Inr raw" and "0 \<le> nr" and "wf_outputs (nat nr) outputs"
    and "n < length raw"
  shows "\<exists>e. unpack_outfile (take n raw) = Inl e"
proof (rule ccontr)
  let ?cut = "take n raw"
  assume "\<nexists>e. unpack_outfile ?cut = Inl e"
  then obtain P where "unpack_outfile ?cut = Inr P" by (cases "unpack_outfile ?cut") auto
  note run = this [unfolded unpack_outfile_def]
  note F = packed_outfile [OF assms(1,2)]
  define n_out where "n_out = int (length outputs)"
  note F = F [folded n_out_def]
  have "0 \<le> k" "0 \<le> n_out" using F(2) by (simp_all add: n_out_def)
  from run obtain h where h: "np_frombuffer 8 read_int64 ?cut 5 0 = Inr h" by (auto simp: bindE_Inr_iff)
  with frombuffer_prefix(1) [OF h] F(1) have [simp]: "h = [magic_number, wire_version, nr, k, n_out]" by simp
  from run h obtain flat where flat: "np_frombuffer 8 of_le_bytes ?cut (3 * k) 40 = Inr flat"
    by (auto simp: bindE_Inr_iff Let_def)
  from run h flat obtain metas mt where
    metas: "np_frombuffer 8 read_int64 ?cut (2 * n_out) (40 + 24 * k) = Inr metas" "table metas [n_out, 2] = Inr mt"
    by (auto simp: bindE_Inr_iff Let_def)
  from frombuffer_prefix(1) [OF metas(1)] F(4) \<open>0 \<le> n_out\<close> have m: "metas = concat (map out_meta_row outputs)" by simp
  have mt: "mt = metas" using metas(2) by (auto simp: table_def np_reshape_def Let_def bindE_Inr_iff split: if_splits)
  from run h flat metas obtain counts ct where
    counts: "np_frombuffer 8 read_int64 ?cut (n_out * nr) (40 + 24 * k + 16 * n_out) = Inr counts" "table counts [n_out, nr] = Inr ct"
    by (auto simp: bindE_Inr_iff Let_def)
  have "0 \<le> n_out * nr" using \<open>0 \<le> n_out\<close> assms(2) by simp
  from frombuffer_prefix(1) [OF counts(1) this] F(5) [OF assms(3)]
  have c: "counts = concat (map out_count_row outputs)" by simp
  have ct: "ct = counts"
    using counts(2) by (auto simp: table_def np_reshape_def Let_def bindE_Inr_iff split: if_splits)
  define o4 where "o4 = 40 + 24 * k + 16 * n_out + 8 * n_out * nr"
  have o4: "o4 \<le> int n"
    using frombuffer_prefix(2) [OF counts(1) \<open>0 \<le> n_out * nr\<close>] by (simp add: o4_def mult.assoc mult.commute [of _ 8])
  from run h flat metas counts obtain outs off where
    "foldE (read_output ?cut metas counts nr) ([], o4) (py_range 0 n_out) = Inr (outs, off)"
    by (auto simp: bindE_Inr_iff Let_def mt ct o4_def)
  moreover have "py_range 0 n_out = map int [0..<length outputs]"
    by (auto simp: n_out_def intro!: nth_equalityI)
  ultimately have loop: "foldE (read_output ?cut (concat (map out_meta_row outputs)) (concat (map out_count_row outputs)) (int (nat nr)))
      ([], o4) (map int [0..<length outputs]) = Inr (outs, off)"
    using assms(2) by (simp add: m c)
  from read_outputs_prefix [OF assms(3) F(6) _ o4 loop]
  have "o4 + sum_list (map output_size outputs) \<le> int n" by simp
  moreover have "int (length raw) = o4 + int (length (concat (map out_bytes outputs)))"
    using F(5) [OF assms(3)] by (auto simp: o4_def [symmetric] rest_at_def dest: arg_cong [where f = length])
  moreover have "int (length (concat (map out_bytes os))) = sum_list (map output_size os)"
    if "set os \<subseteq> set outputs" for os
    using that length_out_bytes [OF assms(3)] by (induction os) auto
  ultimately show False using assms(4) by simp
qed

theorem truncated_outfile_refused_witness:
  "\<exists>raw. pack_outfile 1 1 [5] [(''A'', ''uint8'', [\<lparr>shape = [2], elems = [[1], [2]]\<rparr>])] = Inr raw \<and> 10 < length raw \<and>
     (\<exists>e. unpack_outfile (take 10 raw) = Inl e)"
proof -
  let ?o = "[(''A'', ''uint8'', [\<lparr>shape = [2], elems = [[1], [2 :: byte]]\<rparr>])]"
  have "case pack_outfile 1 1 [5] ?o of Inl e \<Rightarrow> False | Inr raw \<Rightarrow> 10 < length raw" by code_simp
  then obtain raw where raw: "pack_outfile 1 1 [5] ?o = Inr raw" "10 < length raw" by (auto split: sum.splits)
  have "wf_outputs (nat 1) ?o" by code_simp
  from truncated_outfile_refused [OF raw(1) _ this raw(2)] raw show ?thesis by auto
qed

section \<open>Through the wire and back together\<close>

lemma scatter_rank:
  assumes "scatter a dist g = Inr ts" "t \<in> set ts"
  shows "length (shape t) = length (shape a)"
proof (cases "replicated dist")
  case False
  with assms(1) have t: "traverseE (\<lambda>rank. bindE (coords_of g rank) (\<lambda>coords.
             bindE (axis_index_lists (shape a) dist g coords) (\<lambda>ls. np_ix_get a ls)))
           (py_range 0 (nranks g)) = Inr ts" by (simp add: scatter_def)
  from assms(2) obtain i where i: "i < length ts" "t = ts ! i" by (auto simp: in_set_conv_nth)
  with traverseE_InrD [OF t] obtain ls where "np_ix_get a ls = Inr t" by (auto simp: bindE_Inr_iff)
  then obtain ls' where "np_ix (shape a) ls = Inr ls'" "length (shape t) = length ls'"
    by (auto simp: np_ix_get_def bindE_Inr_iff)
  with np_ixD(1) show ?thesis by fastforce
qed (use assms in \<open>auto simp: scatter_def\<close>)

text \<open>The tiles of an array with at least one axis need no \<open>ascontiguous\<close>.\<close>

lemma ptr_tiles_scatter:
  assumes "ptr_tiles d data a = Inr tiles" "\<forall>(name, dtype, src) \<in> set data. typed_array dtype src"
    and "map_of data (arg_name a) = Some (dtype, src)" "shape src \<noteq> []"
  shows "d_scatter d (arg_name a) src = Inr tiles"
proof -
  from assms(4) have "ascontiguous src = src" by (simp add: ascontiguous_def)
  with ptr_tilesD(3) [OF assms(1,2)] assms(3) obtain ts where ts: "d_scatter d (arg_name a) src = Inr ts"
    "tiles = map ascontiguous ts" by (auto simp: bindE_Inr_iff)
  then obtain dist where "scatter src dist (d_grid d) = Inr ts" by (auto simp: d_scatter_def bindE_Inr_iff)
  from scatter_rank [OF this] assms(4) have "t \<in> set ts \<Longrightarrow> ascontiguous t = t" for t
    by (fastforce simp: ascontiguous_def)
  then have "map ascontiguous ts = ts" by (simp add: map_idI)
  with ts show ?thesis by simp
qed

lemma array_survives_lemma:
  assumes "distribution_for_kernel kth_root mpi b ranks = Inr p" and "0 < ranks" and "\<And>r k. 0 \<le> kth_root r k"
    and "from_plan p b ranks given loc = Inr d"
    and "pack_infile fc workspace b d data scal k = Inr raw"
    and "\<forall>(name, dtype, src) \<in> set data. typed_array dtype src"
    and "i < length (pointers b)" and "map_of (pointer_map b) (arg_name (pointers b ! i)) = Some (pointers b ! i)"
    and "map_of data (arg_name (pointers b ! i)) = Some (dtype, src)"
    and "arg_shape (pointers b ! i) = Some syms" and "length (shape src) = length syms" and "shape src \<noteq> []"
  shows "\<exists>P. unpack_infile raw = Inr P \<and> p_dtype (f_ptrs P ! i) = dtype \<and>
     d_gather junk d (arg_name (pointers b ! i)) (p_tiles (f_ptrs P ! i)) (shape src) = Inr src"
proof -
  let ?a = "pointers b ! i"
  have "0 < nranks (d_grid d)" using from_planD(2) [OF assms(4)] assms(2) by simp
  from infile_roundtrip_lemma [OF assms(5,6) this] obtain tiles P where
    tiles: "traverseE (ptr_tiles d data) (pointers b) = Inr tiles" and
    P: "unpack_infile raw = Inr P" "f_ptrs P = map (\<lambda>i. plan_of i (pointers b ! i) (tiles ! i)) [0..<length (pointers b)]"
    by fastforce
  from traverseE_InrD [OF tiles] assms(7) have each: "ptr_tiles d data ?a = Inr (tiles ! i)" by simp
  note ptr_tilesD(3) [OF each assms(6)]
  moreover note ptr_tiles_scatter [OF each assms(6,9,12)]
  moreover have "wf_array src" using assms(6,9) by (auto simp: typed_array_def dest: map_of_SomeD)
  note default_descriptor_lemma [OF assms(1-4,8,10) this assms(11), of junk]
  ultimately show ?thesis using P assms(7,9) by (auto simp: plan_of_def)
qed

end
