(* ===== verification/Claim_Queue.thy ===== *)
theory Claim_Queue
  imports Prelude
begin

text \<open>
  The claim queue of \<^verbatim>\<open>harness/claims.py\<close>: the shards of several jobs take the items of one
  worklist through \<open>O_EXCL\<close> marker files. The state is what the shared filesystem holds for one item
  key (different keys use different files) and where each shard's code stands; one step runs one
  filesystem operation of one shard, a heartbeat, a death, or lets time pass. Reading the claims of
  the other jobs (\<^verbatim>\<open>live_elsewhere\<close>) is one step. Times are whole seconds. Time only passes while no
  running shard's claim goes stale, which is what the heartbeat thread is for.
\<close>

section \<open>Files\<close>

definition stale_s :: int where
  "stale_s = 300"

definition max_claims :: nat where
  "max_claims = 3"

type_synonym job = string
type_synonym shard = nat

text \<open>The files of one item: \<open><key>.done\<close>, \<open><job>/<key>.closed\<close> and \<open><job>/<key>.<n>\<close>, a claim with
  the shard that created it and its modification time.\<close>

record files =
  graded :: bool
  given_up :: "job list"
  claims :: "(job \<times> nat, shard \<times> int) dict"

definition no_files :: files where
  "no_files = \<lparr>graded = False, given_up = [], claims = []\<rparr>"

definition claim_at :: "files \<Rightarrow> job \<Rightarrow> nat \<Rightarrow> (shard \<times> int) option" where
  "claim_at fs j n = map_of (claims fs) (j, n)"

definition put_claim :: "job \<Rightarrow> nat \<Rightarrow> shard \<Rightarrow> int \<Rightarrow> files \<Rightarrow> files" where
  "put_claim j n s t fs = fs\<lparr>claims := dict_set (j, n) (s, t) (claims fs)\<rparr>"

definition unlink :: "job \<Rightarrow> nat \<Rightarrow> files \<Rightarrow> files" where
  "unlink j n fs = fs\<lparr>claims := AList.delete (j, n) (claims fs)\<rparr>"

definition close_item :: "job \<Rightarrow> files \<Rightarrow> files" where
  "close_item j fs = fs\<lparr>given_up := List.insert j (given_up fs)\<rparr>"

definition settled :: "files \<Rightarrow> job \<Rightarrow> bool" where
  "settled fs j \<longleftrightarrow> graded fs \<or> j \<in> set (given_up fs)"

definition stale :: "int \<Rightarrow> files \<Rightarrow> job \<Rightarrow> nat \<Rightarrow> bool" where
  "stale now fs j n \<longleftrightarrow> (case claim_at fs j n of None \<Rightarrow> False | Some (_, t) \<Rightarrow> stale_s < now - t)"

definition live_elsewhere :: "int \<Rightarrow> files \<Rightarrow> job \<Rightarrow> job list" where
  "live_elsewhere now fs j =
     sort (map (fst \<circ> fst) (filter (\<lambda>((k, _), (_, t)). k \<noteq> j \<and> \<not> stale_s < now - t) (claims fs)))"

text \<open>The heartbeat's \<^verbatim>\<open>os.utime\<close>, its error on a missing file suppressed.\<close>

definition touch :: "job \<Rightarrow> nat \<Rightarrow> int \<Rightarrow> files \<Rightarrow> files" where
  "touch j n now fs = (case claim_at fs j n of None \<Rightarrow> fs | Some (s, _) \<Rightarrow> put_claim j n s now fs)"

text \<open>\<^verbatim>\<open>finish\<close>: the claim becomes the done marker; without the claim the marker is created.\<close>

definition finish :: "job \<Rightarrow> nat \<Rightarrow> files \<Rightarrow> files" where
  "finish j n fs = (unlink j n fs)\<lparr>graded := True\<rparr>"

section \<open>Shards\<close>

text \<open>Where a shard's code stands on the item: between items, then inside \<^verbatim>\<open>take\<close> (the look at the other
  jobs, the attempt, the test of another's claim, the recheck of a claim just created), holding the
  claim, or between closing the item and removing the claim. A dead shard stays dead.\<close>

datatype pc =
    Idle
  | Look
  | Attempt nat
  | Test nat
  | Created nat
  | Recheck nat "job list"
  | Holding nat
  | Closing nat
  | Dead

fun advance :: "job \<Rightarrow> shard \<Rightarrow> int \<Rightarrow> files \<Rightarrow> pc \<Rightarrow> files \<times> pc" where
  "advance j s now fs Idle = (fs, if settled fs j then Idle else Look)"
| "advance j s now fs Look = (fs, if live_elsewhere now fs j \<noteq> [] then Idle else Attempt 0)"
| "advance j s now fs (Attempt n) =
     (if n < max_claims
      then case claim_at fs j n of
             None \<Rightarrow> (put_claim j n s now fs, Created n)
           | Some _ \<Rightarrow> (fs, Test n)
      else (close_item j fs, Idle))"
| "advance j s now fs (Test n) = (fs, if stale now fs j n then Attempt (Suc n) else Idle)"
| "advance j s now fs (Created n) = (fs, Recheck n (live_elsewhere now fs j))"
| "advance j s now fs (Recheck n rivals) =
     (if settled fs j \<or> list_ex (\<lambda>rival. rival < j) rivals then (unlink j n fs, Idle) else (fs, Holding n))"
| "advance j s now fs (Holding n) = (fs, Holding n)"
| "advance j s now fs (Closing n) = (unlink j n fs, Idle)"
| "advance j s now fs Dead = (fs, Dead)"

text \<open>The claim file a shard has created and not removed.\<close>

fun claimed :: "pc \<Rightarrow> nat option" where
  "claimed (Created n) = Some n"
| "claimed (Recheck n _) = Some n"
| "claimed (Holding n) = Some n"
| "claimed (Closing n) = Some n"
| "claimed _ = None"

record world =
  disk :: files
  clock :: int
  shards :: "(job \<times> pc) list"

definition job_of :: "world \<Rightarrow> shard \<Rightarrow> job" where
  "job_of w s = fst (shards w ! s)"

definition pc_of :: "world \<Rightarrow> shard \<Rightarrow> pc" where
  "pc_of w s = snd (shards w ! s)"

definition timely :: "world \<Rightarrow> bool" where
  "timely w \<longleftrightarrow> list_all (\<lambda>(j, p). case claimed p of None \<Rightarrow> True | Some n \<Rightarrow> \<not> stale (clock w) (disk w) j n) (shards w)"

datatype event = Advance shard | Beat shard | Finish shard | Abandon shard | Die shard | Tick nat

definition set_shard :: "world \<Rightarrow> shard \<Rightarrow> files \<Rightarrow> pc \<Rightarrow> world" where
  "set_shard w s fs p = w\<lparr>disk := fs, shards := (shards w)[s := (job_of w s, p)]\<rparr>"

fun exec :: "event \<Rightarrow> world \<Rightarrow> world option" where
  "exec (Advance s) w =
     (if s < length (shards w)
      then let (fs, p) = advance (job_of w s) s (clock w) (disk w) (pc_of w s) in Some (set_shard w s fs p)
      else None)"
| "exec (Beat s) w =
     (if s < length (shards w)
      then case pc_of w s of
             Holding n \<Rightarrow> Some (set_shard w s (touch (job_of w s) n (clock w) (disk w)) (Holding n))
           | _ \<Rightarrow> None
      else None)"
| "exec (Finish s) w =
     (if s < length (shards w)
      then case pc_of w s of
             Holding n \<Rightarrow> Some (set_shard w s (finish (job_of w s) n (disk w)) Idle)
           | _ \<Rightarrow> None
      else None)"
| "exec (Abandon s) w =
     (if s < length (shards w)
      then case pc_of w s of
             Holding n \<Rightarrow> Some (set_shard w s (close_item (job_of w s) (disk w)) (Closing n))
           | _ \<Rightarrow> None
      else None)"
| "exec (Die s) w = (if s < length (shards w) then Some (set_shard w s (disk w) Dead) else None)"
| "exec (Tick d) w = (let w' = w\<lparr>clock := clock w + int d\<rparr> in if timely w' then Some w' else None)"

definition start :: "job list \<Rightarrow> world" where
  "start jobs = \<lparr>disk = no_files, clock = 0, shards = map (\<lambda>j. (j, Idle)) jobs\<rparr>"

inductive reachable :: "job list \<Rightarrow> world \<Rightarrow> bool" for jobs where
  init: "reachable jobs (start jobs)"
| step: "reachable jobs w \<Longrightarrow> exec e w = Some w' \<Longrightarrow> reachable jobs w'"

fun run :: "event list \<Rightarrow> world \<Rightarrow> world option" where
  "run [] w = Some w"
| "run (e # es) w = (case exec e w of None \<Rightarrow> None | Some w' \<Rightarrow> run es w')"

lemma reachable_run: "reachable jobs w \<Longrightarrow> run es w = Some w' \<Longrightarrow> reachable jobs w'"
  by (induction es arbitrary: w) (auto split: option.splits intro: reachable.step)

section \<open>The protocol invariant\<close>

named_theorems claim_simps \<open>claims read after a change of the files\<close>

lemma claim_at_simps [claim_simps, simp]:
  "claim_at (put_claim j n s t fs) j' n' = (if (j', n') = (j, n) then Some (s, t) else claim_at fs j' n')"
  "claim_at (unlink j n fs) j' n' = (if (j', n') = (j, n) then None else claim_at fs j' n')"
  "claim_at (close_item k fs) j' n' = claim_at fs j' n'"
  "claim_at (finish j n fs) j' n' = (if (j', n') = (j, n) then None else claim_at fs j' n')"
  by (simp_all add: claim_at_def put_claim_def unlink_def close_item_def finish_def update_conv' delete_conv')

lemma claim_at_no_files [simp]: "claim_at no_files j n = None"
  by (simp add: claim_at_def no_files_def)

lemma set_shard_simps [simp]:
  "disk (set_shard w s fs p) = fs" "clock (set_shard w s fs p) = clock w"
  "length (shards (set_shard w s fs p)) = length (shards w)"
  "s < length (shards w) \<Longrightarrow> job_of (set_shard w s fs p) s' = job_of w s'"
  "s < length (shards w) \<Longrightarrow> pc_of (set_shard w s fs p) s' = (if s' = s then p else pc_of w s')"
  by (auto simp: set_shard_def job_of_def pc_of_def nth_list_update)

text \<open>The attempts a shard has passed over because their claims were stale.\<close>

fun passed :: "pc \<Rightarrow> nat" where
  "passed (Attempt n) = n"
| "passed (Test n) = n"
| "passed (Created n) = n"
| "passed (Recheck n _) = n"
| "passed (Holding n) = n"
| "passed (Closing n) = n"
| "passed _ = 0"

definition dead_claim :: "world \<Rightarrow> job \<Rightarrow> nat \<Rightarrow> bool" where
  "dead_claim w j m \<longleftrightarrow> (\<exists>o' t. claim_at (disk w) j m = Some (o', t) \<and> stale_s < clock w - t \<and>
     o' < length (shards w) \<and> pc_of w o' = Dead)"

definition own_claim :: "world \<Rightarrow> shard \<Rightarrow> bool" where
  "own_claim w s \<longleftrightarrow> (\<forall>n. claimed (pc_of w s) = Some n \<longrightarrow>
     (\<exists>t. claim_at (disk w) (job_of w s) n = Some (s, t) \<and> \<not> stale_s < clock w - t))"

definition claims_owned :: "world \<Rightarrow> bool" where
  "claims_owned w \<longleftrightarrow> (\<forall>j n o' t. claim_at (disk w) j n = Some (o', t) \<longrightarrow>
     o' < length (shards w) \<and> job_of w o' = j \<and> (claimed (pc_of w o') = Some n \<or> pc_of w o' = Dead))"

definition claim_inv :: "world \<Rightarrow> bool" where
  "claim_inv w \<longleftrightarrow> claims_owned w \<and> (\<forall>s < length (shards w). own_claim w s \<and>
     (\<forall>m < passed (pc_of w s). dead_claim w (job_of w s) m))"

lemma claim_invD:
  assumes "claim_inv w" "s < length (shards w)"
  shows "claims_owned w" "own_claim w s" "\<And>m. m < passed (pc_of w s) \<Longrightarrow> dead_claim w (job_of w s) m"
  using assms by (auto simp: claim_inv_def)

lemma claim_inv_set_shard:
  assumes inv: "claim_inv w" and s: "s < length (shards w)"
    and keep: "\<And>j n o' t. claim_at (disk w) j n = Some (o', t) \<Longrightarrow> o' \<noteq> s \<or> p = Dead \<Longrightarrow> claim_at fs j n = Some (o', t)"
    and new: "\<And>j n o' t. claim_at fs j n = Some (o', t) \<Longrightarrow>
      claim_at (disk w) j n = Some (o', t) \<and> (o' \<noteq> s \<or> p = Dead) \<or> o' = s \<and> j = job_of w s \<and> claimed p = Some n"
    and own: "\<And>n. claimed p = Some n \<Longrightarrow> \<exists>t. claim_at fs (job_of w s) n = Some (s, t) \<and> \<not> stale_s < clock w - t"
    and low: "\<And>m. m < passed p \<Longrightarrow> dead_claim w (job_of w s) m"
    and dead: "pc_of w s = Dead \<Longrightarrow> p = Dead"
  shows "claim_inv (set_shard w s fs p)"
proof -
  let ?w = "set_shard w s fs p"
  have D: "dead_claim ?w j m" if dc: "dead_claim w j m" for j m
  proof -
    from dc obtain o' t where o: "claim_at (disk w) j m = Some (o', t)" "stale_s < clock w - t"
      "o' < length (shards w)" "pc_of w o' = Dead"
      by (auto simp: dead_claim_def)
    then have "o' \<noteq> s \<or> p = Dead" using dead by auto
    with o keep s dead show ?thesis by (auto simp: dead_claim_def)
  qed
  have "claims_owned ?w"
    unfolding claims_owned_def
  proof (intro allI impI)
    fix j n o' t
    assume "claim_at (disk ?w) j n = Some (o', t)"
    then show "o' < length (shards ?w) \<and> job_of ?w o' = j \<and> (claimed (pc_of ?w o') = Some n \<or> pc_of ?w o' = Dead)"
      using new [of j n o' t] claim_invD(1) [OF inv s] s by (auto simp: claims_owned_def)
  qed
  moreover have "own_claim ?w s'" if "s' < length (shards w)" for s'
    using claim_invD(2) [OF inv that] own keep s that by (auto simp: own_claim_def)
  moreover have "dead_claim ?w (job_of ?w s') m" if "s' < length (shards w)" "m < passed (pc_of ?w s')" for s' m
    using that D claim_invD(3) [OF inv that(1), of m] low s by (auto split: if_splits)
  ultimately show ?thesis by (simp add: claim_inv_def)
qed

text \<open>A stale claim belongs to a dead shard.\<close>

lemma stale_dead:
  assumes "claim_inv w" "stale (clock w) (disk w) j n"
  shows "dead_claim w j n"
proof -
  obtain o' t where c: "claim_at (disk w) j n = Some (o', t)" "stale_s < clock w - t"
    using assms(2) by (auto simp: stale_def split: option.splits)
  then have o: "o' < length (shards w)" "job_of w o' = j" "claimed (pc_of w o') = Some n \<or> pc_of w o' = Dead"
    using assms(1) by (auto simp: claim_inv_def claims_owned_def)
  then have "pc_of w o' = Dead"
    using claim_invD(2) [OF assms(1) o(1)] c by (auto simp: own_claim_def)
  with c o show ?thesis by (auto simp: dead_claim_def)
qed

lemma inv_same_files:
  assumes inv: "claim_inv w" and s: "s < length (shards w)" and "pc_of w s \<noteq> Dead"
    and "claimed p = claimed (pc_of w s)" and "\<And>m. m < passed p \<Longrightarrow> dead_claim w (job_of w s) m"
    and same: "\<And>j n. claim_at fs j n = claim_at (disk w) j n"
  shows "claim_inv (set_shard w s fs p)"
proof (rule claim_inv_set_shard [OF inv s])
  fix j n o' t
  assume "claim_at fs j n = Some (o', t)"
  then show "claim_at (disk w) j n = Some (o', t) \<and> (o' \<noteq> s \<or> p = Dead) \<or> o' = s \<and> j = job_of w s \<and> claimed p = Some n"
    using claim_invD(1) [OF inv s] assms(3,4) by (auto simp: claims_owned_def same)
qed (use assms claim_invD(2) [OF inv s] in \<open>auto simp: own_claim_def same\<close>)

lemma inv_unlink:
  assumes inv: "claim_inv w" and s: "s < length (shards w)" and "claimed (pc_of w s) = Some n"
    and "\<And>j n. claim_at fs j n = claim_at (unlink (job_of w s) n' (disk w)) j n" and "n' = n"
  shows "claim_inv (set_shard w s fs Idle)"
proof (rule claim_inv_set_shard [OF inv s])
  obtain t where own: "claim_at (disk w) (job_of w s) n = Some (s, t)"
    using claim_invD(2) [OF inv s] assms(3) by (auto simp: own_claim_def)
  fix j m o' t'
  show "claim_at fs j m = Some (o', t')"
    if "claim_at (disk w) j m = Some (o', t')" "o' \<noteq> s \<or> Idle = Dead"
    using that own assms(4,5) by auto
  show "claim_at (disk w) j m = Some (o', t') \<and> (o' \<noteq> s \<or> Idle = Dead) \<or> o' = s \<and> j = job_of w s \<and> claimed Idle = Some m"
    if "claim_at fs j m = Some (o', t')"
    using that claim_invD(1) [OF inv s] assms(3-5) by (fastforce simp: claims_owned_def split: if_splits)
qed (use assms(3) in auto)

lemma inv_advance:
  assumes inv: "claim_inv w" and s: "s < length (shards w)"
    and a: "advance (job_of w s) s (clock w) (disk w) (pc_of w s) = (fs, p)"
  shows "claim_inv (set_shard w s fs p)"
proof (cases "pc_of w s")
  case (Attempt n)
  show ?thesis
  proof (cases "n < max_claims \<and> claim_at (disk w) (job_of w s) n = None")
    case True
    with a Attempt have fs: "fs = put_claim (job_of w s) n s (clock w) (disk w)" "p = Created n" by simp_all
    show ?thesis
    proof (rule claim_inv_set_shard [OF inv s])
      fix j m o' t
      assume "claim_at fs j m = Some (o', t)"
      then show "claim_at (disk w) j m = Some (o', t) \<and> (o' \<noteq> s \<or> p = Dead) \<or> o' = s \<and> j = job_of w s \<and> claimed p = Some m"
        using claim_invD(1) [OF inv s] Attempt fs by (fastforce simp: claims_owned_def split: if_splits)
    qed (use True fs Attempt claim_invD(3) [OF inv s] in \<open>auto simp: stale_s_def split: if_splits\<close>)
  next
    case False
    with a Attempt have "p = Test n \<and> fs = disk w \<or> p = Idle \<and> fs = close_item (job_of w s) (disk w)"
      by (auto split: if_splits option.splits)
    then show ?thesis
      using Attempt claim_invD(3) [OF inv s] by (intro inv_same_files [OF inv s]) auto
  qed
next
  case (Test n)
  have "dead_claim w (job_of w s) m" if "p = Attempt (Suc n)" "m < Suc n" for m
    using that a Test claim_invD(3) [OF inv s, of m] stale_dead [OF inv, of "job_of w s" n]
    by (auto simp: less_Suc_eq split: if_splits)
  then show ?thesis using a Test by (intro inv_same_files [OF inv s]) (auto split: if_splits)
next
  case (Recheck n rivals)
  show ?thesis
  proof (cases "settled (disk w) (job_of w s) \<or> list_ex (\<lambda>rival. rival < job_of w s) rivals")
    case True
    with a Recheck show ?thesis by (auto intro!: inv_unlink [OF inv s])
  next
    case False
    with a Recheck show ?thesis
      using claim_invD(3) [OF inv s] by (intro inv_same_files [OF inv s]) auto
  qed
next
  case (Closing n)
  with a show ?thesis by (auto intro!: inv_unlink [OF inv s])
next
  case Dead
  with a show ?thesis
    by (intro claim_inv_set_shard [OF inv s]) (use claim_invD(1) [OF inv s] in auto)
qed (use a claim_invD(3) [OF inv s] in \<open>auto intro!: inv_same_files [OF inv s] split: if_splits\<close>)

lemma inv_touch:
  assumes inv: "claim_inv w" and s: "s < length (shards w)" and p: "pc_of w s = Holding n"
  shows "claim_inv (set_shard w s (touch (job_of w s) n (clock w) (disk w)) (Holding n))"
proof -
  obtain t where own: "claim_at (disk w) (job_of w s) n = Some (s, t)"
    using claim_invD(2) [OF inv s] p by (auto simp: own_claim_def)
  then have fs: "touch (job_of w s) n (clock w) (disk w) = put_claim (job_of w s) n s (clock w) (disk w)"
    by (simp add: touch_def)
  show ?thesis
    unfolding fs
  proof (rule claim_inv_set_shard [OF inv s])
    fix j m o' t'
    assume "claim_at (put_claim (job_of w s) n s (clock w) (disk w)) j m = Some (o', t')"
    then show "claim_at (disk w) j m = Some (o', t') \<and> (o' \<noteq> s \<or> Holding n = Dead) \<or>
        o' = s \<and> j = job_of w s \<and> claimed (Holding n) = Some m"
      using claim_invD(1) [OF inv s] p by (fastforce simp: claims_owned_def split: if_splits)
  qed (use own p claim_invD(3) [OF inv s] in \<open>auto simp: stale_s_def\<close>)
qed

lemma inv_tick:
  assumes "claim_inv w" "timely (w\<lparr>clock := clock w + int d\<rparr>)"
  shows "claim_inv (w\<lparr>clock := clock w + int d\<rparr>)"
proof -
  let ?w = "w\<lparr>clock := clock w + int d\<rparr>"
  have dc: "dead_claim ?w j m" if "dead_claim w j m" for j m
    using that by (fastforce simp: dead_claim_def pc_of_def)
  have "own_claim ?w s" if s: "s < length (shards w)" for s
  proof (cases "claimed (pc_of w s)")
    case (Some n)
    then obtain t where "claim_at (disk w) (job_of w s) n = Some (s, t)"
      using claim_invD(2) [OF assms(1) s] by (auto simp: own_claim_def)
    moreover have "\<not> stale (clock ?w) (disk w) (job_of w s) n"
      using assms(2) s Some by (auto simp: timely_def list_all_length job_of_def pc_of_def split_beta)
    ultimately show ?thesis using Some by (simp add: own_claim_def stale_def job_of_def pc_of_def)
  qed (simp add: own_claim_def pc_of_def)
  with assms(1) dc show ?thesis
    by (auto simp: claim_inv_def claims_owned_def job_of_def pc_of_def)
qed

lemma inv_exec:
  assumes inv: "claim_inv w" and "exec e w = Some w'"
  shows "claim_inv w'"
proof (cases e)
  case (Advance s)
  then show ?thesis using assms inv_advance [OF inv, of s] by (auto split: if_splits prod.splits)
next
  case (Beat s)
  then show ?thesis using assms inv_touch [OF inv, of s] by (auto split: if_splits pc.splits)
next
  case (Finish s)
  then show ?thesis using assms by (auto intro!: inv_unlink [OF inv] split: if_splits pc.splits)
next
  case (Abandon s)
  then show ?thesis
    using assms claim_invD(3) [OF inv, of s]
    by (auto intro!: inv_same_files [OF inv] split: if_splits pc.splits)
next
  case (Die s)
  then have "s < length (shards w)" "w' = set_shard w s (disk w) Dead"
    using assms(2) by (auto split: if_splits)
  then show ?thesis by (auto intro!: claim_inv_set_shard [OF inv])
next
  case (Tick d)
  then show ?thesis using assms inv_tick [OF inv, of d] by (auto simp: Let_def split: if_splits)
qed

lemma reachable_inv: "reachable jobs w \<Longrightarrow> claim_inv w"
proof (induction rule: reachable.induct)
  case init
  show ?case
    by (auto simp: claim_inv_def claims_owned_def own_claim_def start_def pc_of_def job_of_def)
qed (rule inv_exec)

section \<open>What the protocol guarantees\<close>

lemma claimed_bound:
  "reachable jobs w \<Longrightarrow> s < length (shards w) \<Longrightarrow> claimed (pc_of w s) = Some n \<Longrightarrow> n < max_claims"
proof (induction arbitrary: s n rule: reachable.induct)
  case init
  then show ?case by (simp add: start_def pc_of_def)
next
  case (step w e w')
  have adv: "claimed p = Some n \<Longrightarrow> n < max_claims"
    if "advance (job_of w t) t (clock w) (disk w) (pc_of w t) = (fs, p)" "t < length (shards w)" for t fs p
    using that step.IH [of t n] by (cases "pc_of w t") (auto split: if_splits option.splits)
  show ?case
    using step.prems step.hyps(2) step.IH
    by (cases e) (auto simp: Let_def pc_of_def [of "_\<lparr>clock := _\<rparr>"] pc_of_def [symmetric] dest: adv
        split: if_splits prod.splits pc.splits)
qed

text \<open>C10. Two shards of a job never hold the same item at once: in every reachable state, whatever the
  interleaving of their filesystem operations, heartbeats and deaths, at most one shard of a job is
  past winning its claim.\<close>

theorem one_holder_per_job:
  assumes "reachable jobs w" and "s < length (shards w)" and "s' < length (shards w)"
    and "job_of w s = job_of w s'" and "pc_of w s = Holding n" and "pc_of w s' = Holding n'"
  shows "s = s'"
proof -
  note inv = reachable_inv [OF assms(1)]
  from claim_invD(2) [OF inv assms(2)] claim_invD(2) [OF inv assms(3)] assms(5,6)
  obtain t t' where c: "claim_at (disk w) (job_of w s) n = Some (s, t)" "\<not> stale_s < clock w - t"
    "claim_at (disk w) (job_of w s') n' = Some (s', t')" "\<not> stale_s < clock w - t'"
    by (auto simp: own_claim_def)
  have "\<not> n < n'" using claim_invD(3) [OF inv assms(3), of n] c assms(4,6) by (auto simp: dead_claim_def)
  moreover have "\<not> n' < n" using claim_invD(3) [OF inv assms(2), of n'] c assms(4,5) by (auto simp: dead_claim_def)
  ultimately have "n = n'" by linarith
  with c(1,3) assms(4) have "Some (s, t) = Some (s', t')" by metis
  then show ?thesis by simp
qed

definition takeover_events :: "event list" where
  "takeover_events =
     [Advance 0, Advance 0, Advance 0, Advance 0, Advance 0, Die 0, Tick 301,
      Advance 1, Advance 1, Advance 1, Advance 1, Advance 1, Advance 1, Advance 1]"

theorem one_holder_per_job_witness:
  "\<exists>w. run takeover_events (start [''j'', ''j'']) = Some w \<and> pc_of w 1 = Holding 1 \<and>
     (\<forall>n. pc_of w 0 \<noteq> Holding n)"
proof -
  have "(case run takeover_events (start [''j'', ''j'']) of None \<Rightarrow> False | Some w \<Rightarrow>
      pc_of w 1 = Holding 1 \<and> length (shards w) = 2 \<and> job_of w 0 = job_of w 1)" by code_simp
  then obtain w where w: "run takeover_events (start [''j'', ''j'']) = Some w" "pc_of w 1 = Holding 1"
      "length (shards w) = 2" "job_of w 0 = job_of w 1"
    by (auto split: option.splits)
  have "reachable [''j'', ''j''] w" by (rule reachable_run [OF reachable.init w(1)])
  from one_holder_per_job [OF this, of 0 1 _ 1] w have "pc_of w 0 \<noteq> Holding n" for n by force
  with w show ?thesis by blast
qed

text \<open>An item is given up for dying holders only: when a shard has run out of attempts and closes the
  item, every attempt's claim is a dead shard's, and no shard of the job holds the item.\<close>

theorem give_up_after_deaths:
  assumes "reachable jobs w" and "s < length (shards w)" and "pc_of w s = Attempt n" and "max_claims \<le> n"
    and "m < max_claims" and "s' < length (shards w)" and "job_of w s' = job_of w s"
  shows "(\<exists>o' t. claim_at (disk w) (job_of w s) m = Some (o', t) \<and> pc_of w o' = Dead)
    \<and> pc_of w s' \<noteq> Holding k"
proof
  note inv = reachable_inv [OF assms(1)]
  have dead: "dead_claim w (job_of w s) i" if "i < max_claims" for i
    using claim_invD(3) [OF inv assms(2), of i] that assms(3,4) by simp
  from dead [OF assms(5)] show "\<exists>o' t. claim_at (disk w) (job_of w s) m = Some (o', t) \<and> pc_of w o' = Dead"
    by (auto simp: dead_claim_def)
  show "pc_of w s' \<noteq> Holding k"
  proof
    assume h: "pc_of w s' = Holding k"
    then have "k < max_claims" using claimed_bound [OF assms(1,6)] by simp
    from dead [OF this] claim_invD(2) [OF inv assms(6)] h assms(7) show False
      by (auto simp: own_claim_def dead_claim_def)
  qed
qed

definition dying_holder :: "shard \<Rightarrow> nat \<Rightarrow> event list" where
  "dying_holder s k = replicate (5 + 2 * k) (Advance s) @ [Die s, Tick 301]"

theorem give_up_after_deaths_witness:
  "\<exists>w. run (dying_holder 0 0 @ dying_holder 1 1 @ dying_holder 2 2 @ replicate 8 (Advance 3))
       (start [''j'', ''j'', ''j'', ''j'']) = Some w \<and> pc_of w 3 = Attempt 3 \<and>
     (\<exists>o' t. claim_at (disk w) ''j'' 2 = Some (o', t) \<and> pc_of w o' = Dead)"
proof -
  let ?es = "dying_holder 0 0 @ dying_holder 1 1 @ dying_holder 2 2 @ replicate 8 (Advance 3)"
  have "(case run ?es (start [''j'', ''j'', ''j'', ''j'']) of None \<Rightarrow> False | Some w \<Rightarrow>
      pc_of w 3 = Attempt 3 \<and> length (shards w) = 4 \<and> job_of w 3 = ''j'')" by code_simp
  then obtain w where w: "run ?es (start [''j'', ''j'', ''j'', ''j'']) = Some w" "pc_of w 3 = Attempt 3"
      "length (shards w) = 4" "job_of w 3 = ''j''"
    by (auto split: option.splits)
  have "reachable [''j'', ''j'', ''j'', ''j''] w" by (rule reachable_run [OF reachable.init w(1)])
  from give_up_after_deaths [OF this _ w(2), of 2 3] w show ?thesis by (simp add: max_claims_def)
qed

lemma advance_settled:
  "advance k t c fs p = (fs', q) \<Longrightarrow> settled fs j \<Longrightarrow> settled fs' j"
  by (cases p) (auto simp: settled_def put_claim_def unlink_def close_item_def split: if_splits option.splits)

lemma advance_wins:
  "advance j t c fs p = (fs', Holding n) \<Longrightarrow> settled fs j \<Longrightarrow> p = Holding n"
  by (cases p) (auto split: if_splits option.splits)

lemma exec_settled: "exec e w = Some w' \<Longrightarrow> settled (disk w) j \<Longrightarrow> settled (disk w') j"
  by (cases e)
    (auto simp: Let_def touch_def put_claim_def finish_def unlink_def close_item_def
      dest: advance_settled split: if_splits prod.splits pc.splits option.splits; simp add: settled_def)+

text \<open>A settled item is never won again: once the item is graded, or given up by a job, every step
  keeps it so and no shard (of that job) comes to hold it.\<close>

theorem settled_never_won:
  assumes "exec e w = Some w'" and "settled (disk w) j"
    and "s < length (shards w)" and "job_of w s = j" and "pc_of w' s = Holding n"
  shows "settled (disk w') j \<and> pc_of w s = Holding n"
proof
  show "settled (disk w') j" by (rule exec_settled [OF assms(1,2)])
  show "pc_of w s = Holding n"
  proof (cases e)
    case (Tick d)
    then show ?thesis using assms(1,5) by (auto simp: Let_def pc_of_def split: if_splits)
  next
    case (Advance t)
    then show ?thesis using assms
      by (auto split: if_splits prod.splits dest: advance_wins)
  qed (use assms in \<open>auto split: if_splits pc.splits\<close>)
qed

theorem settled_never_won_witness:
  "\<exists>w. exec (Advance 0) \<lparr>disk = no_files\<lparr>graded := True\<rparr>, clock = 0, shards = [(''j'', Holding 0)]\<rparr> = Some w
     \<and> settled (disk w) ''j''"
  using settled_never_won [of "Advance 0" "\<lparr>disk = no_files\<lparr>graded := True\<rparr>, clock = 0, shards = [(''j'', Holding 0)]\<rparr>"
      _ "''j''" 0 0]
  by (simp add: settled_def job_of_def pc_of_def set_shard_def)

text \<open>Across jobs the claims do not exclude: two shards of different jobs can both hold the item with
  live claims. The shard of the earlier job name looks for other jobs before the later job's claim
  exists, and does not back off when it sees it; the later job's recheck runs before the earlier
  job's claim exists.\<close>

theorem two_jobs_can_hold:
  "\<exists>w. reachable [''a'', ''b''] w \<and> pc_of w 0 = Holding 0 \<and> pc_of w 1 = Holding 0
     \<and> live_elsewhere (clock w) (disk w) ''a'' = [''b''] \<and> live_elsewhere (clock w) (disk w) ''b'' = [''a'']"
proof -
  let ?es = "[Advance 0, Advance 0] @ replicate 5 (Advance 1) @ replicate 3 (Advance 0)"
  have "(case run ?es (start [''a'', ''b'']) of None \<Rightarrow> False | Some w \<Rightarrow>
      pc_of w 0 = Holding 0 \<and> pc_of w 1 = Holding 0 \<and> live_elsewhere (clock w) (disk w) ''a'' = [''b'']
      \<and> live_elsewhere (clock w) (disk w) ''b'' = [''a''])" by code_simp
  then obtain w where w: "run ?es (start [''a'', ''b'']) = Some w"
    "pc_of w 0 = Holding 0 \<and> pc_of w 1 = Holding 0 \<and> live_elsewhere (clock w) (disk w) ''a'' = [''b'']
      \<and> live_elsewhere (clock w) (disk w) ''b'' = [''a'']"
    by (auto split: option.splits)
  with reachable_run [OF reachable.init w(1)] show ?thesis by blast
qed

end
