(* ===== verification/Mpi_Sizing.thy ===== *)
theory Mpi_Sizing
  imports Prelude Complex_Main
begin

text \<open>
  The problem sizes of the distributed track (\<^verbatim>\<open>harness/mpi_sizing.py\<close>): strong and weak scaling of a
  map of size symbols. Size values are integers. The float \<open>round(n * r ** (1.0 / k))\<close> of a rank count
  that is not a perfect power is the parameter \<open>grow n r k\<close>; \<open>round(n / q)\<close> is rounding half to even
  of the exact quotient (exact for sizes below 2 to the 53), and \<^verbatim>\<open>work_ratio\<close> is over the reals.
\<close>

section \<open>Integer roots\<close>

text \<open>The bisection of \<^verbatim>\<open>integer_kth_root\<close>.\<close>

function root_search :: "int \<Rightarrow> nat \<Rightarrow> int \<Rightarrow> int \<Rightarrow> int" where
  "root_search v k lo hi =
     (if lo < hi
      then let mid = (lo + hi) div 2
           in if mid ^ k < v then root_search v k (mid + 1) hi else root_search v k lo mid
      else lo)"
  by pat_completeness auto

termination by (relation "measure (\<lambda>(v, k, lo, hi). nat (hi - lo))") auto

declare root_search.simps [simp del]

definition integer_kth_root :: "int \<Rightarrow> int \<Rightarrow> int option" where
  "integer_kth_root v k =
     (if v < 1 \<or> k < 1 then None
      else let lo = root_search v (nat k) 1 v in if lo ^ nat k = v then Some lo else None)"

lemma root_search_least:
  assumes "lo \<le> hi" "1 \<le> lo" "v \<le> hi ^ k" "\<And>x. 0 \<le> x \<Longrightarrow> x < lo \<Longrightarrow> x ^ k < v"
  shows "v \<le> root_search v k lo hi ^ k \<and> lo \<le> root_search v k lo hi \<and>
    (\<forall>x. 0 \<le> x \<longrightarrow> x < root_search v k lo hi \<longrightarrow> x ^ k < v)"
  using assms
proof (induction v k lo hi rule: root_search.induct)
  case (1 v k lo hi)
  show ?case
  proof (cases "lo < hi")
    case True
    define mid where "mid = (lo + hi) div 2"
    have mid: "lo \<le> mid" "mid < hi" using True by (auto simp: mid_def)
    show ?thesis
    proof (cases "mid ^ k < v")
      case small: True
      have below: "x ^ k < v" if "0 \<le> x" "x < mid + 1" for x
        using power_mono [of x mid k] that small by simp
      then have "v \<le> root_search v k (mid + 1) hi ^ k \<and> mid + 1 \<le> root_search v k (mid + 1) hi \<and>
          (\<forall>x. 0 \<le> x \<longrightarrow> x < root_search v k (mid + 1) hi \<longrightarrow> x ^ k < v)"
        using "1.prems"(2,3) mid by (intro "1.IH"(1) [OF True mid_def small] below) simp_all
      moreover have "root_search v k lo hi = root_search v k (mid + 1) hi"
        using True small by (subst root_search.simps) (simp add: mid_def)
      ultimately show ?thesis using mid by simp
    next
      case big: False
      have "v \<le> root_search v k lo mid ^ k \<and> lo \<le> root_search v k lo mid \<and>
          (\<forall>x. 0 \<le> x \<longrightarrow> x < root_search v k lo mid \<longrightarrow> x ^ k < v)"
        using "1.prems"(2,4) mid big by (intro "1.IH"(2) [OF True mid_def big]) simp_all
      moreover have "root_search v k lo hi = root_search v k lo mid"
        using True big by (subst root_search.simps) (simp add: mid_def)
      ultimately show ?thesis by simp
    qed
  next
    case False
    then have "root_search v k lo hi = lo" by (subst root_search.simps) simp
    then show ?thesis using "1.prems" False by simp
  qed
qed

text \<open>\<^verbatim>\<open>integer_kth_root\<close> is exact: it returns \<open>m\<close> precisely when \<open>m\<close> is a positive integer with
  \<open>m ** k == value\<close>, and None precisely when no such integer exists.\<close>

theorem integer_kth_root_iff:
  assumes "1 \<le> v" and "1 \<le> k"
  shows "integer_kth_root v k = Some m \<longleftrightarrow> 1 \<le> m \<and> m ^ nat k = v"
proof -
  let ?r = "root_search v (nat k) 1 v"
  have "v \<le> v ^ nat k" using assms by (intro self_le_power) auto
  moreover have "x ^ nat k < v" if "0 \<le> x" "x < 1" for x :: int
  proof -
    have "x = 0" using that by simp
    then show ?thesis using assms by (simp add: zero_power)
  qed
  ultimately have r: "v \<le> ?r ^ nat k" "1 \<le> ?r" "\<And>x. 0 \<le> x \<Longrightarrow> x < ?r \<Longrightarrow> x ^ nat k < v"
    using root_search_least [of 1 v v "nat k"] assms by auto
  have "m = ?r" if "1 \<le> m" "m ^ nat k = v"
  proof (rule antisym)
    show "?r \<le> m" using r(3) [of m] that by (cases "m < ?r") auto
    show "m \<le> ?r"
    proof (rule ccontr)
      assume "\<not> m \<le> ?r"
      then have "?r ^ nat k < m ^ nat k" using r(2) assms by (intro power_strict_mono) auto
      then show False using r(1) that by simp
    qed
  qed
  then show ?thesis using assms r(2) by (auto simp: integer_kth_root_def Let_def)
qed

theorem integer_kth_root_iff_witness: "integer_kth_root 729 3 = Some 9 \<and> integer_kth_root 12 2 \<noteq> Some 3"
  using integer_kth_root_iff [of 729 3 9] integer_kth_root_iff [of 12 2 3] by simp

section \<open>Rounding to a quantum\<close>

definition round_half_even :: "int \<Rightarrow> int \<Rightarrow> int" where
  "round_half_even a b =
     (let q = a div b; r = a mod b
      in if 2 * r < b then q else if b < 2 * r then q + 1 else if even q then q else q + 1)"

definition aligned_multiple :: "int \<Rightarrow> int \<Rightarrow> int" where
  "aligned_multiple v quantum = max 1 (round_half_even v quantum) * quantum"

lemma round_half_even_near:
  assumes "0 < b"
  shows "2 * \<bar>round_half_even a b * b - a\<bar> \<le> b"
proof -
  have m: "(a div b) * b = a - a mod b" by (simp add: minus_mod_eq_div_mult)
  have "0 \<le> a mod b" "a mod b < b" using assms by simp_all
  moreover have "round_half_even a b * b - a = - (a mod b) \<and> 2 * (a mod b) \<le> b \<or>
      round_half_even a b * b - a = b - a mod b \<and> b \<le> 2 * (a mod b)"
    by (auto simp: round_half_even_def Let_def m distrib_right)
  ultimately show ?thesis by (auto simp: abs_if)
qed

text \<open>\<^verbatim>\<open>aligned_multiple\<close> returns a positive multiple of the quantum, and no positive multiple is
  nearer to the value.\<close>

theorem aligned_multiple_nearest:
  assumes "0 < q" and "1 \<le> k"
  shows "q dvd aligned_multiple v q \<and> q \<le> aligned_multiple v q \<and>
    \<bar>aligned_multiple v q - v\<bar> \<le> \<bar>k * q - v\<bar>"
proof (intro conjI)
  let ?n = "round_half_even v q"
  have a: "aligned_multiple v q = max 1 ?n * q" by (simp add: aligned_multiple_def)
  show "q dvd aligned_multiple v q" by (simp add: a)
  have "1 * q \<le> max 1 ?n * q" using assms(1) by (intro mult_right_mono) auto
  then show "q \<le> aligned_multiple v q" by (simp add: a)
  have near: "2 * \<bar>?n * q - v\<bar> \<le> q" by (rule round_half_even_near [OF assms(1)])
  have "?n = k \<or> q \<le> \<bar>k * q - ?n * q\<bar>"
  proof -
    have "\<bar>k * q - ?n * q\<bar> = \<bar>k - ?n\<bar> * q" using assms(1)
      by (metis abs_mult abs_of_pos left_diff_distrib)
    moreover have "1 * q \<le> \<bar>k - ?n\<bar> * q" if "?n \<noteq> k" using that assms(1) by (intro mult_right_mono) auto
    ultimately show ?thesis by auto
  qed
  then have best: "\<bar>?n * q - v\<bar> \<le> \<bar>k * q - v\<bar>" using near by (auto simp: abs_if split: if_splits)
  show "\<bar>aligned_multiple v q - v\<bar> \<le> \<bar>k * q - v\<bar>"
  proof (cases "1 \<le> ?n")
    case True
    then show ?thesis using best by (simp add: a)
  next
    case False
    have "?n * q \<le> 0" using False assms(1) by (intro mult_nonpos_nonneg) auto
    moreover have "1 * q \<le> k * q" using assms by (intro mult_right_mono) auto
    ultimately show ?thesis using False near by (simp add: a max_def abs_if split: if_splits)
  qed
qed

theorem aligned_multiple_nearest_witness:
  "64 dvd aligned_multiple 200 64 \<and> 64 \<le> aligned_multiple 200 64 \<and> \<bar>aligned_multiple 200 64 - 200\<bar> \<le> \<bar>4 * 64 - (200 :: int)\<bar>"
  using aligned_multiple_nearest [of 64 4 200] by simp

section \<open>Scaling a map of sizes\<close>

type_synonym params = "(string, int) dict"

datatype scaling_law = Strong | Weak

definition rank_block_quantum :: int where
  "rank_block_quantum = 64"

definition extent :: "params \<Rightarrow> string \<Rightarrow> int res" where
  "extent ps s = dict_item KeyError ps s"

definition strong :: "params \<Rightarrow> params" where
  "strong ps = ps"

definition grow_symbol ::
    "(int \<Rightarrow> int \<Rightarrow> int \<Rightarrow> int) \<Rightarrow> params \<Rightarrow> int \<Rightarrow> int \<Rightarrow> params \<Rightarrow> string \<Rightarrow> params res" where
  "grow_symbol grow ps r k scaled s =
     (if s \<notin> fst ` set scaled then Inr scaled
      else bindE (extent ps s) (\<lambda>n.
        Inr (dict_set s (case integer_kth_root r k of Some m \<Rightarrow> n * m | None \<Rightarrow> max 1 (grow n r k)) scaled)))"

definition align_symbol :: "int \<Rightarrow> params \<Rightarrow> string \<Rightarrow> params res" where
  "align_symbol r scaled s =
     (if s \<notin> fst ` set scaled then Inr scaled
      else bindE (extent scaled s) (\<lambda>n. Inr (dict_set s (aligned_multiple n (rank_block_quantum * r)) scaled)))"

definition weak ::
    "(int \<Rightarrow> int \<Rightarrow> int \<Rightarrow> int) \<Rightarrow> params \<Rightarrow> string list \<Rightarrow> int \<Rightarrow> int option \<Rightarrow> string list \<Rightarrow> params res" where
  "weak grow ps axis_symbols ranks work_exponent aligned =
     (case work_exponent of
        None \<Rightarrow> Inl (ValueError ''weak scaling needs mpi.decomposition.work_exponent'')
      | Some k \<Rightarrow>
          if k < 1 then Inl (ValueError ''weak scaling needs a work_exponent k >= 1'')
          else let r = max 1 ranks
               in bindE (foldE (grow_symbol grow ps r k) ps (remdups axis_symbols)) (\<lambda>scaled.
                  foldE (align_symbol r) scaled (filter (\<lambda>s. s \<in> set axis_symbols) (remdups aligned))))"

definition sized_params ::
    "(int \<Rightarrow> int \<Rightarrow> int \<Rightarrow> int) \<Rightarrow> params \<Rightarrow> scaling_law \<Rightarrow> string list \<Rightarrow> int \<Rightarrow> int option \<Rightarrow> string list \<Rightarrow>
     params res" where
  "sized_params grow ps mode axis_symbols ranks work_exponent aligned =
     (case mode of Strong \<Rightarrow> Inr (strong ps) | Weak \<Rightarrow> weak grow ps axis_symbols ranks work_exponent aligned)"

definition ratio_step :: "params \<Rightarrow> params \<Rightarrow> real \<Rightarrow> string \<Rightarrow> real res" where
  "ratio_step base grown ratio s =
     bindE (extent base s) (\<lambda>b.
       if b \<le> 0 then Inl (ValueError ''work_ratio needs a positive base size'')
       else bindE (extent grown s) (\<lambda>g. Inr (ratio * (real_of_int g / real_of_int b))))"

definition work_ratio :: "params \<Rightarrow> params \<Rightarrow> string list \<Rightarrow> int \<Rightarrow> real res" where
  "work_ratio base grown axis_symbols k =
     (let axs = sorted_set (filter (\<lambda>s. s \<in> fst ` set base \<and> s \<in> fst ` set grown) axis_symbols)
      in if axs = [] then Inr 1
         else bindE (foldE (ratio_step base grown) 1 axs) (\<lambda>ratio.
           Inr (ratio powr (real_of_int k / real (length axs)))))"

text \<open>\<^verbatim>\<open>aligned_symbols\<close>, of the split map and the exempt list of the \<^verbatim>\<open>mpi:\<close> block.\<close>

definition aligned_symbols :: "(string, string option) dict \<Rightarrow> string list \<Rightarrow> string list" where
  "aligned_symbols split exempt =
     filter (\<lambda>s. s \<notin> set exempt) (remdups (List.map_filter snd split))"

lemma extent_get: "map_of ps s = Some n \<Longrightarrow> extent ps s = Inr n"
  by (simp add: extent_def dict_item_def)

lemma mem_keys: "s \<in> fst ` set ps \<longleftrightarrow> (\<exists>n. map_of ps s = Some n)"
  by (metis domIff dom_map_of_conv_image_fst not_Some_eq)

lemma grow_fold:
  assumes "distinct syms" "fst ` set scaled = fst ` set ps"
  shows "\<exists>out. foldE (grow_symbol grow ps r k) scaled syms = Inr out \<and> fst ` set out = fst ` set ps \<and>
    (\<forall>s. map_of out s = (if s \<in> set syms \<and> s \<in> fst ` set ps
       then Some (case integer_kth_root r k of Some m \<Rightarrow> the (map_of ps s) * m | None \<Rightarrow> max 1 (grow (the (map_of ps s)) r k))
       else map_of scaled s))"
  using assms
proof (induction syms arbitrary: scaled)
  case (Cons s syms)
  show ?case
  proof (cases "s \<in> fst ` set ps")
    case True
    then obtain n where n: "map_of ps s = Some n" by (auto simp: mem_keys)
    let ?v = "case integer_kth_root r k of Some m \<Rightarrow> n * m | None \<Rightarrow> max 1 (grow n r k)"
    have step: "grow_symbol grow ps r k scaled s = Inr (dict_set s ?v scaled)"
      using True Cons.prems n by (simp add: grow_symbol_def extent_get)
    have "fst ` set (dict_set s ?v scaled) = fst ` set ps"
      using True Cons.prems by (simp add: update_conv' mem_keys set_eq_iff)
    from Cons.IH [OF _ this] Cons.prems step n True show ?thesis
      by (auto simp: update_conv' split: option.splits)
  next
    case False
    then have "grow_symbol grow ps r k scaled s = Inr scaled" using Cons.prems by (simp add: grow_symbol_def)
    with Cons.IH [of scaled] Cons.prems False show ?thesis by auto
  qed
qed auto

text \<open>Weak scaling at a perfect power is exact: at \<open>m ** k\<close> ranks every axis symbol is multiplied by
  exactly \<open>m\<close>, every other size is kept, and the realized work ratio is exactly the rank count.\<close>

theorem weak_exact_at_powers:
  assumes "1 \<le> m" and "1 \<le> k" and "ranks = m ^ nat k"
    and "list_all (\<lambda>s. case map_of ps s of None \<Rightarrow> True | Some n \<Rightarrow> 0 < n) axis_symbols"
    and "list_ex (\<lambda>s. map_of ps s \<noteq> None) axis_symbols"
  shows "\<exists>out. weak grow ps axis_symbols ranks (Some k) [] = Inr out
    \<and> map_of out s = (if s \<in> set axis_symbols then map_option (\<lambda>n. n * m) (map_of ps s) else map_of ps s)
    \<and> work_ratio ps out axis_symbols k = Inr (real_of_int ranks)"
proof -
  have r: "1 \<le> ranks" using assms(1,3) by (simp add: one_le_power)
  then have root: "integer_kth_root ranks k = Some m"
    using assms(1-3) integer_kth_root_iff [of ranks k m] by simp
  obtain out where out: "foldE (grow_symbol grow ps ranks k) ps (remdups axis_symbols) = Inr out"
      "fst ` set out = fst ` set ps"
      "\<And>s. map_of out s = (if s \<in> set axis_symbols \<and> s \<in> fst ` set ps then Some (the (map_of ps s) * m) else map_of ps s)"
    using grow_fold [of "remdups axis_symbols" ps ps grow ranks k] root by auto
  have w: "weak grow ps axis_symbols ranks (Some k) [] = Inr out"
    using assms(2) r out(1) by (simp add: weak_def max_def)
  define axs where "axs = sorted_set (filter (\<lambda>s. s \<in> fst ` set ps \<and> s \<in> fst ` set out) axis_symbols)"
  have axs: "s \<in> set axs \<longleftrightarrow> s \<in> set axis_symbols \<and> s \<in> fst ` set ps" for s
    by (auto simp: axs_def out(2))
  have "axs \<noteq> []" using assms(5) axs by (force simp: list_ex_iff mem_keys)
  have step: "ratio_step ps out x s = Inr (x * real_of_int m)" if s: "s \<in> set axs" for x s
  proof -
    obtain n where n: "map_of ps s = Some n" using s axs by (auto simp: mem_keys)
    then have "0 < n" using assms(4) s axs by (auto simp: list_all_iff split: option.splits)
    moreover have "map_of out s = Some (n * m)" using out(3) n s axs by (simp add: mem_keys)
    ultimately show ?thesis using n by (simp add: ratio_step_def extent_get)
  qed
  have "foldE (ratio_step ps out) 1 axs = Inr (foldl (\<lambda>x s. x * real_of_int m) 1 axs)"
    by (rule foldE_Inr) (rule step)
  moreover have "foldl (\<lambda>x s. x * real_of_int m) y xs = y * real_of_int m ^ length xs" for y and xs :: "string list"
    by (induction xs arbitrary: y) simp_all
  ultimately have f: "foldE (ratio_step ps out) 1 axs = Inr (real_of_int m ^ length axs)" by simp
  have "(real_of_int m ^ length axs) powr (real_of_int k / real (length axs)) = real_of_int m powr real_of_int k"
    using assms(1) \<open>axs \<noteq> []\<close> by (simp add: powr_realpow [symmetric] powr_powr)
  also have "\<dots> = real_of_int m ^ nat k" using assms(1,2) by (simp add: powr_realpow [symmetric])
  finally have "work_ratio ps out axis_symbols k = Inr (real_of_int ranks)"
    using f \<open>axs \<noteq> []\<close> assms(3) by (simp add: work_ratio_def axs_def [symmetric])
  moreover have "map_of out s = (if s \<in> set axis_symbols then map_option (\<lambda>n. n * m) (map_of ps s) else map_of ps s)"
    by (cases "map_of ps s") (auto simp: out(3) mem_keys)
  ultimately show ?thesis using w by blast
qed

theorem weak_exact_at_powers_witness:
  "\<exists>out. weak (\<lambda>_ _ _. 0) [(''M'', 100), (''N'', 70)] [''N''] 9 (Some 2) [] = Inr out \<and> map_of out ''N'' = Some 210"
  using weak_exact_at_powers [of 3 2 9 "[(''M'', 100), (''N'', 70)]" "[''N'']" "\<lambda>_ _ _. 0" "''N''"] by auto

end
