(* ===== verification/Counter_Rng.thy ===== *)
theory Counter_Rng
  imports Prelude "HOL-Library.Word" Complex_Main
begin

unbundle bit_operations_syntax

text \<open>
  The counter-based generator of \<^verbatim>\<open>support/counter_rng.py\<close>: splitmix64 on Python integers (\<open>mix\<close>,
  \<open>key\<close>) and on uint64 arrays (\<open>bits\<close>, at their width as \<open>64 word\<close>), the draws built on it, and the
  block-wise \<open>field\<close> builder. A float64 result is the real it holds: \<open>uniform\<close> is exact, \<open>normal\<close> is
  taken before its final rounding to the array's type.
\<close>

section \<open>Words\<close>

definition word_mask :: int where
  "word_mask = 2 ^ 64 - 1"

definition gamma :: int where
  "gamma = 0x9E3779B97F4A7C15"

definition multiplier_1 :: int where
  "multiplier_1 = 0xBF58476D1CE4E5B9"

definition multiplier_2 :: int where
  "multiplier_2 = 0x94D049BB133111EB"

text \<open>\<open>mix\<close> of a Python integer.\<close>

definition mix :: "int \<Rightarrow> int" where
  "mix v0 =
     (let v1 = v0 AND word_mask;
          v2 = ((v1 XOR drop_bit 30 v1) * multiplier_1) AND word_mask;
          v3 = ((v2 XOR drop_bit 27 v2) * multiplier_2) AND word_mask
      in v3 XOR drop_bit 31 v3)"

definition key :: "int \<Rightarrow> int \<Rightarrow> int" where
  "key seed stream = mix (mix seed + (stream + 1) * gamma)"

text \<open>One element of \<open>bits\<close>: the in-place steps on a uint64 array.\<close>

definition bits :: "int \<Rightarrow> int \<Rightarrow> int \<Rightarrow> 64 word" where
  "bits seed stream index =
     (let s0 = word_of_int index;
          s1 = s0 + 1;
          s2 = s1 * word_of_int gamma;
          s3 = s2 + word_of_int (key seed stream);
          s4 = s3 XOR drop_bit 30 s3;
          s5 = s4 * word_of_int multiplier_1;
          s6 = s5 XOR drop_bit 27 s5;
          s7 = s6 * word_of_int multiplier_2
      in s7 XOR drop_bit 31 s7)"

definition mix_word :: "64 word \<Rightarrow> 64 word" where
  "mix_word s3 =
     (let s4 = s3 XOR drop_bit 30 s3;
          s5 = s4 * word_of_int multiplier_1;
          s6 = s5 XOR drop_bit 27 s5;
          s7 = s6 * word_of_int multiplier_2
      in s7 XOR drop_bit 31 s7)"

lemma word_mask: "v AND word_mask = uint (word_of_int v :: 64 word)"
proof -
  have "word_mask = mask 64" by (simp add: word_mask_def mask_eq_exp_minus_1)
  moreover have "uint (word_of_int v :: 64 word) = take_bit 64 v" by (simp add: unsigned_of_int)
  ultimately show ?thesis by (simp only: take_bit_eq_mask)
qed

lemma uint_xor_shift: "uint a XOR drop_bit n (uint a) = uint (a XOR drop_bit n (a :: 64 word))"
  by (rule bit_eqI) (auto simp: bit_simps dest: bit_imp_le_length)

lemma word_mult_int: "word_of_int (uint a * m) = a * word_of_int m"
  by (metis of_int_mult word_of_int_uint)

lemma mix_eq: "mix v = uint (mix_word (word_of_int v))"
  by (simp add: mix_def mix_word_def Let_def word_mask uint_xor_shift word_mult_int)

section \<open>The stream never repeats\<close>

lemma drop_bit_fixpoint:
  fixes d :: "'a::len word"
  assumes "0 < s" "d = drop_bit s d"
  shows "d = 0"
proof -
  have "d = drop_bit (k * s) d" for k
  proof (induction k)
    case (Suc k)
    have "drop_bit (Suc k * s) d = drop_bit s (drop_bit (k * s) d)" by (simp add: drop_bit_drop_bit add.commute)
    with Suc assms(2) show ?case by metis
  qed simp
  from this [of "LENGTH('a)"] have "d = drop_bit (LENGTH('a) * s) d" .
  also have "\<dots> = 0"
    using assms(1) by (intro bit_word_eqI) (auto simp: bit_simps dest!: bit_imp_le_length)
  finally show ?thesis .
qed

lemma inj_xor_shift:
  fixes x y :: "'a::len word"
  assumes "0 < s" "x XOR drop_bit s x = y XOR drop_bit s y"
  shows "x = y"
proof -
  have "x XOR y = drop_bit s (x XOR y)"
  proof (rule bit_word_eqI)
    fix n
    have "bit (x XOR drop_bit s x) n = bit (y XOR drop_bit s y) n" using assms(2) by simp
    then show "bit (x XOR y) n = bit (drop_bit s (x XOR y)) n" by (auto simp: bit_simps)
  qed
  then have "x XOR y = 0" by (rule drop_bit_fixpoint [OF assms(1)])
  then have "bit (x XOR y) n = bit (0 :: 'a word) n" for n by simp
  then show ?thesis by (intro bit_word_eqI) (simp add: bit_simps)
qed

lemma inj_mult_unit:
  fixes x y m n :: "'a::len word"
  assumes "m * n = 1" "x * m = y * m"
  shows "x = y"
proof -
  have "x * (m * n) = y * (m * n)" using assms(2) by (metis mult.assoc)
  then show ?thesis using assms(1) by simp
qed

lemma units:
  "(word_of_int gamma :: 64 word) * 0xf1de83e19937733d = 1"
  "(word_of_int multiplier_1 :: 64 word) * 0x96de1b173f119089 = 1"
  "(word_of_int multiplier_2 :: 64 word) * 0x319642b2d24d8ec3 = 1"
  by (simp_all add: gamma_def multiplier_1_def multiplier_2_def)

lemma inj_mix_word: "mix_word x = mix_word y \<Longrightarrow> x = y"
  unfolding mix_word_def Let_def
  by (drule inj_xor_shift [rotated], simp, drule inj_mult_unit [OF units(3)],
      drule inj_xor_shift [rotated], simp, drule inj_mult_unit [OF units(2)],
      drule inj_xor_shift [rotated], simp, assumption)

lemma bits_eq: "bits seed stream i = mix_word (word_of_int i * word_of_int gamma + word_of_int gamma + word_of_int (key seed stream))"
  by (simp add: bits_def mix_word_def Let_def algebra_simps)

text \<open>The array generator is the scalar one: the element of \<open>bits\<close> at index \<open>i\<close>, computed on
  uint64 with wrap-around, is the Python-integer finalizer of the \<open>i\<close>-th splitmix64 state from the key;
  and the generator never repeats within its period, since two indices draw the same word only when
  they are equal modulo 2 to the 64.\<close>

theorem bits_is_splitmix:
  "uint (bits seed stream i) = mix (key seed stream + (i + 1) * gamma)
    \<and> (bits seed stream i = bits seed stream j \<longleftrightarrow> i mod 2 ^ 64 = j mod 2 ^ 64)"
proof
  have "(word_of_int (key seed stream + (i + 1) * gamma) :: 64 word) =
      word_of_int i * word_of_int gamma + word_of_int gamma + word_of_int (key seed stream)"
    by (simp add: algebra_simps)
  then show "uint (bits seed stream i) = mix (key seed stream + (i + 1) * gamma)"
    by (simp only: mix_eq bits_eq)
  have "bits seed stream i = bits seed stream j \<longleftrightarrow> (word_of_int i :: 64 word) = word_of_int j"
  proof
    assume "bits seed stream i = bits seed stream j"
    then have "word_of_int i * word_of_int gamma = (word_of_int j * word_of_int gamma :: 64 word)"
      unfolding bits_eq by (auto dest!: inj_mix_word)
    then show "(word_of_int i :: 64 word) = word_of_int j" by (rule inj_mult_unit [OF units(1)])
  qed (simp add: bits_eq)
  also have "\<dots> \<longleftrightarrow> i mod 2 ^ 64 = j mod 2 ^ 64"
    by (simp add: word_of_int_eq_iff take_bit_eq_mod)
  finally show "bits seed stream i = bits seed stream j \<longleftrightarrow> i mod 2 ^ 64 = j mod 2 ^ 64" .
qed

section \<open>Draws\<close>

datatype float_type = F32 | F64

definition mantissa_bits :: "float_type \<Rightarrow> nat" where
  "mantissa_bits t = (case t of F32 \<Rightarrow> 24 | F64 \<Rightarrow> 53)"

text \<open>The integer a uniform draw scales: the top bits of the word.\<close>

definition uniform_grid :: "float_type \<Rightarrow> int \<Rightarrow> int \<Rightarrow> int \<Rightarrow> int" where
  "uniform_grid t seed stream index = uint (drop_bit (64 - mantissa_bits t) (bits seed stream index))"

definition uniform :: "float_type \<Rightarrow> int \<Rightarrow> int \<Rightarrow> int \<Rightarrow> real" where
  "uniform t seed stream index = real_of_int (uniform_grid t seed stream index) * (1 / 2) ^ mantissa_bits t"

definition normal_words :: nat where "normal_words = 4"
definition piece_bits :: nat where "piece_bits = 21"
definition pieces :: nat where "pieces = 12"

definition piece_mask :: "64 word" where
  "piece_mask = 2 ^ 21 - 1"

definition normal_total :: "int \<Rightarrow> int \<Rightarrow> int \<Rightarrow> 64 word" where
  "normal_total seed stream index =
     foldl (\<lambda>total w.
         foldl (\<lambda>total piece. total + (drop_bit (piece * piece_bits)
                  (bits seed stream (uint (word_of_int index * word_of_int (int normal_words) + word_of_int (int w) :: 64 word)))
                  AND piece_mask))
           total [0..<pieces div normal_words])
       0 [0..<normal_words]"

definition normal :: "int \<Rightarrow> int \<Rightarrow> int \<Rightarrow> real" where
  "normal seed stream index =
     real_of_int (uint (normal_total seed stream index)) * (1 / 2) ^ piece_bits
     - real pieces * (1 - (1 / 2) ^ piece_bits) / 2"

definition integers :: "int \<Rightarrow> int \<Rightarrow> int \<Rightarrow> int \<Rightarrow> int" where
  "integers seed bound stream index = sint (bits seed stream index mod word_of_int bound)"

lemma top_bits_bound:
  assumes "n \<le> 64"
  shows "0 \<le> uint (drop_bit (64 - n) (w :: 64 word)) \<and> uint (drop_bit (64 - n) w) < 2 ^ n"
proof -
  have "uint (drop_bit (64 - n) w) = drop_bit (64 - n) (uint w)"
    by (rule bit_eqI) (auto simp: bit_simps dest: bit_imp_le_length)
  also have "\<dots> = uint w div 2 ^ (64 - n)" by (rule drop_bit_eq_div)
  also have "\<dots> < 2 ^ n"
  proof -
    have "uint w < 2 ^ 64" using uint_lt2p [of w] by simp
    also have "(2 :: int) ^ 64 = 2 ^ n * 2 ^ (64 - n)" using assms by (simp flip: power_add)
    finally show ?thesis using le_div_iff_int [of "2 ^ (64 - n)" "2 ^ n" "uint w"]
      by (simp add: mult.commute not_le [symmetric])
  qed
  finally show ?thesis by simp
qed

text \<open>A uniform draw lies in the half-open unit interval on the grid its float holds exactly, and an
  integer draw lies in [0, bound) for every bound an int64 can hold.\<close>

theorem draws_in_range:
  assumes "1 \<le> bound" and "bound \<le> 2 ^ 63"
  shows "0 \<le> uniform t seed stream i \<and> uniform t seed stream i < 1
    \<and> 0 \<le> integers seed bound stream i \<and> integers seed bound stream i < bound"
proof -
  have g: "0 \<le> uniform_grid t seed stream i \<and> uniform_grid t seed stream i < 2 ^ mantissa_bits t"
    unfolding uniform_grid_def by (intro top_bits_bound) (cases t; simp add: mantissa_bits_def)
  then have "real_of_int (uniform_grid t seed stream i) < 2 ^ mantissa_bits t"
    by (metis of_int_less_iff of_int_numeral of_int_power)
  then have "uniform t seed stream i < 1" by (simp add: uniform_def power_one_over field_simps)
  moreover have "0 \<le> uniform t seed stream i" using g by (simp add: uniform_def)
  moreover have "uint (bits seed stream i mod word_of_int bound) = uint (bits seed stream i) mod bound"
    using assms by (simp add: uint_mod unsigned_of_int take_bit_int_eq_self)
  moreover have "0 \<le> uint (bits seed stream i) mod bound" "uint (bits seed stream i) mod bound < bound"
    using assms by simp_all
  moreover have small: "sint w = uint w" if "uint w < 2 ^ 63" for w :: "64 word"
  proof -
    have "- (2 ^ 63) \<le> uint w" using uint_ge_0 [of w] by (rule order.trans [rotated]) simp
    from signed_take_bit_int_eq_self [OF this that] show ?thesis by (simp add: sint_uint)
  qed
  ultimately show ?thesis
    using assms(2) small [of "bits seed stream i mod word_of_int bound"] by (simp add: integers_def)
qed

theorem draws_in_range_witness:
  "0 \<le> integers 7 10 0 3 \<and> integers 7 10 0 3 < 10"
  using draws_in_range [of 10 F64 7 0 3] by simp

section \<open>Normal draws\<close>

lemma uint_foldl_add:
  fixes f :: "'b \<Rightarrow> 64 word"
  assumes "\<And>x. x \<in> set xs \<Longrightarrow> uint (f x) \<le> b" "uint t + int (length xs) * b < 2 ^ 64"
  shows "uint (foldl (\<lambda>t x. t + f x) t xs) = uint t + (\<Sum>x\<leftarrow>xs. uint (f x))
    \<and> uint (foldl (\<lambda>t x. t + f x) t xs) \<le> uint t + int (length xs) * b"
  using assms
proof (induction xs arbitrary: t)
  case (Cons x xs)
  have fx: "0 \<le> uint (f x)" "uint (f x) \<le> b" using Cons.prems(1) by simp_all
  have e: "int (length (x # xs)) * b = b + int (length xs) * b" by (simp add: distrib_right)
  have "0 \<le> b" using fx by linarith
  then have "0 \<le> int (length xs) * b" by simp
  then have "uint t + uint (f x) < 2 ^ 64" using Cons.prems(2) fx unfolding e by linarith
  then have s: "uint (t + f x) = uint t + uint (f x)" using uint_add_lem [of t "f x"] by simp
  have "uint (t + f x) + int (length xs) * b < 2 ^ 64" using Cons.prems(2) fx s unfolding e by linarith
  note IH = Cons.IH [OF _ this]
  have "uint (foldl (\<lambda>t x. t + f x) (t + f x) xs) = uint t + uint (f x) + (\<Sum>x\<leftarrow>xs. uint (f x))"
    "uint (foldl (\<lambda>t x. t + f x) (t + f x) xs) \<le> uint t + uint (f x) + int (length xs) * b"
    using IH Cons.prems(1) s by simp_all
  then show ?case using fx unfolding e by simp
qed simp

lemma piece_bound: "uint (w AND piece_mask) \<le> 2 ^ 21 - 1"
proof -
  have m: "piece_mask = mask 21" by (simp add: piece_mask_def mask_eq_exp_minus_1)
  have "uint (w AND piece_mask) = take_bit 21 (uint w)"
    unfolding m by (rule bit_eqI) (auto simp: bit_simps dest: bit_imp_le_length)
  also have "\<dots> < 2 ^ 21" by (rule take_bit_int_less_exp)
  finally show ?thesis by simp
qed

definition word_total :: "64 word \<Rightarrow> 64 word \<Rightarrow> 64 word" where
  "word_total hashed t0 =
     foldl (\<lambda>total piece. total + (drop_bit (piece * piece_bits) hashed AND piece_mask)) t0 [0..<3]"

lemma word_total_bound:
  assumes "uint t + 3 * (2 ^ 21 - 1) < 2 ^ 64"
  shows "uint (word_total hashed t) \<le> uint t + 3 * (2 ^ 21 - 1)"
  using uint_foldl_add [of "[0..<3]" "\<lambda>piece. drop_bit (piece * piece_bits) hashed AND piece_mask" "2 ^ 21 - 1" t]
    assms piece_bound by (simp add: word_total_def)

lemma normal_total_bound: "uint (normal_total seed stream i) \<le> 12 * (2 ^ 21 - 1)"
proof -
  let ?h = "\<lambda>w. bits seed stream (uint (word_of_int i * word_of_int (int normal_words) + word_of_int (int w) :: 64 word))"
  have "normal_total seed stream i = word_total (?h 3) (word_total (?h 2) (word_total (?h 1) (word_total (?h 0) 0)))"
  proof -
    have "normal_total seed stream i = foldl (\<lambda>t w. word_total (?h w) t) 0 [0..<4]"
      by (simp add: normal_total_def word_total_def normal_words_def pieces_def)
    moreover have "[0..<4] = [0, 1, 2, 3 :: nat]" by code_simp
    ultimately show ?thesis by (simp only: foldl.simps)
  qed
  moreover have "uint (word_total (?h 0) 0) \<le> 3 * (2 ^ 21 - 1)" using word_total_bound [of 0] by simp
  moreover from this have "uint (word_total (?h 1) (word_total (?h 0) 0)) \<le> 6 * (2 ^ 21 - 1)"
    using word_total_bound [of "word_total (?h 0) 0" "?h 1"] by simp
  moreover from this have "uint (word_total (?h 2) (word_total (?h 1) (word_total (?h 0) 0))) \<le> 9 * (2 ^ 21 - 1)"
    using word_total_bound [of "word_total (?h 1) (word_total (?h 0) 0)" "?h 2"] by simp
  moreover from this have "uint (word_total (?h 3) (word_total (?h 2) (word_total (?h 1) (word_total (?h 0) 0)))) \<le> 12 * (2 ^ 21 - 1)"
    using word_total_bound [of "word_total (?h 2) (word_total (?h 1) (word_total (?h 0) 0))" "?h 3"] by simp
  ultimately show ?thesis by simp
qed

text \<open>The sum of the pieces never wraps, and the tails of a normal draw end at 6.\<close>

lemma normal_bounded: "\<bar>normal seed stream i\<bar> \<le> 6 * (1 - (1 / 2) ^ 21)"
proof -
  let ?t = "real_of_int (uint (normal_total seed stream i))"
  have "?t \<le> real_of_int (12 * (2 ^ 21 - 1))" using normal_total_bound by (rule of_int_le_iff [THEN iffD2])
  moreover have "0 \<le> ?t" using uint_ge_0 by (rule of_int_0_le_iff [THEN iffD2])
  ultimately show ?thesis
    by (simp add: normal_def piece_bits_def pieces_def power_one_over abs_if field_simps)
qed

section \<open>Fields\<close>

text \<open>\<open>out[start:stop] = draw(...)\<close> block by block into an uninitialized array of \<open>len\<close> elements.\<close>

definition write_block :: "(nat \<Rightarrow> 'a) \<Rightarrow> nat \<Rightarrow> nat \<Rightarrow> nat \<Rightarrow> 'a list \<Rightarrow> nat \<Rightarrow> 'a list" where
  "write_block draw first len step out start =
     (let stop = min (start + step) len
      in take start out @ map draw [first + start..<first + stop] @ drop stop out)"

definition field_on :: "(nat \<Rightarrow> 'a) \<Rightarrow> nat \<Rightarrow> nat \<Rightarrow> nat \<Rightarrow> 'a list \<Rightarrow> 'a list" where
  "field_on draw len step first out =
     foldl (write_block draw first len step) out (map (\<lambda>k. k * step) [0..<(len + step - 1) div step])"

definition block_elements :: nat where
  "block_elements = 2 ^ 16"

definition field_of :: "bool \<Rightarrow> (nat \<Rightarrow> 'a) \<Rightarrow> nat list \<Rightarrow> nat \<Rightarrow> (nat \<Rightarrow> 'a) \<Rightarrow> 'a list" where
  "field_of numpy draw shp first junk =
     (let len = prod_list shp; step = (if numpy then block_elements else max len 1)
      in field_on draw len step first (map junk [0..<len]))"

lemma field_on_prefix:
  assumes "0 < step" "length out = len"
  shows "foldl (write_block draw first len step) out (map (\<lambda>k. k * step) [0..<n]) =
    map draw [first..<first + min (n * step) len] @ drop (min (n * step) len) out"
proof (induction n)
  case (Suc n)
  let ?lo = "min (n * step) len"
  have "foldl (write_block draw first len step) out (map (\<lambda>k. k * step) [0..<Suc n]) =
      write_block draw first len step (map draw [first..<first + ?lo] @ drop ?lo out) (n * step)"
    by (simp add: Suc)
  also have "\<dots> = map draw [first..<first + min (Suc n * step) len] @ drop (min (Suc n * step) len) out"
  proof (cases "n * step \<le> len")
    case True
    define d where "d = min step (len - n * step)"
    have e: "min (Suc n * step) len = n * step + d" "min (n * step + step) len = n * step + d"
      using True by (auto simp: d_def min_def)
    have "[first..<first + (n * step + d)] = [first..<first + n * step] @ [first + n * step..<first + (n * step + d)]"
      using upt_add_eq_append [of first "first + n * step" d] by (simp add: add.assoc)
    then show ?thesis
      using True unfolding write_block_def Let_def e min_absorb1 [OF True]
      by (simp add: add.commute [of d] drop_drop)
  next
    case False
    with assms(2) show ?thesis by (simp add: write_block_def min_def)
  qed
  finally show ?case .
qed simp

lemma field_on_eq:
  assumes "0 < step" "length out = len"
  shows "field_on draw len step first out = map draw [first..<first + len]"
proof -
  have "len \<le> (len + step - 1) div step * step"
    using div_mult_mod_eq [of "len + step - 1" step] mod_less_divisor [OF assms(1), of "len + step - 1"] assms(1)
    by linarith
  then show ?thesis
    using assms(2) by (simp add: field_on_def field_on_prefix [OF assms] min_absorb2)
qed

lemma field_of_eq: "field_of numpy draw shp first junk = map draw [first..<first + prod_list shp]"
  by (simp add: field_of_def Let_def field_on_eq block_elements_def)

definition uniform_field :: "bool \<Rightarrow> float_type \<Rightarrow> nat list \<Rightarrow> int \<Rightarrow> int \<Rightarrow> nat \<Rightarrow> (nat \<Rightarrow> real) \<Rightarrow> real list" where
  "uniform_field numpy t shp seed stream first junk = field_of numpy (\<lambda>i. uniform t seed stream (int i)) shp first junk"

definition normal_field :: "bool \<Rightarrow> nat list \<Rightarrow> int \<Rightarrow> int \<Rightarrow> nat \<Rightarrow> (nat \<Rightarrow> real) \<Rightarrow> real list" where
  "normal_field numpy shp seed stream first junk = field_of numpy (\<lambda>i. normal seed stream (int i)) shp first junk"

definition integers_field :: "bool \<Rightarrow> nat list \<Rightarrow> int \<Rightarrow> int \<Rightarrow> int \<Rightarrow> nat \<Rightarrow> (nat \<Rightarrow> int) \<Rightarrow> int list" where
  "integers_field numpy shp seed bound stream first junk = field_of numpy (\<lambda>i. integers seed bound stream (int i)) shp first junk"

text \<open>A field does not depend on how it is built: the numpy path in blocks and the one-block path of
  the other array libraries give the same elements whatever the fresh arrays held, and a field that
  starts at \<open>first\<close> is that slice of the whole field, so arrays may be built in pieces.\<close>

theorem fields_are_slices:
  "uniform_field True t shp seed stream first junk = uniform_field False t shp seed stream first junk'
   \<and> uniform_field numpy t shp seed stream first junk =
       take (prod_list shp) (drop first (uniform_field numpy' t [first + prod_list shp] seed stream 0 junk'))
   \<and> normal_field numpy shp seed stream first junk =
       take (prod_list shp) (drop first (normal_field numpy' [first + prod_list shp] seed stream 0 junk'))
   \<and> integers_field numpy shp seed bound stream first junk2 =
       take (prod_list shp) (drop first (integers_field numpy' [first + prod_list shp] seed bound stream 0 junk3))"
  by (simp add: uniform_field_def normal_field_def integers_field_def field_of_eq drop_map take_map)

end
