(* ===== verification/Shard_Gen.thy ===== *)
theory Shard_Gen
  imports Mpi_Scatter Counter_Rng
begin

text \<open>
  The counter-based shard inputs of \<^verbatim>\<open>support/shard_torch.py\<close>: the 32-bit hash on int64 tensors and
  Python integers, the keys, and the generation of one rank's tile under any declared layout
  (\<^verbatim>\<open>generate\<close>, \<^verbatim>\<open>make_tiles\<close>, \<^verbatim>\<open>slice_tile\<close>). A tensor is an \<open>ndarray\<close>; a value function is
  elementwise, of the global flat index and the key; the CRC of a name is the parameter \<open>crc\<close>.
  Index arithmetic is on integers: an array whose flat indices exceed int64 is outside the model.
\<close>

section \<open>The 32-bit hash\<close>

definition mask32 :: int where "mask32 = 0xFFFFFFFF"
definition golden_32 :: int where "golden_32 = 0x9E3779B9"
definition salt_multiplier :: int where "salt_multiplier = 0x3C6EF372"
definition mult_a :: int where "mult_a = 0x7FEB352D"
definition mult_b :: int where "mult_b = 0x5BD1E995"

definition mix32 :: "int \<Rightarrow> int" where
  "mix32 h0 =
     (let h1 = h0 XOR drop_bit 16 h0;
          h2 = (h1 * mult_a) AND mask32;
          h3 = h2 XOR drop_bit 15 h2;
          h4 = (h3 * mult_b) AND mask32
      in h4 XOR drop_bit 16 h4)"

definition array_key :: "(string \<Rightarrow> int) \<Rightarrow> int \<Rightarrow> string \<Rightarrow> int" where
  "array_key crc seed name = mix32 ((mix32 (seed AND mask32) XOR crc name) AND mask32)"

definition sub_key :: "int \<Rightarrow> int \<Rightarrow> int" where
  "sub_key k salt = mix32 ((k XOR (salt * salt_multiplier)) AND mask32)"

text \<open>The 32-bit word of one element, and the float32 uniform on the grid of 24 bits.\<close>

definition uniform_word :: "int \<Rightarrow> int \<Rightarrow> int" where
  "uniform_word index k =
     (let h1 = mix32 (drop_bit 32 index XOR k);
          h2 = mix32 ((index AND mask32) XOR h1)
      in mix32 (h2 XOR mix32 (k XOR golden_32)))"

definition shard_uniform :: "int \<Rightarrow> int \<Rightarrow> real" where
  "shard_uniform index k = real_of_int (drop_bit 8 (uniform_word index k)) * (1 / 2 ^ 24)"

definition uniform_range :: "real \<Rightarrow> real \<Rightarrow> int \<Rightarrow> int \<Rightarrow> real" where
  "uniform_range low high index k = low + (high - low) * shard_uniform index k"

definition planted :: "real \<Rightarrow> real \<Rightarrow> real \<Rightarrow> real \<Rightarrow> int \<Rightarrow> int \<Rightarrow> real" where
  "planted low high rate boost index k =
     low + (high - low) * shard_uniform index k
     + boost * (if shard_uniform index (sub_key k 1) < rate then 1 else 0)"

section \<open>The indices of a tile\<close>

definition block_range :: "int \<Rightarrow> int \<times> int \<Rightarrow> (int \<times> int) res" where
  "block_range n shard = block_bounds n (snd shard) (fst shard)"

definition tile_ranges :: "int list \<Rightarrow> nat option \<Rightarrow> (int \<times> int) option \<Rightarrow> (int \<times> int) list res" where
  "tile_ranges shp split_axis shard =
     (let ranges = map (\<lambda>n. (0, n)) shp
      in case (shard, split_axis) of
           (Some sh, Some d) \<Rightarrow>
             bindE (py_get shp (int d)) (\<lambda>n. bindE (block_range n sh) (\<lambda>r. Inr (ranges[d := r])))
         | _ \<Rightarrow> Inr ranges)"

definition tile_index_arrays :: "int list \<Rightarrow> nat option \<Rightarrow> (int \<times> int) option \<Rightarrow> int list list res" where
  "tile_index_arrays shp split_axis shard =
     bindE (tile_ranges shp split_axis shard) (\<lambda>rs. Inr (map (\<lambda>(lo, hi). py_range lo hi) rs))"

definition layout_index_arrays ::
    "int list \<Rightarrow> array_dist option \<Rightarrow> grid \<Rightarrow> int list \<Rightarrow> int list list res" where
  "layout_index_arrays shp dst g coords =
     (case dst of
        None \<Rightarrow> Inr (map (py_range 0) shp)
      | Some d \<Rightarrow>
          if replicated d then Inr (map (py_range 0) shp)
          else if length (axes d) \<noteq> length shp then Inl (ValueError ''layout axes against array dimensions'')
          else traverseE (\<lambda>(n, ax). owned_indices n ax g coords) (zip shp (axes d)))"

section \<open>Generation\<close>

definition chunk_elements :: nat where
  "chunk_elements = 2 ^ 24"

definition gen_strides :: "int list \<Rightarrow> int list" where
  "gen_strides shp = map (\<lambda>d. prod_list (drop (Suc d) shp)) [0..<length shp]"

text \<open>The flat offsets of one row: the sum over the inner axes of index times stride, in C order.\<close>

definition inner_offsets :: "int list list \<Rightarrow> int list \<Rightarrow> int list" where
  "inner_offsets inner_ix st = map (\<lambda>ix. sum_list (map2 (*) ix st)) (product_lists inner_ix)"

definition write_rows ::
    "(int \<Rightarrow> int \<Rightarrow> 'v) \<Rightarrow> int \<Rightarrow> int list \<Rightarrow> int \<Rightarrow> int list \<Rightarrow> nat \<Rightarrow> 'v list \<Rightarrow> nat \<Rightarrow> 'v list" where
  "write_rows v k idx0 stride0 inner per_chunk out start =
     (let stop = min (length idx0) (start + per_chunk);
          rows = map (\<lambda>i. i * stride0) (take (stop - start) (drop start idx0));
          index = concat (map (\<lambda>r. map ((+) r) inner) rows);
          width = length inner
      in take (start * width) out @ map (\<lambda>i. v i k) index @ drop (stop * width) out)"

definition generate ::
    "(int \<Rightarrow> int \<Rightarrow> 'v) \<Rightarrow> int \<Rightarrow> int list \<Rightarrow> int list list \<Rightarrow> (nat \<Rightarrow> 'v) \<Rightarrow> 'v ndarray res" where
  "generate v k shp axis_indices junk =
     (let local_ext = map length axis_indices; n = prod_list local_ext; shape_out = map int local_ext;
          out = map junk [0..<n]
      in if n = 0 then Inr \<lparr>shape = shape_out, elems = out\<rparr>
         else case (axis_indices, gen_strides shp) of
                (idx0 # inner_ix, stride0 # inner_st) \<Rightarrow>
                  let inner = inner_offsets inner_ix inner_st;
                      row_elements = max 1 (prod_list (tl local_ext));
                      per_chunk = max 1 (chunk_elements div row_elements);
                      starts = map (\<lambda>c. c * per_chunk) [0..<(length idx0 + per_chunk - 1) div per_chunk]
                  in Inr \<lparr>shape = shape_out, elems = foldl (write_rows v k idx0 stride0 inner per_chunk) out starts\<rparr>
              | _ \<Rightarrow> Inl IndexError)"

record 'v array_spec =
  spec_shape :: "int list"
  spec_values :: "int \<Rightarrow> int \<Rightarrow> 'v"

text \<open>\<^verbatim>\<open>make_tiles\<close>, the tile of one input: under a declared layout, and under the default split.\<close>

definition layout_tile ::
    "(string \<Rightarrow> int) \<Rightarrow> int \<Rightarrow> (nat \<Rightarrow> 'v) \<Rightarrow> (string, array_dist) dict \<Rightarrow> grid \<Rightarrow> int \<Rightarrow> string list \<Rightarrow>
     string \<times> 'v array_spec \<Rightarrow> 'v ndarray res" where
  "layout_tile crc seed junk layout g rank whole entry =
     (let (name, spec) = entry
      in bindE (coords_of g rank) (\<lambda>coords.
         bindE (layout_index_arrays (spec_shape spec) (if name \<in> set whole then None else map_of layout name) g coords)
           (\<lambda>ls. generate (spec_values spec) (array_key crc seed name) (spec_shape spec) ls junk)))"

definition make_tiles_layout ::
    "(string \<Rightarrow> int) \<Rightarrow> int \<Rightarrow> (nat \<Rightarrow> 'v) \<Rightarrow> (string, array_dist) dict \<Rightarrow> grid \<Rightarrow> int \<Rightarrow> string list \<Rightarrow>
     (string, 'v array_spec) dict \<Rightarrow> 'v ndarray list res" where
  "make_tiles_layout crc seed junk layout g rank whole specs =
     traverseE (layout_tile crc seed junk layout g rank whole) specs"

definition make_tiles_split ::
    "(string \<Rightarrow> int) \<Rightarrow> int \<Rightarrow> (nat \<Rightarrow> 'v) \<Rightarrow> (string, nat option) dict \<Rightarrow> (int \<times> int) option \<Rightarrow> string list \<Rightarrow>
     (string, 'v array_spec) dict \<Rightarrow> 'v ndarray list res" where
  "make_tiles_split crc seed junk split shard whole specs =
     traverseE (\<lambda>(name, spec).
         bindE (if name \<in> set whole then Inr None else dict_item KeyError split name) (\<lambda>ax.
         bindE (tile_index_arrays (spec_shape spec) ax shard) (\<lambda>ls.
           generate (spec_values spec) (array_key crc seed name) (spec_shape spec) ls junk)))
       specs"

text \<open>\<^verbatim>\<open>slice_tile\<close> under a layout: \<open>index_select\<close> along every axis in turn is \<open>np_ix\<close>.\<close>

definition slice_tile :: "'v ndarray \<Rightarrow> int \<Rightarrow> array_dist \<Rightarrow> grid \<Rightarrow> 'v ndarray res" where
  "slice_tile full rank dst g =
     (if replicated dst then Inr full
      else bindE (coords_of g rank) (\<lambda>coords.
           bindE (layout_index_arrays (shape full) (Some dst) g coords) (\<lambda>ls. np_ix_get full ls)))"

section \<open>A tile is the slice of the whole array\<close>

lemma gen_strides: "gen_strides shp = strides shp"
proof (induction shp)
  case (Cons n shp)
  have "gen_strides (n # shp) = prod_list shp # gen_strides shp"
    by (simp add: gen_strides_def upt_conv_Cons map_Suc_upt [symmetric] del: upt_Suc)
  with Cons show ?case by simp
qed (simp add: gen_strides_def)

lemma width_concat:
  assumes "\<And>r. r \<in> set rows \<Longrightarrow> length (f r) = w"
  shows "length (concat (map f rows)) = length rows * w"
  using assms by (induction rows) auto

lemma write_rows_fold:
  assumes "0 < per"
    and out: "length out = length idx0 * length inner"
  shows "foldl (write_rows v k idx0 s0 inner per) out (map (\<lambda>c. c * per) [0..<n]) =
    map (\<lambda>i. v i k) (concat (map (\<lambda>i. map ((+) (i * s0)) inner) (take (n * per) idx0)))
    @ drop (min (n * per) (length idx0) * length inner) out"
proof (induction n)
  case (Suc n)
  let ?w = "length inner" and ?N = "length idx0"
  let ?rows = "\<lambda>is. concat (map (\<lambda>i. map ((+) (i * s0)) inner) is)"
  have len: "length (?rows is) = length is * ?w" for "is" by (rule width_concat) simp
  have "foldl (write_rows v k idx0 s0 inner per) out (map (\<lambda>c. c * per) [0..<Suc n]) =
      write_rows v k idx0 s0 inner per
        (map (\<lambda>i. v i k) (?rows (take (n * per) idx0)) @ drop (min (n * per) ?N * ?w) out) (n * per)"
    by (simp add: Suc)
  also have "\<dots> = map (\<lambda>i. v i k) (?rows (take (Suc n * per) idx0)) @ drop (min (Suc n * per) ?N * ?w) out"
  proof (cases "n * per \<le> ?N")
    case True
    define d where "d = min per (?N - n * per)"
    have e: "min ?N (n * per + per) = n * per + d" "min (Suc n * per) ?N = n * per + d"
      using True by (auto simp: d_def min_def)
    have t: "take (Suc n * per) idx0 = take (n * per) idx0 @ take d (drop (n * per) idx0)"
    proof -
      have "take (Suc n * per) idx0 = take (n * per + per) idx0" by (simp add: add.commute)
      also have "\<dots> = take (n * per) idx0 @ take per (drop (n * per) idx0)" by (rule take_add)
      also have "take per (drop (n * per) idx0) = take d (drop (n * per) idx0)" by (simp add: d_def min_def)
      finally show ?thesis .
    qed
    have l: "length (?rows (take (n * per) idx0)) = n * per * ?w" using True by (simp add: len)
    show ?thesis
      unfolding write_rows_def Let_def e t
      using True l by (simp add: o_def drop_drop algebra_simps)
  next
    case False
    then have "take (n * per) idx0 = idx0" "take (Suc n * per) idx0 = idx0" "drop (n * per) idx0 = []"
      by simp_all
    with False show ?thesis
      by (simp add: write_rows_def Let_def min_def len out)
  qed
  finally show ?case .
qed simp

lemma product_lists_Cons_map:
  "concat (map (\<lambda>i. map (\<lambda>js. f (i # js)) (product_lists ls)) l) = map f (product_lists (l # ls))"
  by (induction l) simp_all

lemma generate_eq:
  assumes "length ls = length shp" "shp \<noteq> []"
  shows "generate v k shp ls junk = Inr \<lparr>shape = map (\<lambda>l. int (length l)) ls,
    elems = map (\<lambda>ix. v (ravel shp ix) k) (product_lists ls)\<rparr>"
proof (cases "prod_list (map length ls) = 0")
  case True
  then have "product_lists ls = []" using length_product_lists_prod [of ls] by simp
  with True show ?thesis by (simp add: generate_def comp_def)
next
  case False
  obtain l ls' n shp' where c: "ls = l # ls'" "shp = n # shp'" using assms by (cases ls; cases shp) auto
  let ?inner = "inner_offsets ls' (strides shp')"
  define per where "per = max 1 (chunk_elements div max 1 (prod_list (map length ls')))"
  have per: "0 < per" by (simp add: per_def)
  have w: "length ?inner = prod_list (map length ls')" by (simp add: inner_offsets_def length_product_lists_prod)
  have n: "(length l + per - 1) div per * per \<ge> length l"
    using div_mult_mod_eq [of "length l + per - 1" per] mod_less_divisor [OF per, of "length l + per - 1"] per
    by linarith
  let ?out = "map junk [0..<prod_list (map length ls)]"
  have "foldl (write_rows v k l (prod_list shp') ?inner per) ?out
        (map (\<lambda>c. c * per) [0..<(length l + per - 1) div per]) =
      map (\<lambda>i. v i k) (concat (map (\<lambda>i. map ((+) (i * prod_list shp')) ?inner) l))"
    using n by (subst write_rows_fold [OF per]) (simp_all add: c w min_absorb2)
  also have "\<dots> = map (\<lambda>ix. v (ravel shp ix) k) (product_lists ls)"
    by (simp add: c inner_offsets_def map_concat comp_def ravel_def
        flip: product_lists_Cons_map [of "\<lambda>ix. v (sum_list (map2 (*) ix (strides (n # shp')))) k"])
  finally have elems: "foldl (write_rows v k l (prod_list shp') ?inner per) ?out
      (map (\<lambda>c. c * per) [0..<(length l + per - 1) div per]) = map (\<lambda>ix. v (ravel shp ix) k) (product_lists ls)" .
  have "generate v k shp ls junk = Inr \<lparr>shape = map int (map length ls),
      elems = foldl (write_rows v k l (prod_list shp') ?inner per) ?out
        (map (\<lambda>c. c * per) [0..<(length l + per - 1) div per])\<rparr>"
    using False unfolding generate_def gen_strides c per_def by (simp add: Let_def)
  then show ?thesis unfolding elems by (simp add: comp_def)
qed

lemma generate_full:
  assumes "shp \<noteq> []" "list_all (\<lambda>n. 0 \<le> n) shp"
  shows "generate v k shp (map (py_range 0) shp) junk =
    Inr \<lparr>shape = shp, elems = map (\<lambda>i. v i k) (py_range 0 (prod_list shp))\<rparr>"
proof -
  have "map (\<lambda>n. int (length (py_range 0 n))) shp = shp"
    using assms(2) by (intro map_idI) (auto simp: list_all_iff)
  then show ?thesis
    using assms by (simp add: generate_eq comp_def map_ravel_box [OF assms(2), symmetric] box_indices_def)
qed

lemma layout_index_arrays_eq:
  "layout_index_arrays shp (Some dst) g coords =
     (if replicated dst then Inr (map (py_range 0) shp)
      else if length (axes dst) \<noteq> length shp then Inl (ValueError ''layout axes against array dimensions'')
      else axis_index_lists shp dst g coords)"
  by (simp add: layout_index_arrays_def axis_index_lists_def)

lemma elem_full:
  assumes "in_box shp ix"
  shows "elem \<lparr>shape = shp, elems = map f (py_range 0 (prod_list shp))\<rparr> ix = f (ravel shp ix)"
  using ravel_bounds [OF assms] by (simp add: elem_def)

text \<open>C23. Building a shard in place is slicing the whole array: for any layout of the kernel's grid, the
  tile \<^verbatim>\<open>generate\<close> builds for a rank from the global indices that layout gives it is, element for
  element, the tile \<^verbatim>\<open>scatter\<close> would send it of the whole generated array, and the one
  \<^verbatim>\<open>slice_tile\<close> cuts out for the comparison, whatever the fresh buffers held.\<close>

theorem generated_tile_is_slice:
  assumes "shp \<noteq> []" and "list_all (\<lambda>n. 0 \<le> n) shp" and "list_all (\<lambda>d. 0 < d) (dims g)"
    and "replicated dst \<or> wf_dist shp dst g" and "0 \<le> r" and "r < nranks g"
  shows "\<exists>coords ls tile full tiles. coords_of g r = Inr coords
    \<and> layout_index_arrays shp (Some dst) g coords = Inr ls
    \<and> generate v k shp ls junk = Inr tile
    \<and> generate v k shp (map (py_range 0) shp) junk' = Inr full
    \<and> scatter full dst g = Inr tiles \<and> tiles ! nat r = tile \<and> slice_tile full r dst g = Inr tile"
proof -
  have pos: "Mpi_Grid.positive (dims g)" using assms(3) by (simp add: Mpi_Grid.positive_def)
  define full where "full = \<lparr>shape = shp, elems = map (\<lambda>i. v i k) (py_range 0 (prod_list shp))\<rparr>"
  let ?cs = "unravel (dims g) r"
  have full: "generate v k shp (map (py_range 0) shp) junk = Inr full" for junk
    unfolding full_def by (rule generate_full [OF assms(1,2)])
  show ?thesis
  proof (cases "replicated dst")
    case True
    then have "scatter full dst g = Inr (replicate (nat (nranks g)) full)"
      "layout_index_arrays shp (Some dst) g ?cs = Inr (map (py_range 0) shp)"
      "slice_tile full r dst g = Inr full"
      by (simp_all add: scatter_def layout_index_arrays_eq slice_tile_def)
    then show ?thesis using full assms(5,6) by (auto simp: coords_of_eq [OF pos])
  next
    case False
    then have wf: "wf_dist shp dst g" using assms(4) by simp
    have D: "dealt shp dst g" using pos assms(2) wf by (simp add: dealt_def)
    have box: "in_box (dims g) ?cs" by (rule unravel_in_box [OF pos])
    let ?ls = "own_lists shp dst g ?cs"
    note sub = own_lists_sub [OF D box]
    have ls: "layout_index_arrays shp (Some dst) g ?cs = Inr ?ls"
      using False wf_distD(1) [OF wf] by (simp add: layout_index_arrays_eq axis_index_lists_eq [OF D box])
    have tile: "generate v k shp ?ls junk = Inr (tile_of full dst g r)"
    proof -
      have "elem full ix = v (ravel shp ix) k" if "ix \<in> set (product_lists ?ls)" for ix
        unfolding full_def by (rule elem_full [OF in_box_product_lists [OF sub that]])
      then show ?thesis
        using sub(1) by (simp add: generate_eq [OF _ assms(1)] tile_of_def full_def [symmetric] Let_def)
          (simp add: full_def)
    qed
    have sc: "scatter full dst g = Inr (map (tile_of full dst g) (py_range 0 (nranks g)))"
      using D False by (intro scatter_eq) (simp_all add: full_def)
    have "np_ix_get full ?ls = Inr (tile_of full dst g r)"
      using np_ix_in_bounds [OF sub] by (simp add: np_ix_get_def tile_of_def full_def Let_def)
    then have "slice_tile full r dst g = Inr (tile_of full dst g r)"
      using False ls by (simp add: slice_tile_def coords_of_eq [OF pos]) (simp add: full_def)
    with ls tile sc full assms(5,6) show ?thesis by (auto simp: coords_of_eq [OF pos])
  qed
qed

theorem generated_tile_is_slice_witness:
  "\<exists>coords ls tile full tiles. coords_of \<lparr>dims = [2]\<rparr> 1 = Inr coords
    \<and> layout_index_arrays [3, 2] (Some \<lparr>axes = [\<lparr>grid_dim = Some 0, scheme_of = Cyclic, block_size = 1\<rparr>, whole_axis],
        replicated = False\<rparr>) \<lparr>dims = [2]\<rparr> coords = Inr ls
    \<and> generate (\<lambda>i k. i + k) 5 [3, 2] ls (\<lambda>_. 0) = Inr tile
    \<and> generate (\<lambda>i k. i + k) 5 [3, 2] (map (py_range 0) [3, 2]) (\<lambda>_. 1) = Inr full
    \<and> scatter full \<lparr>axes = [\<lparr>grid_dim = Some 0, scheme_of = Cyclic, block_size = 1\<rparr>, whole_axis],
        replicated = False\<rparr> \<lparr>dims = [2]\<rparr> = Inr tiles \<and> tiles ! 1 = tile"
  using generated_tile_is_slice [of "[3, 2]" "\<lparr>dims = [2]\<rparr>"
      "\<lparr>axes = [\<lparr>grid_dim = Some 0, scheme_of = Cyclic, block_size = 1\<rparr>, whole_axis], replicated = False\<rparr>" 1
      "\<lambda>i k. i + k" 5 "\<lambda>_. 0" "\<lambda>_. 1"]
  by (fastforce simp: wf_dist_def one_axis_per_grid_dim_def map_filter_simps nranks_def)

section \<open>The hash stays in int64\<close>

lemma mask32: "v AND mask32 = uint (word_of_int v :: 32 word)"
proof -
  have "mask32 = mask 32" by (simp add: mask32_def mask_eq_exp_minus_1)
  moreover have "uint (word_of_int v :: 32 word) = take_bit 32 v" by (simp add: unsigned_of_int)
  ultimately show ?thesis by (simp only: take_bit_eq_mask)
qed

lemma uint_xor_shift32: "uint a XOR drop_bit n (uint a) = uint (a XOR drop_bit n (a :: 32 word))"
  by (rule bit_eqI) (auto simp: bit_simps dest: bit_imp_le_length)

lemma word_mult_int32: "(word_of_int (uint a * m) :: 32 word) = a * word_of_int m"
  by (metis of_int_mult word_of_int_uint)

definition mix32_word :: "32 word \<Rightarrow> 32 word" where
  "mix32_word h0 =
     (let h1 = h0 XOR drop_bit 16 h0; h2 = h1 * word_of_int mult_a; h3 = h2 XOR drop_bit 15 h2;
          h4 = h3 * word_of_int mult_b
      in h4 XOR drop_bit 16 h4)"

lemma mix32_eq: "mix32 (uint h) = uint (mix32_word h)"
  by (simp add: mix32_def mix32_word_def Let_def mask32 uint_xor_shift32 word_mult_int32)

lemma units32:
  "(word_of_int mult_a :: 32 word) * 0x1d69e2a5 = 1" "(word_of_int mult_b :: 32 word) * 0xe59b19bd = 1"
  by (simp_all add: mult_a_def mult_b_def)

lemma inj_mix32_word: "mix32_word x = mix32_word y \<Longrightarrow> x = y"
  unfolding mix32_word_def Let_def
  by (drule inj_xor_shift [rotated], simp, drule inj_mult_unit [OF units32(2)],
      drule inj_xor_shift [rotated], simp, drule inj_mult_unit [OF units32(1)],
      drule inj_xor_shift [rotated], simp, assumption)

lemma uint_of_range: "0 \<le> h \<Longrightarrow> h < 2 ^ 32 \<Longrightarrow> h = uint (word_of_int h :: 32 word)"
  by (simp add: unsigned_of_int take_bit_int_eq_self)

lemma mix32_range:
  assumes "0 \<le> h" "h < 2 ^ 32"
  shows "0 \<le> mix32 h \<and> mix32 h < 2 ^ 32"
  using mix32_eq [of "word_of_int h"] uint_lt2p [of "mix32_word (word_of_int h)"] uint_of_range [OF assms] by simp

text \<open>The hash needs no wrap-around: on a value of 32 bits both products fit int64, the result is again
  a value of 32 bits, and the hash is a bijection of them, so distinct inputs never collide.\<close>

theorem mix32_exact:
  assumes "0 \<le> h" and "h < 2 ^ 32" and "0 \<le> h'" and "h' < 2 ^ 32"
  shows "(h XOR drop_bit 16 h) * mult_a < 2 ^ 63
    \<and> (let h2 = ((h XOR drop_bit 16 h) * mult_a) AND mask32 in (h2 XOR drop_bit 15 h2) * mult_b < 2 ^ 63)
    \<and> 0 \<le> mix32 h \<and> mix32 h < 2 ^ 32 \<and> (mix32 h = mix32 h' \<longleftrightarrow> h = h')"
proof (intro conjI)
  have prod: "uint (a :: 32 word) * m < 2 ^ 63" if "0 \<le> m" "m < 2 ^ 31" for a m
  proof -
    have "uint a \<le> 2 ^ 32 - 1" using uint_lt2p [of a] by simp
    then have "uint a * m \<le> (2 ^ 32 - 1) * (2 ^ 31 - 1)" using that by (intro mult_mono) auto
    then show ?thesis by simp
  qed
  have x: "h XOR drop_bit n h = uint ((word_of_int h :: 32 word) XOR drop_bit n (word_of_int h))" for n
    using uint_xor_shift32 [of "word_of_int h" n] uint_of_range [OF assms(1,2)] by simp
  show "(h XOR drop_bit 16 h) * mult_a < 2 ^ 63" unfolding x by (intro prod) (simp_all add: mult_a_def)
  show "let h2 = ((h XOR drop_bit 16 h) * mult_a) AND mask32 in (h2 XOR drop_bit 15 h2) * mult_b < 2 ^ 63"
    unfolding Let_def mask32 uint_xor_shift32 by (intro prod) (simp_all add: mult_b_def)
  show "0 \<le> mix32 h" "mix32 h < 2 ^ 32" using mix32_range [OF assms(1,2)] by simp_all
  show "mix32 h = mix32 h' \<longleftrightarrow> h = h'"
    using inj_mix32_word [of "word_of_int h" "word_of_int h'"] mix32_eq [of "word_of_int h"]
      mix32_eq [of "word_of_int h'"] uint_of_range [OF assms(1,2)] uint_of_range [OF assms(3,4)]
    by (metis word_eq_iff_unsigned)
qed

theorem mix32_exact_witness: "mix32 12345 \<noteq> mix32 54321 \<and> mix32 12345 < 2 ^ 32"
  using mix32_exact [of 12345 54321] by simp

end
