(* ===== verification/Shape_Fold.thy ===== *)
theory Shape_Fold
  imports Prelude
begin

text \<open>
  The arithmetic of shape expressions (\<open>numpyto_common/frontend/shape_arith.py\<close>, \<open>const_int\<close> of
  \<open>ast_build.py\<close>): the Python expression trees it rewrites, every rewrite of \<open>ShapeArithFolder\<close>,
  the collection of scalar definitions and the textual expansion of definitions. The main facts say
  that folding keeps every value the expression has, and that expansion ends and leaves no defined
  name behind when the definitions are not cyclic.
\<close>

section \<open>Expression trees\<close>

text \<open>
  Python's \<open>ast\<close> expressions as far as the code looks into them. \<open>OtherOp\<close> and \<open>OtherUnary\<close> carry
  the class name of an operator the folder does not know (\<open>Div\<close>, \<open>Pow\<close>, \<open>Invert\<close>, ...); \<open>Node\<close>
  is any other expression with its expression children in field order and the rest of it in the tag.
  \<open>ast.dump\<close> spells the whole tree, so comparing dumps is equality of trees; source positions
  (\<open>copy_location\<close>) are not part of a tree.
\<close>

datatype operator = Add | Sub | Mult | FloorDiv | Mod | OtherOp string

datatype unary_operator = UAdd | USub | OtherUnary string

datatype literal = IntLit int | BoolLit bool | OtherLit string

datatype expr =
    Name string
  | Constant literal
  | UnaryOp unary_operator expr
  | BinOp expr operator expr
  | Attribute expr string
  | Subscript expr expr
  | Node string "expr list"

abbreviation int_const :: "int \<Rightarrow> expr" where
  "int_const n \<equiv> Constant (IntLit n)"

fun const_int :: "expr \<Rightarrow> int option" where
  "const_int (Constant (IntLit n)) = Some n"
| "const_int (UnaryOp USub e) = map_option uminus (const_int e)"
| "const_int (UnaryOp UAdd e) = const_int e"
| "const_int e = None"

section \<open>The rewrites\<close>

definition fold_ops :: "operator \<Rightarrow> (int \<Rightarrow> int \<Rightarrow> int) option" where
  "fold_ops op = (case op of Add \<Rightarrow> Some (+) | Sub \<Rightarrow> Some (-) | Mult \<Rightarrow> Some (*) | _ \<Rightarrow> None)"

fun exact_multiple_factor :: "expr \<Rightarrow> expr \<Rightarrow> int option" where
  "exact_multiple_factor (BinOp l Mult r) denominator =
     (case const_int l of
        Some k \<Rightarrow> if r = denominator then Some k
                  else if l = denominator then const_int r else None
      | None \<Rightarrow> if l = denominator then const_int r else None)"
| "exact_multiple_factor numerator denominator = None"

text \<open>One side of \<open>divide_multiple_term\<close>'s loop: a constant multiple of the divisor.\<close>

definition divide_side :: "int \<Rightarrow> expr \<Rightarrow> expr \<Rightarrow> expr option" where
  "divide_side divisor const_side oth =
     (case const_int const_side of
        None \<Rightarrow> None
      | Some factor \<Rightarrow>
          if factor mod divisor \<noteq> 0 then None
          else let quotient = factor div divisor in
            Some (if quotient = 1 then oth else BinOp (int_const quotient) Mult oth))"

fun divide_multiple_term :: "expr \<Rightarrow> int \<Rightarrow> expr option" where
  "divide_multiple_term (BinOp l Mult r) divisor =
     (case divide_side divisor l r of None \<Rightarrow> divide_side divisor r l | Some e \<Rightarrow> Some e)"
| "divide_multiple_term term divisor = None"

text \<open>Signed terms and the sum of the literals, the two variables the closures update.\<close>

type_synonym terms = "(int \<times> expr) list"

definition leaf_term :: "expr \<Rightarrow> int \<Rightarrow> terms \<times> int \<Rightarrow> terms \<times> int" where
  "leaf_term e sign st =
     (case const_int e of
        None \<Rightarrow> (fst st @ [(sign, e)], snd st)
      | Some n \<Rightarrow> (fst st, snd st + sign * n))"

fun quotient_walk :: "expr \<Rightarrow> int \<Rightarrow> terms \<times> int \<Rightarrow> terms \<times> int" where
  "quotient_walk (BinOp l op r) sign st =
     (if op = Add \<or> op = Sub
      then quotient_walk r (if op = Add then sign else - sign) (quotient_walk l sign st)
      else leaf_term (BinOp l op r) sign st)"
| "quotient_walk e sign st = leaf_term e sign st"

text \<open>The index of the first positive term, and the sum rebuilt from it.\<close>

definition lead_index :: "terms \<Rightarrow> nat option" where
  "lead_index ts = map_option fst (find (\<lambda>(i, sign, e). 0 < sign) (enumerate 0 ts))"

definition add_signed :: "expr \<Rightarrow> int \<Rightarrow> expr \<Rightarrow> expr" where
  "add_signed out sign e = BinOp out (if 0 < sign then Add else Sub) e"

definition add_constant :: "expr \<Rightarrow> int \<Rightarrow> expr" where
  "add_constant out c = (if c = 0 then out else add_signed out c (int_const \<bar>c\<bar>))"

definition exact_quotient_with_remainder :: "expr \<Rightarrow> int \<Rightarrow> expr option" where
  "exact_quotient_with_remainder numerator divisor =
     (if divisor \<le> 0 then None
      else let (ts, constant) = quotient_walk numerator 1 ([], 0) in
        if ts = [] then None
        else let quotients = map (\<lambda>(sign, e). (sign, divide_multiple_term e divisor)) ts;
                 exact = [(sign, the q). (sign, q) \<leftarrow> quotients, q \<noteq> None] in
          if length exact \<noteq> length quotients then None
          else case lead_index exact of
            None \<Rightarrow> None
          | Some lead \<Rightarrow>
              let out = foldl (\<lambda>out (i, sign, q). if i = lead then out else add_signed out sign q)
                          (snd (exact ! lead)) (enumerate 0 exact)
              in Some (add_constant out (constant div divisor)))"

definition scaled_term :: "int \<Rightarrow> expr \<Rightarrow> expr" where
  "scaled_term coefficient e =
     (if coefficient = 1 then e else BinOp (int_const coefficient) Mult e)"

text \<open>The coefficients dict, keyed on the dump; \<open>order\<close> is its insertion order.\<close>

definition count_term :: "(expr, int) dict \<Rightarrow> int \<times> expr \<Rightarrow> (expr, int) dict" where
  "count_term coefficients p =
     (let (sign, e) = p;
          old = (case map_of coefficients e of None \<Rightarrow> 0 | Some c \<Rightarrow> c)
      in dict_set e (old + sign) coefficients)"

definition combine_like_terms :: "terms \<Rightarrow> terms" where
  "combine_like_terms ts =
     [(c, e). (e, c) \<leftarrow> foldl count_term [] ts, c \<noteq> 0]"

fun chain_walk :: "expr \<Rightarrow> int \<Rightarrow> terms \<times> int \<Rightarrow> terms \<times> int" where
  "chain_walk (BinOp l op r) sign st =
     (if op = Add \<or> op = Sub
      then chain_walk r (if op = Add then sign else - sign) (chain_walk l sign st)
      else leaf_term (BinOp l op r) sign st)"
| "chain_walk (UnaryOp op e) sign st =
     (if op = UAdd \<or> op = USub
      then chain_walk e (if op = UAdd then sign else - sign) st
      else leaf_term (UnaryOp op e) sign st)"
| "chain_walk e sign st = leaf_term e sign st"

definition gather_add_chain :: "expr \<Rightarrow> expr" where
  "gather_add_chain node =
     (let (ts0, c) = chain_walk node 1 ([], 0); ts = combine_like_terms ts0 in
      case lead_index ts of
        None \<Rightarrow> node
      | Some lead \<Rightarrow>
          let out = foldl (\<lambda>out (i, sign, e). if i = lead then out
                                else add_signed out sign (scaled_term \<bar>sign\<bar> e))
                      (scaled_term (fst (ts ! lead)) (snd (ts ! lead))) (enumerate 0 ts)
          in add_constant out c)"

text \<open>\<open>visit_BinOp\<close> after its \<open>generic_visit\<close>: the rules in the order of the code.\<close>

definition literal_rule :: "expr \<Rightarrow> operator \<Rightarrow> expr \<Rightarrow> expr option" where
  "literal_rule l op r =
     (case (const_int l, const_int r) of
        (Some a, Some b) \<Rightarrow>
          (case fold_ops op of
             Some f \<Rightarrow> Some (int_const (f a b))
           | None \<Rightarrow>
               if op = FloorDiv \<and> b \<noteq> 0 then Some (int_const (a div b))
               else if op = Mod \<and> b \<noteq> 0 then Some (int_const (a mod b)) else None)
      | _ \<Rightarrow> None)"

definition division_rule :: "expr \<Rightarrow> operator \<Rightarrow> expr \<Rightarrow> expr option" where
  "division_rule l op r =
     (if op \<noteq> FloorDiv then None
      else case const_int r of
        None \<Rightarrow> map_option int_const (exact_multiple_factor l r)
      | Some d \<Rightarrow> exact_quotient_with_remainder l d)"

definition identity_rule :: "expr \<Rightarrow> operator \<Rightarrow> expr \<Rightarrow> expr option" where
  "identity_rule l op r =
     (let left = const_int l; right = const_int r; unit = (if op = Add then 0 else 1) in
      if (op = Add \<or> op = Mult) \<and> right = Some unit then Some l
      else if (op = Add \<or> op = Mult) \<and> left = Some unit then Some r
      else if op = Sub \<and> right = Some 0 then Some l
      else if op = FloorDiv \<and> right = Some 1 then Some l
      else None)"

definition visit_BinOp :: "expr \<Rightarrow> operator \<Rightarrow> expr \<Rightarrow> expr" where
  "visit_BinOp l op r =
     (case literal_rule l op r of Some e \<Rightarrow> e | None \<Rightarrow>
      case division_rule l op r of Some e \<Rightarrow> e | None \<Rightarrow>
      case identity_rule l op r of Some e \<Rightarrow> e | None \<Rightarrow>
        if op = Add \<or> op = Sub then gather_add_chain (BinOp l op r) else BinOp l op r)"

fun fold_visit :: "expr \<Rightarrow> expr" where
  "fold_visit (BinOp l op r) = visit_BinOp (fold_visit l) op (fold_visit r)"
| "fold_visit (UnaryOp op e) = UnaryOp op (fold_visit e)"
| "fold_visit (Attribute e a) = Attribute (fold_visit e) a"
| "fold_visit (Subscript e i) = Subscript (fold_visit e) (fold_visit i)"
| "fold_visit (Node t es) = Node t (map fold_visit es)"
| "fold_visit (Name x) = Name x"
| "fold_visit (Constant c) = Constant c"

section \<open>Values of expressions\<close>

text \<open>
  The integer reading of a shape expression. Names and every node the folder does not look into
  take their value from the environment: \<open>sem\<close> gives the value of a node from the values of its
  children (\<open>None\<close>: no value, the evaluation raises). The arithmetic operators work on integers, as
  the folder's own comment says of shape expressions; \<open>//\<close> and \<open>%\<close> have no value at a zero divisor.
\<close>

datatype 'v py_value = VInt int | VObj 'v

type_synonym 'v node_sem = "string \<Rightarrow> 'v py_value option list \<Rightarrow> 'v py_value option"

definition int_binop :: "operator \<Rightarrow> int \<Rightarrow> int \<Rightarrow> int option" where
  "int_binop op a b =
     (case op of
        Add \<Rightarrow> Some (a + b) | Sub \<Rightarrow> Some (a - b) | Mult \<Rightarrow> Some (a * b)
      | FloorDiv \<Rightarrow> if b = 0 then None else Some (a div b)
      | Mod \<Rightarrow> if b = 0 then None else Some (a mod b)
      | OtherOp s \<Rightarrow> None)"

fun int_of :: "'v py_value option \<Rightarrow> int option" where
  "int_of (Some (VInt n)) = Some n"
| "int_of v = None"

fun ev :: "(string \<Rightarrow> 'v py_value option) \<Rightarrow> 'v node_sem \<Rightarrow> expr \<Rightarrow> 'v py_value option" where
  "ev env sem (Name x) = env x"
| "ev env sem (Constant (IntLit n)) = Some (VInt n)"
| "ev env sem (Constant (BoolLit b)) = Some (VInt (of_bool b))"
| "ev env sem (Constant (OtherLit s)) = sem s []"
| "ev env sem (UnaryOp op e) =
     (case op of
        UAdd \<Rightarrow> map_option VInt (int_of (ev env sem e))
      | USub \<Rightarrow> map_option (VInt \<circ> uminus) (int_of (ev env sem e))
      | OtherUnary s \<Rightarrow> sem s [ev env sem e])"
| "ev env sem (BinOp l op r) =
     (case op of
        OtherOp s \<Rightarrow> sem s [ev env sem l, ev env sem r]
      | _ \<Rightarrow> Option.bind (int_of (ev env sem l)) (\<lambda>a. Option.bind (int_of (ev env sem r))
              (\<lambda>b. map_option VInt (int_binop op a b))))"
| "ev env sem (Attribute e a) = sem (''.'' @ a) [ev env sem e]"
| "ev env sem (Subscript e i) = sem ''[]'' [ev env sem e, ev env sem i]"
| "ev env sem (Node t es) = sem t (map (ev env sem) es)"

text \<open>A node whose children gained values keeps its own: a child that raises is either not looked
  at or makes the node raise.\<close>

definition monotone_sem :: "'v node_sem \<Rightarrow> bool" where
  "monotone_sem sem \<longleftrightarrow>
     (\<forall>t xs ys v. list_all2 (\<lambda>x y. x = None \<or> x = y) xs ys \<longrightarrow> sem t xs = Some v \<longrightarrow> sem t ys = Some v)"

lemma monotone_semD:
  "monotone_sem sem \<Longrightarrow> sem t xs = Some v \<Longrightarrow> list_all2 (\<lambda>x y. x = None \<or> x = y) xs ys \<Longrightarrow>
     sem t ys = Some v"
  by (auto simp: monotone_sem_def)

abbreviation evi :: "(string \<Rightarrow> 'v py_value option) \<Rightarrow> 'v node_sem \<Rightarrow> expr \<Rightarrow> int option" where
  "evi env sem e \<equiv> int_of (ev env sem e)"

lemma int_of_Some [simp]: "int_of v = Some n \<longleftrightarrow> v = Some (VInt n)"
  by (cases v rule: int_of.cases) auto

lemma const_int_ev: "const_int e = Some n \<Longrightarrow> ev env sem e = Some (VInt n)"
  by (induction e arbitrary: n rule: const_int.induct) (auto split: option.splits)

text \<open>An integer operator has a value only on integers.\<close>

lemma ev_int_binop:
  "(\<And>s. op \<noteq> OtherOp s) \<Longrightarrow> ev env sem (BinOp l op r) = Some v \<longleftrightarrow>
     (\<exists>a b c. ev env sem l = Some (VInt a) \<and> ev env sem r = Some (VInt b) \<and>
        int_binop op a b = Some c \<and> v = VInt c)"
  by (cases op) (auto simp: bind_eq_Some_conv)

lemma ev_add_sub [simp]:
  "ev env sem (BinOp l Add r) = Some v \<longleftrightarrow>
     (\<exists>a b. ev env sem l = Some (VInt a) \<and> ev env sem r = Some (VInt b) \<and> v = VInt (a + b))"
  "ev env sem (BinOp l Sub r) = Some v \<longleftrightarrow>
     (\<exists>a b. ev env sem l = Some (VInt a) \<and> ev env sem r = Some (VInt b) \<and> v = VInt (a - b))"
  "ev env sem (BinOp l Mult r) = Some v \<longleftrightarrow>
     (\<exists>a b. ev env sem l = Some (VInt a) \<and> ev env sem r = Some (VInt b) \<and> v = VInt (a * b))"
  "ev env sem (BinOp l FloorDiv r) = Some v \<longleftrightarrow>
     (\<exists>a b. ev env sem l = Some (VInt a) \<and> ev env sem r = Some (VInt b) \<and> b \<noteq> 0 \<and> v = VInt (a div b))"
  "ev env sem (BinOp l Mod r) = Some v \<longleftrightarrow>
     (\<exists>a b. ev env sem l = Some (VInt a) \<and> ev env sem r = Some (VInt b) \<and> b \<noteq> 0 \<and> v = VInt (a mod b))"
  by (auto simp: ev_int_binop int_binop_def simp del: ev.simps split: if_splits)

lemma ev_sign [simp]:
  "ev env sem (UnaryOp UAdd e) = Some v \<longleftrightarrow> (\<exists>a. ev env sem e = Some (VInt a) \<and> v = VInt a)"
  "ev env sem (UnaryOp USub e) = Some v \<longleftrightarrow> (\<exists>a. ev env sem e = Some (VInt a) \<and> v = VInt (- a))"
  by auto

declare ev.simps(5,6) [simp del]

section \<open>Sums of signed terms\<close>

text \<open>The value of a list of signed terms.\<close>

fun terms_val :: "(string \<Rightarrow> 'v py_value option) \<Rightarrow> 'v node_sem \<Rightarrow> terms \<Rightarrow> int option" where
  "terms_val env sem [] = Some 0"
| "terms_val env sem ((s, e) # ts) =
     (case (evi env sem e, terms_val env sem ts) of (Some a, Some b) \<Rightarrow> Some (s * a + b) | _ \<Rightarrow> None)"

lemma terms_val_Cons_Some [simp]:
  "terms_val env sem ((s, e) # ts) = Some v \<longleftrightarrow>
     (\<exists>a b. ev env sem e = Some (VInt a) \<and> terms_val env sem ts = Some b \<and> v = s * a + b)"
  by (auto split: option.splits)

declare terms_val.simps(2) [simp del]

lemma terms_val_append_Some [simp]:
  "terms_val env sem (ts @ us) = Some v \<longleftrightarrow>
     (\<exists>a b. terms_val env sem ts = Some a \<and> terms_val env sem us = Some b \<and> v = a + b)"
proof (induction ts arbitrary: v)
  case (Cons t ts)
  obtain s e where [simp]: "t = (s, e)" by (cases t)
  show ?case by (force simp: Cons)
qed simp

definition state_val :: "(string \<Rightarrow> 'v py_value option) \<Rightarrow> 'v node_sem \<Rightarrow> terms \<times> int \<Rightarrow> int option" where
  "state_val env sem st = map_option (\<lambda>v. v + snd st) (terms_val env sem (fst st))"

lemma leaf_term_val:
  assumes "ev env sem e = Some (VInt n)" "state_val env sem st = Some v"
  shows "state_val env sem (leaf_term e s st) = Some (v + s * n)"
  using assms by (auto simp: leaf_term_def state_val_def dest: const_int_ev [where env = env and sem = sem]
    split: option.splits)

lemma quotient_walk_val:
  assumes "ev env sem e = Some (VInt n)" "state_val env sem st = Some v"
  shows "state_val env sem (quotient_walk e s st) = Some (v + s * n)"
  using assms
proof (induction e s st arbitrary: n v rule: quotient_walk.induct)
  case (1 l op r sign st)
  show ?case
  proof (cases "op = Add \<or> op = Sub")
    case True
    let ?t = "if op = Add then 1 else - 1 :: int"
    from True "1.prems"(1) obtain a b where ab: "ev env sem l = Some (VInt a)" "ev env sem r = Some (VInt b)"
      "n = a + ?t * b" by auto
    have "state_val env sem (quotient_walk r (if op = Add then sign else - sign) (quotient_walk l sign st)) =
        Some (v + sign * a + (if op = Add then sign else - sign) * b)"
      by (rule "1.IH"(2) [OF True ab(2) "1.IH"(1) [OF True ab(1) "1.prems"(2)]])
    then show ?thesis using True ab(3) by (auto simp: algebra_simps)
  next
    case False
    with leaf_term_val [OF "1.prems"] show ?thesis by simp
  qed
qed (simp_all add: leaf_term_val)

lemma chain_walk_val:
  assumes "ev env sem e = Some (VInt n)" "state_val env sem st = Some v"
  shows "state_val env sem (chain_walk e s st) = Some (v + s * n)"
  using assms
proof (induction e s st arbitrary: n v rule: chain_walk.induct)
  case (1 l op r sign st)
  show ?case
  proof (cases "op = Add \<or> op = Sub")
    case True
    let ?t = "if op = Add then 1 else - 1 :: int"
    from True "1.prems"(1) obtain a b where ab: "ev env sem l = Some (VInt a)" "ev env sem r = Some (VInt b)"
      "n = a + ?t * b" by auto
    have "state_val env sem (chain_walk r (if op = Add then sign else - sign) (chain_walk l sign st)) =
        Some (v + sign * a + (if op = Add then sign else - sign) * b)"
      by (rule "1.IH"(2) [OF True ab(2) "1.IH"(1) [OF True ab(1) "1.prems"(2)]])
    then show ?thesis using True ab(3) by (auto simp: algebra_simps)
  next
    case False
    with leaf_term_val [OF "1.prems"] show ?thesis by simp
  qed
next
  case (2 op e sign st)
  show ?case
  proof (cases "op = UAdd \<or> op = USub")
    case True
    with "2.prems"(1) obtain a where a: "ev env sem e = Some (VInt a)" "n = (if op = UAdd then a else - a)"
      by auto
    from "2.IH" [OF True a(1) "2.prems"(2)] show ?thesis using True a(2) by auto
  next
    case False
    with leaf_term_val [OF "2.prems"] show ?thesis by simp
  qed
qed (simp_all add: leaf_term_val)

lemma count_term_val:
  assumes "ev env sem e = Some (VInt n)" "terms_val env sem (map prod.swap d) = Some v"
  shows "terms_val env sem (map prod.swap (count_term d (s, e))) = Some (v + s * n)"
proof -
  have "terms_val env sem (map prod.swap (dict_set e ((case map_of d e of None \<Rightarrow> 0 | Some c \<Rightarrow> c) + s) d)) =
      Some (v + s * n)"
    using assms(2)
  proof (induction d arbitrary: v)
    case (Cons p d)
    obtain f c where [simp]: "p = (f, c)" by (cases p)
    show ?case
    proof (cases "f = e")
      case True
      with Cons.prems assms(1) show ?thesis by (auto simp: algebra_simps)
    next
      case False
      from Cons.prems obtain a b where *: "ev env sem f = Some (VInt a)"
        "terms_val env sem (map prod.swap d) = Some b" "v = c * a + b" by auto
      with Cons.IH [OF *(2)] False show ?thesis by (auto simp: algebra_simps)
    qed
  qed (use assms(1) in simp)
  then show ?thesis by (simp add: count_term_def)
qed

lemma count_terms_val:
  "terms_val env sem ts = Some v \<Longrightarrow> terms_val env sem (map prod.swap d) = Some w \<Longrightarrow>
     terms_val env sem (map prod.swap (foldl count_term d ts)) = Some (w + v)"
proof (induction ts arbitrary: d v w)
  case (Cons t ts)
  obtain s e where [simp]: "t = (s, e)" by (cases t)
  from Cons.prems obtain a b where *: "ev env sem e = Some (VInt a)" "terms_val env sem ts = Some b"
    "v = s * a + b" by auto
  from Cons.IH [OF *(2) count_term_val [OF *(1) Cons.prems(2)]] *(3) show ?case
    by (simp add: add.assoc)
qed simp

lemma combine_like_terms_val:
  assumes "terms_val env sem ts = Some v"
  shows "terms_val env sem (combine_like_terms ts) = Some v"
proof -
  have "terms_val env sem (map prod.swap d) = Some w \<Longrightarrow>
      terms_val env sem [(c, e). (e, c) \<leftarrow> d, c \<noteq> 0] = Some w" for d w
  proof (induction d arbitrary: w)
    case (Cons p d)
    obtain e c where [simp]: "p = (e, c)" by (cases p)
    from Cons.prems obtain a b where "ev env sem e = Some (VInt a)"
      "terms_val env sem (map prod.swap d) = Some b" "w = c * a + b" by auto
    with Cons.IH [of b] show ?case by simp
  qed simp
  with count_terms_val [OF assms, of "[]" 0] show ?thesis by (simp add: combine_like_terms_def)
qed

lemma combine_like_terms_nonzero: "(s, e) \<in> set (combine_like_terms ts) \<Longrightarrow> s \<noteq> 0"
  by (auto simp: combine_like_terms_def split: if_splits)

lemma lead_index_SomeD:
  assumes "lead_index ts = Some i"
  shows "i < length ts" "0 < fst (ts ! i)"
proof -
  from assms obtain s e where "find (\<lambda>(i, sign, e). 0 < sign) (enumerate 0 ts) = Some (i, s, e)"
    by (auto simp: lead_index_def)
  from find_SomeD [OF this] show "i < length ts" "0 < fst (ts ! i)"
    by (auto simp: in_set_enumerate_eq)
qed

text \<open>Rebuilding a sum around its leading term adds every other term exactly once.\<close>

lemma rebuild_part:
  assumes "\<And>i. i \<in> {k..<k + length us} \<Longrightarrow> i \<noteq> lead"
    and "\<And>s e out w n. (s, e) \<in> set us \<Longrightarrow> ev env sem out = Some (VInt w) \<Longrightarrow>
           ev env sem e = Some (VInt n) \<Longrightarrow> ev env sem (step out s e) = Some (VInt (w + s * n))"
    and "terms_val env sem us = Some v" "ev env sem out = Some (VInt w)"
  shows "ev env sem (foldl (\<lambda>out (i, s, e). if i = lead then out else step out s e) out (enumerate k us)) =
           Some (VInt (w + v))"
  using assms
proof (induction us arbitrary: k out v w)
  case (Cons u us)
  obtain s e where [simp]: "u = (s, e)" by (cases u)
  from Cons.prems(3) obtain a b where *: "ev env sem e = Some (VInt a)" "terms_val env sem us = Some b"
    "v = s * a + b" by auto
  have k: "k \<noteq> lead" using Cons.prems(1) [of k] by simp
  have "ev env sem (step out s e) = Some (VInt (w + s * a))"
    by (rule Cons.prems(2)) (use Cons.prems(4) * in simp_all)
  from Cons.IH [OF _ _ *(2) this, of "Suc k"] have
    "ev env sem (foldl (\<lambda>out (i, s, e). if i = lead then out else step out s e) (step out s e)
       (enumerate (Suc k) us)) = Some (VInt (w + s * a + b))"
    using Cons.prems(1,2) by auto
  with k *(3) show ?case by (simp add: add.assoc)
qed simp

lemma rebuild_sum:
  assumes "lead < length ts"
    and "\<And>s e out w n. (s, e) \<in> set ts \<Longrightarrow> ev env sem out = Some (VInt w) \<Longrightarrow>
           ev env sem e = Some (VInt n) \<Longrightarrow> ev env sem (step out s e) = Some (VInt (w + s * n))"
    and "terms_val env sem ts = Some v"
    and "\<And>n. ev env sem (snd (ts ! lead)) = Some (VInt n) \<Longrightarrow>
           ev env sem out = Some (VInt (fst (ts ! lead) * n))"
  shows "ev env sem (foldl (\<lambda>out (i, s, e). if i = lead then out else step out s e) out (enumerate 0 ts)) =
           Some (VInt v)"
proof -
  obtain s e where t: "ts ! lead = (s, e)" by (cases "ts ! lead")
  have ts: "ts = take lead ts @ (s, e) # drop (Suc lead) ts"
    using id_take_nth_drop [OF assms(1)] t by simp
  have "terms_val env sem (take lead ts @ (s, e) # drop (Suc lead) ts) = Some v"
    using assms(3) ts by simp
  then obtain x n y where *: "terms_val env sem (take lead ts) = Some x" "ev env sem e = Some (VInt n)"
    "terms_val env sem (drop (Suc lead) ts) = Some y" "v = x + (s * n + y)" by auto
  let ?f = "\<lambda>out (i, s, e). if i = lead then out else step out s e"
  have "ev env sem (foldl ?f out (enumerate 0 (take lead ts))) = Some (VInt (s * n + x))"
  proof (rule rebuild_part [OF _ _ *(1)])
    show "ev env sem out = Some (VInt (s * n))" using assms(4) [of n] *(2) t by simp
  qed (use assms(1,2) in \<open>auto dest: in_set_takeD\<close>)
  then have "ev env sem (foldl ?f (foldl ?f out (enumerate 0 (take lead ts)))
      (enumerate (Suc lead) (drop (Suc lead) ts))) = Some (VInt (s * n + x + y))"
    by (rule rebuild_part [OF _ _ *(3), rotated 2]) (auto intro: assms(2) dest: in_set_dropD)
  moreover have "enumerate 0 ts = enumerate 0 (take lead ts) @ (lead, s, e) # enumerate (Suc lead) (drop (Suc lead) ts)"
    using assms(1) by (subst ts) (simp add: enumerate_append_eq)
  ultimately show ?thesis using *(4) by (simp add: add_ac)
qed

lemma add_signed_val:
  assumes "ev env sem out = Some (VInt w)" "ev env sem e = Some (VInt n)"
  shows "ev env sem (add_signed out s e) = Some (VInt (if 0 < s then w + n else w - n))"
  using assms by (simp add: add_signed_def)

lemma add_constant_val:
  "ev env sem out = Some (VInt w) \<Longrightarrow> ev env sem (add_constant out c) = Some (VInt (w + c))"
  by (auto simp: add_constant_def add_signed_def)

lemma scaled_term_val:
  "ev env sem e = Some (VInt n) \<Longrightarrow> ev env sem (scaled_term c e) = Some (VInt (c * n))"
  by (auto simp: scaled_term_def)

lemma gather_add_chain_val:
  assumes "ev env sem node = Some (VInt n)"
  shows "ev env sem (gather_add_chain node) = Some (VInt n)"
proof -
  obtain ts0 c where walk: "chain_walk node 1 ([], 0) = (ts0, c)" by (cases "chain_walk node 1 ([], 0)")
  define ts where "ts = combine_like_terms ts0"
  have "state_val env sem ([], 0) = Some 0" by (simp add: state_val_def)
  from chain_walk_val [OF assms this, of 1] walk
  obtain v where v: "terms_val env sem ts = Some v" "n = v + c"
    by (auto simp: state_val_def ts_def dest: combine_like_terms_val)
  show ?thesis
  proof (cases "lead_index ts")
    case None
    with walk assms show ?thesis by (simp add: gather_add_chain_def ts_def)
  next
    case (Some lead)
    note L = lead_index_SomeD [OF this]
    have "ev env sem (foldl (\<lambda>out (i, s, e). if i = lead then out else add_signed out s (scaled_term \<bar>s\<bar> e))
        (scaled_term (fst (ts ! lead)) (snd (ts ! lead))) (enumerate 0 ts)) = Some (VInt v)"
    proof (rule rebuild_sum [OF L(1) _ v(1)])
      show "ev env sem (add_signed out s (scaled_term \<bar>s\<bar> e)) = Some (VInt (w + s * n))"
        if "ev env sem out = Some (VInt w)" "ev env sem e = Some (VInt n)" for s e out w n
        using add_signed_val [OF that(1) scaled_term_val [OF that(2)], of s "\<bar>s\<bar>"]
        by (auto split: if_splits)
    qed (rule scaled_term_val)
    from add_constant_val [OF this, of c] walk Some v(2) show ?thesis
      by (simp add: gather_add_chain_def ts_def Let_def)
  qed
qed

section \<open>Folding keeps the value\<close>

lemma divide_side_val:
  assumes "divide_side d a b = Some q" "ev env sem (BinOp a Mult b) = Some (VInt n)" "0 < d"
  shows "\<exists>m. ev env sem q = Some (VInt m) \<and> n = d * m"
proof -
  from assms(1) obtain k where k: "const_int a = Some k" "k mod d = 0"
    "q = (if k div d = 1 then b else BinOp (int_const (k div d)) Mult b)"
    by (auto simp: divide_side_def Let_def split: option.splits if_splits)
  from k(1) have "ev env sem a = Some (VInt k)" by (rule const_int_ev)
  with assms(2) obtain m where m: "ev env sem b = Some (VInt m)" "n = k * m" by auto
  have "k = d * (k div d)" using k(2) by (simp add: mod_0_imp_dvd)
  with m(2) have n: "n = d * ((k div d) * m)" by (metis mult.assoc)
  have "ev env sem q = Some (VInt ((k div d) * m))" using k(3) m(1) by auto
  with n show ?thesis by blast
qed

lemma divide_multiple_term_val:
  assumes "divide_multiple_term e d = Some q" "ev env sem e = Some (VInt n)" "0 < d"
  shows "\<exists>m. ev env sem q = Some (VInt m) \<and> n = d * m"
proof -
  from assms(1) obtain l r where [simp]: "e = BinOp l Mult r"
    by (cases "(e, d)" rule: divide_multiple_term.cases) auto
  have swap: "ev env sem (BinOp r Mult l) = Some (VInt n)"
    using assms(2) by (auto simp: mult.commute)
  from assms(1) consider "divide_side d l r = Some q" | "divide_side d r l = Some q"
    by (auto split: option.splits)
  then show ?thesis
  proof cases
    case 1
    then show ?thesis by (rule divide_side_val) (use assms(2,3) in simp_all)
  next
    case 2
    then show ?thesis by (rule divide_side_val [OF _ swap assms(3)])
  qed
qed

lemma divided_terms_val:
  assumes "\<And>s e. (s, e) \<in> set ts \<Longrightarrow> divide_multiple_term e d \<noteq> None"
    and "terms_val env sem ts = Some v" "0 < d"
  shows "\<exists>w. terms_val env sem (map (\<lambda>(s, e). (s, the (divide_multiple_term e d))) ts) = Some w \<and> v = d * w"
  using assms(1,2)
proof (induction ts arbitrary: v)
  case (Cons t ts)
  obtain s e where [simp]: "t = (s, e)" by (cases t)
  from Cons.prems(1) [of s e] obtain q where q: "divide_multiple_term e d = Some q" by auto
  from Cons.prems(2) obtain a b where *: "ev env sem e = Some (VInt a)" "terms_val env sem ts = Some b"
    "v = s * a + b" by auto
  from divide_multiple_term_val [OF q *(1) assms(3)] obtain m where "ev env sem q = Some (VInt m)" "a = d * m"
    by blast
  moreover from Cons.IH [OF _ *(2)] Cons.prems(1) obtain w where
    "terms_val env sem (map (\<lambda>(s, e). (s, the (divide_multiple_term e d))) ts) = Some w" "b = d * w"
    by auto
  moreover have "s * (d * m) + d * w = d * (s * m + w)" for m w by (simp add: distrib_left mult.left_commute)
  ultimately show ?case using q *(3) by fastforce
qed simp

text \<open>Every term of a chain carries the sign 1 or -1.\<close>

definition unit_signs :: "terms \<Rightarrow> bool" where
  "unit_signs ts \<longleftrightarrow> (\<forall>p \<in> set ts. \<bar>fst p\<bar> = 1)"

lemma leaf_term_signs: "unit_signs (fst st) \<Longrightarrow> \<bar>sign\<bar> = 1 \<Longrightarrow> unit_signs (fst (leaf_term e sign st))"
  by (auto simp: leaf_term_def unit_signs_def split: option.splits)

lemma quotient_walk_signs:
  "unit_signs (fst st) \<Longrightarrow> \<bar>sign\<bar> = 1 \<Longrightarrow> unit_signs (fst (quotient_walk e sign st))"
proof (induction e sign st rule: quotient_walk.induct)
  case (1 l op r sign st)
  show ?case
  proof (cases "op = Add \<or> op = Sub")
    case True
    have "\<bar>if op = Add then sign else - sign\<bar> = 1" using "1.prems"(2) by auto
    with "1.IH"(2) [OF True "1.IH"(1) [OF True "1.prems"]] True show ?thesis by simp
  next
    case False
    with leaf_term_signs [OF "1.prems"] show ?thesis by simp
  qed
qed (simp_all add: leaf_term_signs)

lemma exact_filter:
  fixes qs :: "('a \<times> 'b option) list"
  shows "length [(s, the q). (s, q) \<leftarrow> qs, q \<noteq> None] = length qs \<longleftrightarrow> (\<forall>(s, q) \<in> set qs. q \<noteq> None)"
  and "(\<forall>(s, q) \<in> set qs. q \<noteq> None) \<Longrightarrow> [(s, the q). (s, q) \<leftarrow> qs, q \<noteq> None] = map (\<lambda>(s, q). (s, the q)) qs"
proof -
  have le: "length [(s, the q). (s, q) \<leftarrow> rs, q \<noteq> None] \<le> length rs" for rs :: "('a \<times> 'b option) list"
    by (induction rs) auto
  show "length [(s, the q). (s, q) \<leftarrow> qs, q \<noteq> None] = length qs \<longleftrightarrow> (\<forall>(s, q) \<in> set qs. q \<noteq> None)"
  proof (induction qs)
    case (Cons p qs)
    with le [of qs] show ?case by (cases p) auto
  qed simp
  show "(\<forall>(s, q) \<in> set qs. q \<noteq> None) \<Longrightarrow> [(s, the q). (s, q) \<leftarrow> qs, q \<noteq> None] = map (\<lambda>(s, q). (s, the q)) qs"
    by (induction qs) auto
qed

lemma exact_quotient_val:
  assumes "exact_quotient_with_remainder e d = Some q" "ev env sem e = Some (VInt n)"
  shows "ev env sem q = Some (VInt (n div d))"
proof -
  from assms(1) have d: "0 < d" by (auto simp: exact_quotient_with_remainder_def split: if_splits)
  obtain ts c where walk: "quotient_walk e 1 ([], 0) = (ts, c)" by (cases "quotient_walk e 1 ([], 0)")
  let ?qs = "map (\<lambda>(s, e). (s, divide_multiple_term e d)) ts"
  define xs where "xs = map (\<lambda>(s, e). (s, the (divide_multiple_term e d))) ts"
  from assms(1) walk d have
    len: "length [(s, the q). (s, q) \<leftarrow> ?qs, q \<noteq> None] = length ?qs"
    by (auto simp: exact_quotient_with_remainder_def Let_def split: if_splits)
  then have all: "\<forall>(s, q) \<in> set ?qs. q \<noteq> None" by (rule iffD1 [OF exact_filter(1)])
  have exact: "[(s, the q). (s, q) \<leftarrow> ?qs, q \<noteq> None] = xs"
    by (subst exact_filter(2) [OF all]) (auto simp: xs_def)
  from assms(1) walk d len obtain lead where lead: "lead_index xs = Some lead"
    and q: "q = add_constant (foldl (\<lambda>out (i, s, e). if i = lead then out else add_signed out s e)
          (snd (xs ! lead)) (enumerate 0 xs)) (c div d)"
    unfolding exact_quotient_with_remainder_def walk Let_def prod.case exact
    by (auto split: if_splits option.splits)
  have "state_val env sem ([], 0) = Some 0" by (simp add: state_val_def)
  from quotient_walk_val [OF assms(2) this, of 1] walk
  obtain v where v: "terms_val env sem ts = Some v" "n = v + c" by (auto simp: state_val_def)
  from divided_terms_val [OF _ v(1) d] all obtain w where
    w: "terms_val env sem xs = Some w" "v = d * w" by (force simp: xs_def)
  have "unit_signs ts" using quotient_walk_signs [of "([], 0)" 1 e] walk by (simp add: unit_signs_def)
  then have signs: "\<bar>s\<bar> = 1" if "(s, e) \<in> set xs" for s e
    using that by (auto simp: xs_def unit_signs_def)
  note L = lead_index_SomeD [OF lead]
  have lead1: "fst (xs ! lead) = 1"
    using signs [of "fst (xs ! lead)" "snd (xs ! lead)"] L by simp
  have "ev env sem (foldl (\<lambda>out (i, s, e). if i = lead then out else add_signed out s e)
          (snd (xs ! lead)) (enumerate 0 xs)) = Some (VInt w)"
  proof (rule rebuild_sum [OF L(1) _ w(1)])
    show "ev env sem (add_signed out s e) = Some (VInt (u + s * m))"
      if "(s, e) \<in> set xs" "ev env sem out = Some (VInt u)" "ev env sem e = Some (VInt m)" for s e out u m
      using add_signed_val [OF that(2,3), of s] signs [OF that(1)] by (auto split: if_splits)
  qed (simp add: lead1)
  from add_constant_val [OF this, of "c div d"] q have "ev env sem q = Some (VInt (w + c div d))" by simp
  moreover have "n div d = w + c div d" using v(2) w(2) d by simp
  ultimately show ?thesis by simp
qed

lemma literal_rule_val:
  assumes "literal_rule l op r = Some e" "ev env sem (BinOp l op r) = Some v"
  shows "ev env sem e = Some v"
proof -
  from assms(1) obtain a b where ab: "const_int l = Some a" "const_int r = Some b"
    by (auto simp: literal_rule_def split: option.splits)
  from const_int_ev [OF ab(1), of env sem] const_int_ev [OF ab(2), of env sem] ab assms show ?thesis
    by (cases op) (auto simp: literal_rule_def fold_ops_def split: if_splits)
qed

lemma exact_multiple_factor_val:
  assumes "exact_multiple_factor l r = Some k" "ev env sem (BinOp l FloorDiv r) = Some v"
  shows "v = VInt k"
proof -
  from assms(1) obtain x y where l: "l = BinOp x Mult y"
    by (cases "(l, r)" rule: exact_multiple_factor.cases) auto
  from assms(1) consider "const_int x = Some k" "y = r" | "const_int y = Some k" "x = r"
    by (auto simp: l split: option.splits if_splits)
  then show ?thesis
    using assms(2) by cases (auto simp: l dest!: const_int_ev [where env = env and sem = sem])
qed

lemma division_rule_val:
  assumes "division_rule l op r = Some e" "ev env sem (BinOp l op r) = Some v"
  shows "ev env sem e = Some v"
proof -
  from assms(1) have [simp]: "op = FloorDiv" by (auto simp: division_rule_def split: if_splits)
  from assms(2) obtain a b where ab: "ev env sem l = Some (VInt a)" "ev env sem r = Some (VInt b)"
    "v = VInt (a div b)" by auto
  show ?thesis
  proof (cases "const_int r")
    case None
    with assms(1) obtain k where k: "exact_multiple_factor l r = Some k" "e = int_const k"
      by (auto simp: division_rule_def)
    have "v = VInt k" by (rule exact_multiple_factor_val [OF k(1)]) (use assms(2) in simp)
    with k(2) show ?thesis by simp
  next
    case (Some d)
    with const_int_ev [OF Some, of env sem] ab(2) have "b = d" by simp
    from Some assms(1) have "exact_quotient_with_remainder l d = Some e" by (simp add: division_rule_def)
    from exact_quotient_val [OF this ab(1)] ab(3) \<open>b = d\<close> show ?thesis by simp
  qed
qed

lemma identity_rule_val:
  assumes "identity_rule l op r = Some e" "ev env sem (BinOp l op r) = Some v"
  shows "ev env sem e = Some v"
proof -
  from assms(1) consider "op = Add" "const_int r = Some 0" "e = l" | "op = Mult" "const_int r = Some 1" "e = l"
    | "op = Add" "const_int l = Some 0" "e = r" | "op = Mult" "const_int l = Some 1" "e = r"
    | "op = Sub" "const_int r = Some 0" "e = l" | "op = FloorDiv" "const_int r = Some 1" "e = l"
    by (auto simp: identity_rule_def Let_def split: if_splits)
  then show ?thesis
    using assms(2) by cases (auto dest!: const_int_ev [where env = env and sem = sem])
qed

lemma visit_BinOp_val:
  assumes "ev env sem (BinOp l op r) = Some v"
  shows "ev env sem (visit_BinOp l op r) = Some v"
proof -
  have "ev env sem (gather_add_chain (BinOp l op r)) = Some v" if "op = Add \<or> op = Sub"
  proof -
    from that assms obtain n where "v = VInt n" by auto
    with gather_add_chain_val assms show ?thesis by blast
  qed
  then show ?thesis
    using assms literal_rule_val [OF _ assms] division_rule_val [OF _ assms] identity_rule_val [OF _ assms]
    by (auto simp: visit_BinOp_def split: option.splits)
qed

text \<open>Children that keep their values keep the value of the node above them.\<close>

lemma ev_BinOp_mono:
  assumes "monotone_sem sem" "ev env sem (BinOp l op r) = Some v"
    and "\<And>v. ev env sem l = Some v \<Longrightarrow> ev env sem l' = Some v"
    and "\<And>v. ev env sem r = Some v \<Longrightarrow> ev env sem r' = Some v"
  shows "ev env sem (BinOp l' op r') = Some v"
proof (cases op)
  case (OtherOp s)
  with assms(2) have "sem s [ev env sem l, ev env sem r] = Some v" by (simp add: ev.simps)
  then have "sem s [ev env sem l', ev env sem r'] = Some v"
    by (rule monotone_semD [OF assms(1)])
      (use assms(3,4) in \<open>cases "ev env sem l"; cases "ev env sem r"; simp\<close>)
  with OtherOp show ?thesis by (simp add: ev.simps)
qed (use assms(2-4) in auto)

lemma ev_UnaryOp_mono:
  assumes "monotone_sem sem" "ev env sem (UnaryOp op e) = Some v"
    and "\<And>v. ev env sem e = Some v \<Longrightarrow> ev env sem e' = Some v"
  shows "ev env sem (UnaryOp op e') = Some v"
proof (cases op)
  case (OtherUnary s)
  with assms(2) have "sem s [ev env sem e] = Some v" by (simp add: ev.simps)
  then have "sem s [ev env sem e'] = Some v"
    by (rule monotone_semD [OF assms(1)]) (use assms(3) in \<open>cases "ev env sem e"; simp\<close>)
  with OtherUnary show ?thesis by (simp add: ev.simps)
qed (use assms(2,3) in auto)

lemma kept_le: "(\<And>v. x = Some v \<Longrightarrow> y = Some v) \<Longrightarrow> x = None \<or> x = y"
  by (cases x) auto

lemma fold_visit_val:
  assumes "monotone_sem sem"
  shows "ev env sem e = Some v \<Longrightarrow> ev env sem (fold_visit e) = Some v"
proof (induction e arbitrary: v)
  case (UnaryOp op e)
  from ev_UnaryOp_mono [OF assms UnaryOp.prems UnaryOp.IH] show ?case by simp
next
  case (BinOp l op r)
  from visit_BinOp_val [OF ev_BinOp_mono [OF assms BinOp.prems BinOp.IH]] show ?case by simp
next
  case (Attribute e a)
  have "list_all2 (\<lambda>x y. x = None \<or> x = y) [ev env sem e] [ev env sem (fold_visit e)]"
    by (intro list.rel_intros kept_le Attribute.IH)
  from monotone_semD [OF assms Attribute.prems [unfolded ev.simps] this] show ?case by simp
next
  case (Subscript e i)
  have "list_all2 (\<lambda>x y. x = None \<or> x = y) [ev env sem e, ev env sem i]
      [ev env sem (fold_visit e), ev env sem (fold_visit i)]"
    by (intro list.rel_intros kept_le Subscript.IH)
  from monotone_semD [OF assms Subscript.prems [unfolded ev.simps] this] show ?case by simp
next
  case (Node t es)
  have "list_all2 (\<lambda>x y. x = None \<or> x = y) (map (ev env sem) es) (map (ev env sem) (map fold_visit es))"
    using Node.IH by (auto simp: list_all2_conv_all_nth intro!: kept_le)
  from monotone_semD [OF assms Node.prems [unfolded ev.simps] this] show ?case by simp
qed simp_all

text \<open>\<open>ast.parse\<close> and \<open>ast.unparse\<close> are Python's own: a parameter each. The text is rewritten only
  when it mentions an operator and parses.\<close>

definition fold_shape_expr :: "(string \<Rightarrow> expr option) \<Rightarrow> (expr \<Rightarrow> string) \<Rightarrow> string \<Rightarrow> string" where
  "fold_shape_expr parse unparse txt =
     (if \<not> list_ex (\<lambda>c. c \<in> set txt) ''+-*/'' then txt
      else case parse txt of None \<Rightarrow> txt | Some tree \<Rightarrow> unparse (fold_visit tree))"

text \<open>C25. Folding a shape expression keeps its value: under any values of the names and any
  semantics of the nodes the folder does not look into, an expression that evaluates to a value
  folds to an expression that evaluates to the same value. This covers literal folding, the
  identities, exact multiples, the exact division with remainder and the gathering of additive
  chains with like terms, on every nesting of them. The remaining freedom is one way: an expression
  that raises at a zero divisor may fold to one that does not.\<close>

theorem fold_preserves_value:
  assumes "monotone_sem sem" "ev env sem e = Some v"
  shows "ev env sem (fold_visit e) = Some v"
  by (rule fold_visit_val [OF assms])

definition witness_expr :: expr where
  "witness_expr =
     BinOp (BinOp (BinOp (int_const 3) Mult (BinOp (BinOp (BinOp (int_const 3) Mult (Name ''K'')) Add (int_const 2))
        FloorDiv (int_const 3))) Sub (UnaryOp USub (Name ''K''))) Sub (int_const 1)"

theorem fold_preserves_value_witness:
  "let env = (\<lambda>x. Some (VInt (- 7))); sem = (\<lambda>t xs. None) in
     ev env sem witness_expr = (Some (VInt (- 29)) :: unit py_value option) \<and>
     ev env sem (fold_visit witness_expr) = Some (VInt (- 29)) \<and>
     fold_visit witness_expr =
       BinOp (BinOp (BinOp (int_const 3) Mult (Name ''K'')) Add (Name ''K'')) Sub (int_const 1)"
proof -
  let ?env = "\<lambda>x :: string. Some (VInt (- 7) :: unit py_value)"
  let ?sem = "\<lambda>(t :: string) (xs :: unit py_value option list). None :: unit py_value option"
  have v: "ev ?env ?sem witness_expr = Some (VInt (- 29))"
    by (simp add: witness_expr_def)
  have "monotone_sem ?sem" by (simp add: monotone_sem_def)
  note fold_preserves_value [OF this v]
  moreover have "fold_visit witness_expr =
      BinOp (BinOp (BinOp (int_const 3) Mult (Name ''K'')) Add (Name ''K'')) Sub (int_const 1)"
    by code_simp
  ultimately show ?thesis
    using v by simp
qed

section \<open>Scalar definitions of a function\<close>

text \<open>
  The nodes of a function body: an assignment, an augmented assignment, or any other node, each with
  its child nodes in field order. \<open>walk_nodes\<close> visits them with a queue, children of a node behind
  everything queued before.
\<close>

datatype stmt = Assign "expr list" expr | AugAssign expr operator expr | OtherStmt string

datatype ast_node = AstNode stmt "ast_node list"

function walk_nodes :: "ast_node list \<Rightarrow> stmt list" where
  "walk_nodes [] = []"
| "walk_nodes (AstNode s children # todo) = s # walk_nodes (todo @ children)"
  by pat_completeness auto
termination by (relation "measure (\<lambda>todo. sum_list (map size todo))") (auto simp: size_list_conv_sum_list)

fun target_names :: "expr \<Rightarrow> string list" where
  "target_names (Name x) = [x]"
| "target_names (Node t es) =
     (if t = ''Tuple'' \<or> t = ''List'' then concat (map target_names es) else [])"
| "target_names e = []"

definition count_target :: "int \<Rightarrow> (string, int) dict \<Rightarrow> expr \<Rightarrow> (string, int) dict" where
  "count_target inc counts tgt =
     foldl (\<lambda>c x. dict_set x ((case map_of c x of None \<Rightarrow> 0 | Some n \<Rightarrow> n) + inc) c) counts (target_names tgt)"

definition count_stmt :: "(string, int) dict \<Rightarrow> stmt \<Rightarrow> (string, int) dict" where
  "count_stmt counts s =
     (case s of
        AugAssign tgt op v \<Rightarrow> count_target 2 counts tgt
      | Assign targets v \<Rightarrow> foldl (count_target 1) counts targets
      | OtherStmt t \<Rightarrow> counts)"

definition binding_counts :: "ast_node \<Rightarrow> (string, int) dict" where
  "binding_counts fn = foldl count_stmt [] (walk_nodes [fn])"

fun is_scalar_dim_rhs :: "expr \<Rightarrow> bool" where
  "is_scalar_dim_rhs (Name x) = True"
| "is_scalar_dim_rhs (Constant c) = (case c of OtherLit s \<Rightarrow> False | _ \<Rightarrow> True)"
| "is_scalar_dim_rhs (UnaryOp op e) = is_scalar_dim_rhs e"
| "is_scalar_dim_rhs (BinOp l op r) = (is_scalar_dim_rhs l \<and> is_scalar_dim_rhs r)"
| "is_scalar_dim_rhs (Subscript (Attribute (Name x) a) i) = (a = ''shape'')"
| "is_scalar_dim_rhs e = False"

definition starts_with :: "string option \<Rightarrow> string \<Rightarrow> bool" where
  "starts_with prefix name =
     (case prefix of None \<Rightarrow> True | Some p \<Rightarrow> take (length p) name = p)"

definition collect_step ::
  "(expr \<Rightarrow> string) \<Rightarrow> string option \<Rightarrow> (string, int) dict \<Rightarrow> (string, string) dict \<Rightarrow> stmt \<Rightarrow> (string, string) dict" where
  "collect_step unparse prefix counts defs s =
     (case s of
        Assign [Name name] v \<Rightarrow>
          if name \<in> set (keys defs) then defs
          else if \<not> starts_with prefix name then defs
          else if (case map_of counts name of None \<Rightarrow> 0 | Some n \<Rightarrow> n) > 1 then defs
          else if \<not> is_scalar_dim_rhs v then defs
          else dict_set name (unparse v) defs
      | _ \<Rightarrow> defs)"

definition collect_inlined_scalar_defs ::
  "(expr \<Rightarrow> string) \<Rightarrow> string option \<Rightarrow> ast_node \<Rightarrow> (string, string) dict" where
  "collect_inlined_scalar_defs unparse prefix fn =
     foldl (collect_step unparse prefix (binding_counts fn)) [] (walk_nodes [fn])"

section \<open>Expansion of definitions in a text\<close>

text \<open>\<open>IDENT_RE.sub\<close>: the text is cut at its identifiers, each found at the leftmost position and
  taken as long as it goes; every other character stays.\<close>

definition ident_start :: "char \<Rightarrow> bool" where
  "ident_start c \<longleftrightarrow> (CHR ''A'' \<le> c \<and> c \<le> CHR ''Z'') \<or> (CHR ''a'' \<le> c \<and> c \<le> CHR ''z'') \<or> c = CHR ''_''"

definition ident_char :: "char \<Rightarrow> bool" where
  "ident_char c \<longleftrightarrow> ident_start c \<or> (CHR ''0'' \<le> c \<and> c \<le> CHR ''9'')"

datatype piece = Ident string | Char char

function pieces_of :: "string \<Rightarrow> piece list" where
  "pieces_of [] = []"
| "pieces_of (c # cs) =
     (if ident_start c then Ident (c # takeWhile ident_char cs) # pieces_of (dropWhile ident_char cs)
      else Char c # pieces_of cs)"
  by pat_completeness auto
termination by (relation "measure length") (auto simp: le_imp_less_Suc length_dropWhile_le)

definition idents :: "string \<Rightarrow> string list" where
  "idents txt = [x. Ident x \<leftarrow> pieces_of txt]"


function expand_definitions :: "(string, string) dict \<Rightarrow> string list \<Rightarrow> string \<Rightarrow> string" where
  "expand_definitions defs active txt =
     concat (map (\<lambda>p. case p of
         Char c \<Rightarrow> [c]
       | Ident x \<Rightarrow>
           (case map_of defs x of
              None \<Rightarrow> x
            | Some body \<Rightarrow>
                if x \<in> set active then x
                else ''('' @ expand_definitions defs (active @ [x]) body @ '')'')) (pieces_of txt))"
  by pat_completeness auto
termination
proof (relation "measure (\<lambda>(defs, active, txt). card (set (keys defs) - set active))", goal_cases)
  case (2 ds as s p x t)
  then have "x \<in> set (keys ds) - set as"
    by (force simp: keys_def dest: map_of_SomeD)
  then have "set (keys ds) - set (as @ [x]) \<subset> set (keys ds) - set as" by auto
  from psubset_card_mono [OF _ this] show ?case by simp
qed simp

definition substitute_inlined_scalar_defs ::
  "(string \<Rightarrow> expr option) \<Rightarrow> (expr \<Rightarrow> string) \<Rightarrow> string list \<Rightarrow> (string, string) dict \<Rightarrow> string list" where
  "substitute_inlined_scalar_defs parse unparse tokens defs =
     (if defs = [] then tokens
      else map (\<lambda>tok. fold_shape_expr parse unparse (expand_definitions defs [] tok)) tokens)"

section \<open>What is collected\<close>

text \<open>How often a statement binds a name: an augmented assignment counts twice.\<close>

definition bound_count :: "string \<Rightarrow> stmt \<Rightarrow> nat" where
  "bound_count x s =
     (case s of
        AugAssign tgt op v \<Rightarrow> 2 * count_list (target_names tgt) x
      | Assign targets v \<Rightarrow> sum_list (map (\<lambda>t. count_list (target_names t) x) targets)
      | OtherStmt t \<Rightarrow> 0)"

definition count_of :: "(string, int) dict \<Rightarrow> string \<Rightarrow> int" where
  "count_of c x = (case map_of c x of None \<Rightarrow> 0 | Some n \<Rightarrow> n)"

lemma count_of_dict_set [simp]: "count_of (dict_set x n c) y = (if x = y then n else count_of c y)"
  by (simp add: count_of_def update_conv')

lemma count_of_target: "count_of (count_target inc c t) x = count_of c x + inc * int (count_list (target_names t) x)"
proof -
  have "count_of (foldl (\<lambda>c x. dict_set x (count_of c x + inc) c) c xs) x = count_of c x + inc * int (count_list xs x)"
    for xs
    by (induction xs arbitrary: c) (auto simp: algebra_simps)
  then show ?thesis by (simp add: count_target_def count_of_def)
qed

lemma count_of_stmt: "count_of (count_stmt c s) x = count_of c x + int (bound_count x s)"
proof (cases s)
  case (Assign ts v)
  have "count_of (foldl (count_target 1) c ts) x = count_of c x + int (sum_list (map (\<lambda>t. count_list (target_names t) x) ts))"
    by (induction ts arbitrary: c) (auto simp: count_of_target)
  with Assign show ?thesis by (simp add: count_stmt_def bound_count_def)
qed (simp_all add: count_stmt_def bound_count_def count_of_target)

lemma count_of_binding_counts:
  "count_of (binding_counts fn) x = int (sum_list (map (bound_count x) (walk_nodes [fn])))"
proof -
  have "count_of (foldl count_stmt c ss) x = count_of c x + int (sum_list (map (bound_count x) ss))" for c ss
    by (induction ss arbitrary: c) (auto simp: count_of_stmt)
  then show ?thesis by (simp add: binding_counts_def count_of_def)
qed

lemma sum_one_filter:
  assumes "s \<in> set ss" "f s = (1 :: nat)"
  shows "sum_list (map f ss) \<le> 1 \<longleftrightarrow> filter (\<lambda>t. 0 < f t) ss = [s]"
proof
  assume le: "sum_list (map f ss) \<le> 1"
  from assms(1) obtain as bs where ss: "ss = as @ s # bs" by (meson split_list)
  with le assms(2) have "sum_list (map f as) = 0" "sum_list (map f bs) = 0" by auto
  then have "\<forall>t \<in> set as \<union> set bs. f t = 0" by auto
  then have "filter (\<lambda>t. 0 < f t) as = []" "filter (\<lambda>t. 0 < f t) bs = []" by auto
  with ss assms(2) show "filter (\<lambda>t. 0 < f t) ss = [s]" by simp
next
  assume "filter (\<lambda>t. 0 < f t) ss = [s]"
  moreover have "sum_list (map f ss) = sum_list (map f (filter (\<lambda>t. 0 < f t) ss))"
    by (induction ss) auto
  ultimately show "sum_list (map f ss) \<le> 1" using assms(2) by simp
qed

text \<open>Whether a statement is a definition to collect, and the loop as a search.\<close>

definition collects :: "string option \<Rightarrow> (string, int) dict \<Rightarrow> string \<Rightarrow> stmt \<Rightarrow> expr option" where
  "collects prefix counts x s =
     (case s of Assign [Name y] v \<Rightarrow>
        if y = x \<and> starts_with prefix x \<and> count_of counts x \<le> 1 \<and> is_scalar_dim_rhs v then Some v else None
      | _ \<Rightarrow> None)"

lemma collect_step_lookup:
  "map_of (collect_step unparse prefix counts defs s) x =
     (case map_of defs x of Some t \<Rightarrow> Some t | None \<Rightarrow> map_option unparse (collects prefix counts x s))"
proof -
  have keys: "y \<in> set (keys defs) \<longleftrightarrow> map_of defs y \<noteq> None" for y
    by (auto simp: keys_def map_of_eq_None_iff)
  consider y v where "s = Assign [Name y] v" | "\<forall>y v. s \<noteq> Assign [Name y] v" by blast
  then show ?thesis
  proof cases
    case 1
    then show ?thesis
      by (auto simp: collect_step_def collects_def keys count_of_def update_conv' split: option.splits)
  next
    case 2
    then show ?thesis
      by (auto simp: collect_step_def collects_def split: option.splits stmt.splits list.splits expr.splits)
  qed
qed

lemma collect_fold_lookup:
  "map_of (foldl (collect_step unparse prefix counts) defs ss) x =
     (case map_of defs x of Some t \<Rightarrow> Some t
      | None \<Rightarrow> map_option (\<lambda>s. unparse (the (collects prefix counts x s))) (find (\<lambda>s. collects prefix counts x s \<noteq> None) ss))"
proof (induction ss arbitrary: defs)
  case (Cons s ss)
  then show ?case by (auto simp: collect_step_lookup split: option.splits)
qed (simp split: option.splits)

lemma collects_Some:
  "collects prefix counts x s = Some v \<longleftrightarrow>
     s = Assign [Name x] v \<and> starts_with prefix x \<and> count_of counts x \<le> 1 \<and> is_scalar_dim_rhs v"
  by (auto simp: collects_def split: stmt.splits list.splits expr.splits)

text \<open>The scalar definitions collected from a function are exactly the names that one statement
  of the whole walk binds, a plain assignment to that name alone, whose right side is a scalar
  dimension expression, and that carry the prefix: a name that any other assignment, tuple target or
  augmented assignment also binds is never collected.\<close>

theorem collected_iff_single_assignment:
  "map_of (collect_inlined_scalar_defs unparse prefix fn) x = Some txt \<longleftrightarrow>
     (\<exists>rhs. [s \<leftarrow> walk_nodes [fn]. 0 < bound_count x s] = [Assign [Name x] rhs] \<and>
        txt = unparse rhs \<and> is_scalar_dim_rhs rhs \<and> starts_with prefix x)"
  (is "?L \<longleftrightarrow> ?R")
proof -
  let ?c = "binding_counts fn" and ?ss = "walk_nodes [fn]"
  have le: "count_of ?c x \<le> 1 \<longleftrightarrow> [s \<leftarrow> ?ss. 0 < bound_count x s] = [Assign [Name x] rhs]"
    if "Assign [Name x] rhs \<in> set ?ss" for rhs
    using sum_one_filter [OF that, of "bound_count x"]
    by (simp add: count_of_binding_counts bound_count_def)
  have L: "?L \<longleftrightarrow> (\<exists>s. find (\<lambda>s. collects prefix ?c x s \<noteq> None) ?ss = Some s \<and>
      txt = unparse (the (collects prefix ?c x s)))"
    by (auto simp: collect_inlined_scalar_defs_def collect_fold_lookup)
  show ?thesis
  proof
    assume ?L
    with L obtain s where s: "find (\<lambda>s. collects prefix ?c x s \<noteq> None) ?ss = Some s"
      "txt = unparse (the (collects prefix ?c x s))" by blast
    from find_SomeD [OF s(1)] obtain v where v: "s \<in> set ?ss" "collects prefix ?c x s = Some v" by auto
    from v(2) have "s = Assign [Name x] v" by (simp add: collects_Some)
    with v s(2) have "txt = unparse v" by simp
    with v \<open>s = _\<close> le [of v] show ?R by (auto simp: collects_Some)
  next
    assume ?R
    then obtain rhs where r: "[s \<leftarrow> ?ss. 0 < bound_count x s] = [Assign [Name x] rhs]"
      "txt = unparse rhs" "is_scalar_dim_rhs rhs" "starts_with prefix x" by blast
    have mem: "Assign [Name x] rhs \<in> set [s \<leftarrow> ?ss. 0 < bound_count x s]" by (subst r(1)) simp
    then have mem: "Assign [Name x] rhs \<in> set ?ss" by simp
    with le [OF mem] r have c: "collects prefix ?c x (Assign [Name x] rhs) = Some rhs"
      by (simp add: collects_Some)
    with mem have "find (\<lambda>s. collects prefix ?c x s \<noteq> None) ?ss \<noteq> None" by (auto simp: find_None_iff)
    then obtain s where s: "find (\<lambda>s. collects prefix ?c x s \<noteq> None) ?ss = Some s" by blast
    from find_SomeD [OF this] obtain v where v: "s \<in> set ?ss" "s = Assign [Name x] v"
      by (auto simp: collects_Some)
    from v have "s \<in> set [s \<leftarrow> ?ss. 0 < bound_count x s]" by (simp add: bound_count_def)
    with r(1) v(2) have "s = Assign [Name x] rhs" by simp
    with s c r(2) L show ?L by simp
  qed
qed

section \<open>Expansion eliminates the defined names\<close>

lemma ident_start_char [simp]: "ident_start c \<Longrightarrow> ident_char c"
  by (simp add: ident_char_def)

definition ident_free_head :: "string \<Rightarrow> bool" where
  "ident_free_head s \<longleftrightarrow> (s = [] \<or> \<not> ident_char (hd s))"

definition is_ident :: "string \<Rightarrow> bool" where
  "is_ident x \<longleftrightarrow> x \<noteq> [] \<and> ident_start (hd x) \<and> list_all ident_char x"

lemma takeWhile_ident:
  "list_all P xs \<Longrightarrow> ys = [] \<or> \<not> P (hd ys) \<Longrightarrow> takeWhile P (xs @ ys) = xs \<and> dropWhile P (xs @ ys) = ys"
  by (induction xs) (cases ys; auto)+

lemma pieces_of_ident:
  assumes "is_ident x" "ident_free_head s"
  shows "pieces_of (x @ s) = Ident x # pieces_of s"
proof -
  from assms(1) obtain c cs where x: "x = c # cs" "ident_start c" "list_all ident_char cs"
    by (cases x) (auto simp: is_ident_def)
  with takeWhile_ident [OF x(3), of s] assms(2) show ?thesis
    by (simp add: ident_free_head_def)
qed

text \<open>A character that no identifier contains cuts a text in two.\<close>

lemma pieces_of_cut:
  "\<not> ident_char c \<Longrightarrow> pieces_of (xs @ c # ys) = pieces_of xs @ Char c # pieces_of ys"
proof (induction xs rule: pieces_of.induct)
  case 1
  then show ?case using ident_start_char by auto
next
  case (2 d xs)
  show ?case
  proof (cases "ident_start d")
    case True
    have "takeWhile ident_char (xs @ c # ys) = takeWhile ident_char xs"
      "dropWhile ident_char (xs @ c # ys) = dropWhile ident_char xs @ c # ys"
      using "2.prems" by (induction xs) auto
    with True "2.IH"(1) [OF True "2.prems"] show ?thesis by simp
  next
    case False
    with "2.IH"(2) [OF False "2.prems"] show ?thesis by simp
  qed
qed

lemma idents_cut: "\<not> ident_char c \<Longrightarrow> idents (xs @ c # ys) = idents xs @ idents ys"
  by (simp add: idents_def pieces_of_cut)

lemma idents_Nil [simp]: "idents [] = []"
  by (simp add: idents_def)

lemma idents_char: "\<not> ident_start c \<Longrightarrow> idents (c # s) = idents s"
  by (simp add: idents_def)

lemma idents_parens: "idents (''('' @ t @ '')'' @ s) = idents t @ idents s"
proof -
  have "\<not> ident_char CHR ''(''" "\<not> ident_char CHR '')''"
    by (simp_all add: ident_char_def ident_start_def less_eq_char_def)
  then show ?thesis
    using idents_cut [of "CHR ''(''" "[]" "t @ '')'' @ s"] idents_cut [of "CHR '')''" t s] by simp
qed

text \<open>One piece of the expansion, and the identifiers of the whole from those of its pieces.\<close>

definition expand_piece :: "(string, string) dict \<Rightarrow> string list \<Rightarrow> piece \<Rightarrow> string" where
  "expand_piece defs active p =
     (case p of
         Char c \<Rightarrow> [c]
       | Ident x \<Rightarrow>
           (case map_of defs x of
              None \<Rightarrow> x
            | Some body \<Rightarrow>
                if x \<in> set active then x
                else ''('' @ expand_definitions defs (active @ [x]) body @ '')''))"

definition expanded_idents :: "(string, string) dict \<Rightarrow> string list \<Rightarrow> string \<Rightarrow> string list" where
  "expanded_idents defs active x =
     (case map_of defs x of
        None \<Rightarrow> [x]
      | Some body \<Rightarrow> if x \<in> set active then [x] else idents (expand_definitions defs (active @ [x]) body))"

lemma expand_pieces: "expand_definitions defs active s = concat (map (expand_piece defs active) (pieces_of s))"
  by (subst expand_definitions.simps) (simp add: expand_piece_def [abs_def])

declare expand_definitions.simps [simp del]

lemma expand_free_head:
  assumes "ident_free_head s"
  shows "ident_free_head (concat (map (expand_piece defs active) (pieces_of s)))"
  using assms by (cases s) (auto simp: ident_free_head_def expand_piece_def)

lemma idents_expand:
  "idents (expand_definitions defs active s) = concat (map (expanded_idents defs active) (idents s))"
  unfolding expand_pieces
proof (induction s rule: pieces_of.induct)
  case (2 c s)
  show ?case
  proof (cases "ident_start c")
    case True
    let ?x = "c # takeWhile ident_char s" and ?rest = "dropWhile ident_char s"
    let ?out = "concat (map (expand_piece defs active) (pieces_of ?rest))"
    have x: "is_ident ?x"
      using True set_takeWhileD [of _ ident_char s] by (auto simp: is_ident_def list_all_iff)
    have rest: "ident_free_head ?rest"
      using hd_dropWhile [of ident_char s] by (auto simp: ident_free_head_def simp flip: dropWhile_eq_Nil_conv)
    have "idents (expand_piece defs active (Ident ?x) @ ?out) = expanded_idents defs active ?x @ idents ?out"
      using pieces_of_ident [OF x expand_free_head [OF rest]] idents_parens
      by (auto simp: expand_piece_def expanded_idents_def idents_def split: option.splits)
    with True "2.IH"(1) [OF True] show ?thesis by (simp add: idents_def)
  next
    case False
    with "2.IH"(2) [OF False] show ?thesis by (simp add: expand_piece_def idents_char)
  qed
qed simp

text \<open>C40. Expansion always ends, and when the definitions do not refer to each other in a cycle
  (some rank of the names drops from every definition to the names of its text), no identifier of
  the expanded text has a definition: the text speaks only of names that stand for themselves.\<close>

theorem expansion_eliminates_definitions:
  assumes "\<And>x body y. map_of defs x = Some body \<Longrightarrow> y \<in> set (idents body) \<Longrightarrow> map_of defs y \<noteq> None \<Longrightarrow>
             rank y < (rank x :: nat)"
    and "x \<in> set (idents (expand_definitions defs [] s))"
  shows "map_of defs x = None"
proof -
  have "\<forall>x \<in> set (idents (expand_definitions defs active s)). map_of defs x = None"
    if "\<forall>x \<in> set (idents s). map_of defs x \<noteq> None \<longrightarrow> (\<forall>a \<in> set active. rank x < rank a)" for active s
    using that
  proof (induction "card (set (keys defs) - set active)" arbitrary: active s rule: less_induct)
    case less
    show ?case
    proof
      fix z assume "z \<in> set (idents (expand_definitions defs active s))"
      then obtain y where y: "y \<in> set (idents s)" "z \<in> set (expanded_idents defs active y)"
        by (auto simp: idents_expand)
      show "map_of defs z = None"
      proof (cases "map_of defs y")
        case None
        with y(2) show ?thesis by (simp add: expanded_idents_def)
      next
        case (Some body)
        with less.prems y(1) have lt: "\<forall>a \<in> set active. rank y < rank a" by auto
        then have y_new: "y \<notin> set active" by auto
        with Some y(2) have z: "z \<in> set (idents (expand_definitions defs (active @ [y]) body))"
          by (simp add: expanded_idents_def)
        have "y \<in> set (keys defs)" using Some by (force simp: keys_def dest: map_of_SomeD)
        then have "set (keys defs) - set (active @ [y]) \<subset> set (keys defs) - set active"
          using y_new by auto
        then have "card (set (keys defs) - set (active @ [y])) < card (set (keys defs) - set active)"
          by (intro psubset_card_mono) auto
        moreover have "\<forall>x \<in> set (idents body). map_of defs x \<noteq> None \<longrightarrow> (\<forall>a \<in> set (active @ [y]). rank x < rank a)"
          using assms(1) [OF Some] lt by (auto intro: less_trans)
        ultimately show ?thesis using less.hyps z by blast
      qed
    qed
  qed
  from this [of s "[]"] assms(2) show ?thesis by simp
qed

theorem expansion_eliminates_definitions_witness:
  "let defs = [(''H_out'', ''H - K2 + 1''), (''K2'', ''2*K'')] in
     expand_definitions defs [] ''H_out//K'' = ''(H - (2*K) + 1)//K'' \<and>
     (\<forall>x \<in> set (idents ''(H - (2*K) + 1)//K''). map_of defs x = None)"
proof -
  let ?defs = "[(''H_out'', ''H - K2 + 1''), (''K2'', ''2*K'')]"
  let ?rank = "\<lambda>x :: string. if x = ''H_out'' then 1 else (0 :: nat)"
  have e: "expand_definitions ?defs [] ''H_out//K'' = ''(H - (2*K) + 1)//K''" by code_simp
  have i: "idents ''H - K2 + 1'' = [''H'', ''K2'']" "idents ''2*K'' = [''K'']" by code_simp+
  have rank: "?rank y < ?rank x"
    if "map_of ?defs x = Some b" "y \<in> set (idents b)" "map_of ?defs y \<noteq> None" for x b y
    using that by (auto simp: i split: if_splits)
  have "map_of ?defs x = None" if "x \<in> set (idents (expand_definitions ?defs [] ''H_out//K''))" for x
    by (rule expansion_eliminates_definitions [where rank = ?rank, OF rank that])
  then show ?thesis
    unfolding Let_def e by blast
qed

end
