(* ===== verification/Size_Expr.thy ===== *)
theory Size_Expr
  imports Prelude
begin

text \<open>
  The expressions of a size specification (\<open>fuzz.py\<close>: \<open>safe_eval\<close> and what it calls): the values a
  parameter may have, the operators, comparisons and builtins, and the evaluator that walks a parsed
  expression against the names resolved so far. Integers and booleans are computed; the IEEE float
  operations and the text of a number are a parameter.
\<close>

section \<open>Values\<close>

text \<open>\<open>FuzzValue\<close>: scalars, sequences and mappings as a manifest carries them.\<close>

datatype 'f fuzz_value =
    FBool bool
  | FInt int
  | FFloat 'f
  | FStr string
  | FSeq "'f fuzz_value list"
  | FMap "(string \<times> 'f fuzz_value) list"

text \<open>A number for an operator: \<open>bool\<close> counts as 0 and 1.\<close>

datatype 'f num_value = NInt int | NFloat 'f

datatype bin_op = OpAdd | OpSub | OpMult | OpDiv | OpFloorDiv | OpMod | OpPow | OpOther string

datatype unary_op = UNot | UNeg | UPos | UOther string

datatype cmp_op = CEq | CNotEq | CLt | CLtE | CGt | CGtE | COther string

text \<open>What the float hardware and the numeric parsers of Python answer.\<close>

record 'f float_ops =
  float_bin :: "bin_op \<Rightarrow> 'f num_value \<Rightarrow> 'f num_value \<Rightarrow> 'f num_value res"
  float_cmp :: "cmp_op \<Rightarrow> 'f num_value \<Rightarrow> 'f num_value \<Rightarrow> bool"
  float_neg :: "'f \<Rightarrow> 'f"
  float_abs :: "'f \<Rightarrow> 'f"
  float_true :: "'f \<Rightarrow> bool"
  float_trunc :: "'f \<Rightarrow> int res"
  float_round :: "'f \<Rightarrow> int res"
  round_digits :: "'f num_value \<Rightarrow> int \<Rightarrow> 'f num_value res"
  to_float :: "int \<Rightarrow> 'f res"
  parse_float :: "string \<Rightarrow> 'f res"
  parse_int :: "string \<Rightarrow> int res"

definition as_number :: "'f fuzz_value \<Rightarrow> 'f num_value res" where
  "as_number v =
     (case v of
        FBool b \<Rightarrow> Inr (NInt (of_bool b))
      | FInt n \<Rightarrow> Inr (NInt n)
      | FFloat x \<Rightarrow> Inr (NFloat x)
      | _ \<Rightarrow> Inl (TypeError ''non-numeric value''))"

definition as_sequence :: "'f fuzz_value \<Rightarrow> 'f fuzz_value list res" where
  "as_sequence v = (case v of FSeq xs \<Rightarrow> Inr xs | _ \<Rightarrow> Inl (TypeError ''non-sequence value''))"

definition of_num :: "'f num_value \<Rightarrow> 'f fuzz_value" where
  "of_num n = (case n of NInt i \<Rightarrow> FInt i | NFloat x \<Rightarrow> FFloat x)"

fun truth :: "'f float_ops \<Rightarrow> 'f fuzz_value \<Rightarrow> bool" where
  "truth F (FBool b) = b"
| "truth F (FInt n) = (n \<noteq> 0)"
| "truth F (FFloat x) = float_true F x"
| "truth F (FStr s) = (s \<noteq> [])"
| "truth F (FSeq xs) = (xs \<noteq> [])"
| "truth F (FMap ms) = (ms \<noteq> [])"

section \<open>Operators\<close>

text \<open>The permitted operators; any other is refused before an operand is evaluated.\<close>

definition binops :: "bin_op \<Rightarrow> bool" where
  "binops op = (case op of OpOther s \<Rightarrow> False | _ \<Rightarrow> True)"

definition unaryops :: "unary_op \<Rightarrow> bool" where
  "unaryops op = (case op of UOther s \<Rightarrow> False | _ \<Rightarrow> True)"

definition cmpops :: "cmp_op \<Rightarrow> bool" where
  "cmpops op = (case op of COther s \<Rightarrow> False | _ \<Rightarrow> True)"

text \<open>Python's integer operators; a division by zero raises, \<open>/\<close> and a negative power leave the
  integers.\<close>

definition int_bin :: "'f float_ops \<Rightarrow> bin_op \<Rightarrow> int \<Rightarrow> int \<Rightarrow> 'f num_value res" where
  "int_bin F op a b =
     (case op of
        OpAdd \<Rightarrow> Inr (NInt (a + b))
      | OpSub \<Rightarrow> Inr (NInt (a - b))
      | OpMult \<Rightarrow> Inr (NInt (a * b))
      | OpFloorDiv \<Rightarrow> bindE (py_floordiv a b) (\<lambda>q. Inr (NInt q))
      | OpMod \<Rightarrow> bindE (py_mod a b) (\<lambda>m. Inr (NInt m))
      | OpPow \<Rightarrow> if 0 \<le> b then Inr (NInt (a ^ nat b))
                 else if a = 0 then Inl ZeroDivisionError else float_bin F OpPow (NInt a) (NInt b)
      | OpDiv \<Rightarrow> if b = 0 then Inl ZeroDivisionError else float_bin F OpDiv (NInt a) (NInt b)
      | OpOther s \<Rightarrow> Inl (ValueError ''unsupported operator''))"

definition binop :: "'f float_ops \<Rightarrow> bin_op \<Rightarrow> 'f num_value \<Rightarrow> 'f num_value \<Rightarrow> 'f num_value res" where
  "binop F op l r =
     (case (l, r) of
        (NInt a, NInt b) \<Rightarrow> int_bin F op a b
      | _ \<Rightarrow> float_bin F op l r)"

definition unaryop :: "'f float_ops \<Rightarrow> unary_op \<Rightarrow> 'f fuzz_value \<Rightarrow> 'f fuzz_value res" where
  "unaryop F op v =
     (case op of
        UNot \<Rightarrow> Inr (FBool (\<not> truth F v))
      | UNeg \<Rightarrow> bindE (as_number v) (\<lambda>n. Inr (case n of NInt i \<Rightarrow> FInt (- i) | NFloat x \<Rightarrow> FFloat (float_neg F x)))
      | UPos \<Rightarrow> bindE (as_number v) (\<lambda>n. Inr (of_num n))
      | UOther s \<Rightarrow> Inl (ValueError ''unsupported operator''))"

definition num_cmp :: "'f float_ops \<Rightarrow> cmp_op \<Rightarrow> 'f num_value \<Rightarrow> 'f num_value \<Rightarrow> bool" where
  "num_cmp F op l r =
     (case (l, r) of
        (NInt a, NInt b) \<Rightarrow>
          (case op of CEq \<Rightarrow> a = b | CNotEq \<Rightarrow> a \<noteq> b | CLt \<Rightarrow> a < b | CLtE \<Rightarrow> a \<le> b | CGt \<Rightarrow> b < a
           | CGtE \<Rightarrow> b \<le> a | COther s \<Rightarrow> False)
      | _ \<Rightarrow> float_cmp F op l r)"

text \<open>\<open>==\<close>: numbers by value, sequences element by element, mappings key by key.\<close>

fun py_eq :: "'f float_ops \<Rightarrow> 'f fuzz_value \<Rightarrow> 'f fuzz_value \<Rightarrow> bool"
  and seq_eq :: "'f float_ops \<Rightarrow> 'f fuzz_value list \<Rightarrow> 'f fuzz_value list \<Rightarrow> bool"
where
  "py_eq F (FStr s) v = (case v of FStr t \<Rightarrow> s = t | _ \<Rightarrow> False)"
| "py_eq F (FSeq xs) v = (case v of FSeq ys \<Rightarrow> seq_eq F xs ys | _ \<Rightarrow> False)"
| "py_eq F (FMap ms) v =
     (case v of FMap ns \<Rightarrow> length ms = length ns \<and>
          list_all (\<lambda>(k, x). case map_of ns k of None \<Rightarrow> False | Some y \<Rightarrow> py_eq F x y) ms
      | _ \<Rightarrow> False)"
| "py_eq F v w =
     (case (as_number v, as_number w) of (Inr a, Inr b) \<Rightarrow> num_cmp F CEq a b | _ \<Rightarrow> False)"
| "seq_eq F [] ys = (ys = [])"
| "seq_eq F (x # xs) [] = False"
| "seq_eq F (x # xs) (y # ys) = (py_eq F x y \<and> seq_eq F xs ys)"

definition compare_values :: "'f float_ops \<Rightarrow> cmp_op \<Rightarrow> 'f fuzz_value \<Rightarrow> 'f fuzz_value \<Rightarrow> bool res" where
  "compare_values F op l r =
     (case op of
        CEq \<Rightarrow> Inr (py_eq F l r)
      | CNotEq \<Rightarrow> Inr (\<not> py_eq F l r)
      | _ \<Rightarrow> bindE (as_number l) (\<lambda>a. bindE (as_number r) (\<lambda>b.
          (case op of COther s \<Rightarrow> Inl (ValueError ''unsupported comparison'') | _ \<Rightarrow> Inr (num_cmp F op a b)))))"


section \<open>Builtins\<close>

text \<open>\<open>min\<close> and \<open>max\<close> of a generator: the first best element, an error when there is none.\<close>

fun best_of :: "('f num_value \<Rightarrow> 'f num_value \<Rightarrow> bool) \<Rightarrow> 'f num_value \<Rightarrow> 'f num_value list \<Rightarrow> 'f num_value" where
  "best_of better b [] = b"
| "best_of better b (n # ns) = best_of better (if better n b then n else b) ns"

definition pick_best :: "('f num_value \<Rightarrow> 'f num_value \<Rightarrow> bool) \<Rightarrow> 'f fuzz_value list \<Rightarrow> 'f fuzz_value res" where
  "pick_best better vs =
     bindE (traverseE as_number vs) (\<lambda>ns.
       case ns of [] \<Rightarrow> Inl (ValueError ''iterable argument is empty'') | n # rest \<Rightarrow> Inr (of_num (best_of better n rest)))"

definition eval_funcs :: "string list" where
  "eval_funcs = [''min'', ''max'', ''int'', ''abs'', ''round'', ''len'', ''bool'', ''float'']"

definition len_of :: "'f fuzz_value \<Rightarrow> 'f fuzz_value res" where
  "len_of v =
     (case v of
        FStr s \<Rightarrow> Inr (FInt (int (length s)))
      | FSeq xs \<Rightarrow> Inr (FInt (int (length xs)))
      | FMap ms \<Rightarrow> Inr (FInt (int (length ms)))
      | _ \<Rightarrow> Inl (TypeError ''len() of a number''))"

definition num_trunc :: "'f float_ops \<Rightarrow> 'f num_value \<Rightarrow> int res" where
  "num_trunc F n = (case n of NInt i \<Rightarrow> Inr i | NFloat x \<Rightarrow> float_trunc F x)"

definition int_of_value :: "'f float_ops \<Rightarrow> 'f fuzz_value \<Rightarrow> int res" where
  "int_of_value F v = (case v of FStr s \<Rightarrow> parse_int F s | _ \<Rightarrow> bindE (as_number v) (num_trunc F))"

definition float_of_value :: "'f float_ops \<Rightarrow> 'f fuzz_value \<Rightarrow> 'f res" where
  "float_of_value F v =
     (case v of FStr s \<Rightarrow> parse_float F s
      | _ \<Rightarrow> bindE (as_number v) (\<lambda>n. case n of NInt i \<Rightarrow> to_float F i | NFloat x \<Rightarrow> Inr x))"

definition abs_of_value :: "'f float_ops \<Rightarrow> 'f fuzz_value \<Rightarrow> 'f fuzz_value res" where
  "abs_of_value F v =
     bindE (as_number v) (\<lambda>n. Inr (case n of NInt i \<Rightarrow> FInt \<bar>i\<bar> | NFloat x \<Rightarrow> FFloat (float_abs F x)))"

definition round_of_value :: "'f float_ops \<Rightarrow> 'f fuzz_value \<Rightarrow> 'f fuzz_value list \<Rightarrow> 'f fuzz_value res" where
  "round_of_value F v extra =
     bindE (as_number v) (\<lambda>n.
       case extra of
         [] \<Rightarrow> (case n of NInt i \<Rightarrow> Inr (FInt i) | NFloat x \<Rightarrow> bindE (float_round F x) (\<lambda>i. Inr (FInt i)))
       | d # ds \<Rightarrow> bindE (bindE (as_number d) (num_trunc F)) (\<lambda>k. bindE (round_digits F n k) (\<lambda>m. Inr (of_num m))))"

definition apply_func :: "'f float_ops \<Rightarrow> string \<Rightarrow> 'f fuzz_value list \<Rightarrow> 'f fuzz_value res" where
  "apply_func F name vs =
     (if name = ''min'' then pick_best (num_cmp F CLt) vs
      else if name = ''max'' then pick_best (num_cmp F CGt) vs
      else case vs of
        [] \<Rightarrow> Inl (ValueError ''needs an argument'')
      | v # extra \<Rightarrow>
          if name = ''bool'' then Inr (FBool (truth F v))
          else if name = ''len'' then len_of v
          else if name = ''abs'' then abs_of_value F v
          else if name = ''round'' then round_of_value F v extra
          else if name = ''float'' then bindE (float_of_value F v) (\<lambda>x. Inr (FFloat x))
          else if name = ''int'' then bindE (int_of_value F v) (\<lambda>i. Inr (FInt i))
          else Inl (ValueError ''disallowed call''))"

section \<open>The evaluator\<close>

text \<open>
  A parsed expression. \<open>EConst\<close> carries a constant of a permitted type, \<open>EOtherConst\<close> any other one
  (\<open>None\<close>, bytes, ...); \<open>EBool\<close> is \<open>and\<close> when its flag is set; a call has the name it calls, when it
  calls one, and whether it passes keywords; \<open>EOther\<close> is any other node.
\<close>

datatype 'f size_expr =
    EConst "'f fuzz_value"
  | EOtherConst
  | EName string
  | ESeq "'f size_expr list"
  | EBin "'f size_expr" bin_op "'f size_expr"
  | EUn unary_op "'f size_expr"
  | EBool bool "'f size_expr list"
  | ECompare "'f size_expr" "(cmp_op \<times> 'f size_expr) list"
  | EIf "'f size_expr" "'f size_expr" "'f size_expr"
  | ECall "string option" "'f size_expr list" bool
  | EOther string

type_synonym 'f names = "(string, 'f fuzz_value) dict"

fun eval_node :: "'f float_ops \<Rightarrow> 'f names \<Rightarrow> 'f size_expr \<Rightarrow> 'f fuzz_value res"
  and eval_list :: "'f float_ops \<Rightarrow> 'f names \<Rightarrow> 'f size_expr list \<Rightarrow> 'f fuzz_value list res"
  and eval_bools :: "'f float_ops \<Rightarrow> 'f names \<Rightarrow> bool \<Rightarrow> 'f size_expr list \<Rightarrow> bool res"
  and eval_compare :: "'f float_ops \<Rightarrow> 'f names \<Rightarrow> 'f fuzz_value \<Rightarrow> (cmp_op \<times> 'f size_expr) list \<Rightarrow> bool res"
where
  "eval_node F ns (EConst v) = Inr v"
| "eval_node F ns EOtherConst = Inl (ValueError ''unsupported constant'')"
| "eval_node F ns (EName x) = (case map_of ns x of None \<Rightarrow> Inl (NameError x) | Some v \<Rightarrow> Inr v)"
| "eval_node F ns (ESeq es) = bindE (eval_list F ns es) (\<lambda>vs. Inr (FSeq vs))"
| "eval_node F ns (EBin l op r) =
     (if \<not> binops op then Inl (ValueError ''unsupported expression'')
      else bindE (eval_node F ns l) (\<lambda>v. bindE (eval_node F ns r) (\<lambda>w.
           bindE (as_number v) (\<lambda>a. bindE (as_number w) (\<lambda>b. bindE (binop F op a b) (\<lambda>n. Inr (of_num n)))))))"
| "eval_node F ns (EUn op e) =
     (if \<not> unaryops op then Inl (ValueError ''unsupported expression'')
      else bindE (eval_node F ns e) (unaryop F op))"
| "eval_node F ns (EBool is_and es) = bindE (eval_bools F ns is_and es) (\<lambda>b. Inr (FBool b))"
| "eval_node F ns (ECompare e rest) =
     bindE (eval_node F ns e) (\<lambda>v. bindE (eval_compare F ns v rest) (\<lambda>b. Inr (FBool b)))"
| "eval_node F ns (EIf test body orelse) =
     bindE (eval_node F ns test) (\<lambda>v. if truth F v then eval_node F ns body else eval_node F ns orelse)"
| "eval_node F ns (ECall callee es keywords) =
     (case callee of
        None \<Rightarrow> Inl (ValueError ''disallowed call'')
      | Some name \<Rightarrow>
          if name \<notin> set eval_funcs then Inl (ValueError ''disallowed call'')
          else if keywords then Inl (ValueError ''keyword args not allowed'')
          else bindE (eval_list F ns es) (apply_func F name))"
| "eval_node F ns (EOther s) = Inl (ValueError ''unsupported expression'')"
| "eval_list F ns [] = Inr []"
| "eval_list F ns (e # es) =
     bindE (eval_node F ns e) (\<lambda>v. bindE (eval_list F ns es) (\<lambda>vs. Inr (v # vs)))"
| "eval_bools F ns is_and [] = Inr is_and"
| "eval_bools F ns is_and (e # es) =
     bindE (eval_node F ns e) (\<lambda>v. if truth F v = is_and then eval_bools F ns is_and es else Inr (\<not> is_and))"
| "eval_compare F ns left [] = Inr True"
| "eval_compare F ns left ((op, e) # rest) =
     (if \<not> cmpops op then Inl (ValueError ''unsupported comparison'')
      else bindE (eval_node F ns e) (\<lambda>right. bindE (compare_values F op left right) (\<lambda>b.
           if b then eval_compare F ns right rest else Inr False)))"

text \<open>\<open>safe_eval\<close>: \<open>ast.parse\<close> is Python's own, a parameter that may raise \<open>SyntaxError\<close>.\<close>

definition safe_eval :: "'f float_ops \<Rightarrow> (string \<Rightarrow> 'f size_expr res) \<Rightarrow> string \<Rightarrow> 'f names \<Rightarrow> 'f fuzz_value res" where
  "safe_eval F parse expr ns = bindE (parse expr) (eval_node F ns)"

definition eval_int :: "'f float_ops \<Rightarrow> (string \<Rightarrow> 'f size_expr res) \<Rightarrow> string \<Rightarrow> 'f names \<Rightarrow> int res" where
  "eval_int F parse expr ns = bindE (safe_eval F parse expr ns) (\<lambda>v. bindE (as_number v) (num_trunc F))"

section \<open>More names never change a value\<close>

text \<open>An evaluation that did not stop at an unknown name.\<close>

definition settled :: "'a res \<Rightarrow> bool" where
  "settled r \<longleftrightarrow> (\<forall>x. r \<noteq> Inl (NameError x))"

lemma settled_simps [simp]:
  "settled (Inr v)" "\<not> settled (Inl (NameError x))"
  "settled (Inl (ValueError m))" "settled (Inl (TypeError m))"
  by (simp_all add: settled_def)

lemma settled_bindE: "settled (bindE r f) \<Longrightarrow> settled r"
  by (cases r) (auto simp: settled_def)

lemma bindE_settled_cong:
  assumes "settled (bindE r f)" "settled r \<Longrightarrow> r' = r" "\<And>v. r = Inr v \<Longrightarrow> settled (f v) \<Longrightarrow> f' v = f v"
  shows "bindE r' f' = bindE r f"
  using assms settled_bindE [OF assms(1)] by (cases r) auto

lemma eval_more_names:
  assumes "\<And>x v. map_of ns x = Some v \<Longrightarrow> map_of ms x = Some v"
  shows "settled (eval_node F ns e) \<Longrightarrow> eval_node F ms e = eval_node F ns e"
    and "settled (eval_list F ns es) \<Longrightarrow> eval_list F ms es = eval_list F ns es"
    and "settled (eval_bools F ns b es) \<Longrightarrow> eval_bools F ms b es = eval_bools F ns b es"
    and "settled (eval_compare F ns v cs) \<Longrightarrow> eval_compare F ms v cs = eval_compare F ns v cs"
  using assms
proof (induction F ns e and F ns es and F ns b es and F ns v cs
    rule: eval_node_eval_list_eval_bools_eval_compare.induct)
  case (5 F ns l op r)
  then show ?case by (auto intro!: bindE_settled_cong split: if_splits)
next
  case (9 F ns test body orelse)
  then show ?case by (auto intro!: bindE_settled_cong split: if_splits)
next
  case (10 F ns callee es kws)
  then show ?case by (auto intro!: bindE_settled_cong split: option.splits if_splits)
next
  case (15 F ns is_and e es)
  then show ?case by (auto intro!: bindE_settled_cong split: if_splits)
next
  case (17 F ns left op e rest)
  then show ?case by (auto intro!: bindE_settled_cong split: if_splits)
qed (auto intro!: bindE_settled_cong split: option.splits if_splits)

lemma safe_eval_more_names:
  assumes "safe_eval F parse expr ns = Inr v" "\<And>x v. map_of ns x = Some v \<Longrightarrow> map_of ms x = Some v"
  shows "safe_eval F parse expr ms = Inr v"
proof -
  from assms(1) obtain e where e: "parse expr = Inr e" "eval_node F ns e = Inr v"
    by (auto simp: safe_eval_def bindE_Inr_iff)
  have "eval_node F ms e = eval_node F ns e"
    by (rule eval_more_names(1) [of ns ms]) (use assms(2) e(2) in auto)
  with e show ?thesis by (simp add: safe_eval_def)
qed

end
