(* ===== verification/Fuzz_Sizes.thy ===== *)
theory Fuzz_Sizes
  imports Size_Expr
begin

text \<open>
  Size fuzzing (\<open>fuzz.py\<close>): the forms of a parameter's specification, drawing a leaf, the topological
  resolution of derived and constructed sizes, snapping to divisibility constraints, smooth numbers and
  size classes, and the resampling loops. A \<open>numpy\<close> generator is a parameter: its state is threaded
  through every draw, and the two draws the code makes are functions of it.
\<close>

section \<open>Forms of a specification\<close>

definition is_num :: "'f fuzz_value \<Rightarrow> bool" where
  "is_num v = (case v of FBool b \<Rightarrow> True | FInt n \<Rightarrow> True | FFloat x \<Rightarrow> True | _ \<Rightarrow> False)"

definition is_range :: "'f fuzz_value \<Rightarrow> bool" where
  "is_range v = (case v of FSeq [a, b] \<Rightarrow> is_num a \<and> is_num b | _ \<Rightarrow> False)"

text \<open>\<open>value.get(key)\<close> of a mapping.\<close>

definition entry :: "string \<Rightarrow> 'f fuzz_value \<Rightarrow> 'f fuzz_value option" where
  "entry k v = (case v of FMap ms \<Rightarrow> map_of ms k | _ \<Rightarrow> None)"

definition is_set :: "'f fuzz_value \<Rightarrow> bool" where
  "is_set v = (case entry ''set'' v of Some (FSeq xs) \<Rightarrow> xs \<noteq> [] | _ \<Rightarrow> False)"

definition is_smooth :: "'f fuzz_value \<Rightarrow> bool" where
  "is_smooth v =
     (case entry ''smooth'' v of
        Some (FInt b) \<Rightarrow> (case entry ''range'' v of None \<Rightarrow> False | Some r \<Rightarrow> is_range r)
      | _ \<Rightarrow> False)"

definition is_derive :: "'f fuzz_value \<Rightarrow> bool" where
  "is_derive v \<longleftrightarrow> entry ''derive'' v \<noteq> None"

definition is_construct :: "'f fuzz_value \<Rightarrow> bool" where
  "is_construct v \<longleftrightarrow> entry ''construct'' v \<noteq> None"

definition interval_of :: "'f fuzz_value \<Rightarrow> ('f fuzz_value \<times> 'f fuzz_value) option" where
  "interval_of v = (case v of FSeq [a, b] \<Rightarrow> if is_num a \<and> is_num b then Some (a, b) else None | _ \<Rightarrow> None)"

definition range_of :: "'f fuzz_value \<Rightarrow> ('f fuzz_value \<times> 'f fuzz_value) option" where
  "range_of v =
     (if is_range v then interval_of v
      else if is_smooth v then Option.bind (entry ''range'' v) interval_of else None)"

definition as_expr :: "'f fuzz_value \<Rightarrow> string res" where
  "as_expr v = (case v of FStr s \<Rightarrow> Inr s | _ \<Rightarrow> Inl (TypeError ''non-expression value''))"

section \<open>Smooth numbers\<close>

text \<open>Trial division up to the square root: \<open>int(q**0.5)\<close> is the integer square root for every size a
  manifest declares.\<close>

definition trial_prime :: "int \<Rightarrow> bool" where
  "trial_prime q = list_all (\<lambda>d. q mod d \<noteq> 0) (filter (\<lambda>d. d * d \<le> q) (py_range 2 (q + 1)))"

text \<open>The inner \<open>while\<close>: \<open>start\<close>, \<open>start * prime\<close>, ... up to the limit (a prime is at least 2 and a
  found number at least 1).\<close>

function powers_upto :: "int \<Rightarrow> int \<Rightarrow> int \<Rightarrow> int list" where
  "powers_upto prime limit v =
     (if 2 \<le> prime \<and> 1 \<le> v \<and> v \<le> limit then v # powers_upto prime limit (v * prime) else [])"
  by pat_completeness auto
termination
proof (relation "measure (\<lambda>(prime, limit, v). nat (limit + 1 - v))", goal_cases)
  case (2 prime limit v)
  then have "v * 1 < v * prime" by (intro mult_strict_left_mono) auto
  with 2 show ?case by auto
qed simp

declare powers_upto.simps [simp del]

definition smooth_numbers :: "int \<Rightarrow> int \<Rightarrow> int list" where
  "smooth_numbers bound limit =
     sort (foldl (\<lambda>found prime. concat (map (powers_upto prime limit) found)) [1]
       (filter trial_prime (py_range 2 (bound + 1))))"

text \<open>\<open>bisect_right\<close> and \<open>bisect_left\<close> on an ascending table.\<close>

definition bisect_right :: "int list \<Rightarrow> int \<Rightarrow> nat" where
  "bisect_right xs v = length (takeWhile (\<lambda>x. x \<le> v) xs)"

definition bisect_left :: "int list \<Rightarrow> int \<Rightarrow> nat" where
  "bisect_left xs v = length (takeWhile (\<lambda>x. x < v) xs)"

definition snap_smooth :: "int \<Rightarrow> int \<Rightarrow> int \<Rightarrow> int \<Rightarrow> int res" where
  "snap_smooth v lo hi bound =
     (let table = smooth_numbers bound (max 1 (max hi v)) in
      bindE (py_get table (int (bisect_right table (max 1 v)) - 1)) (\<lambda>below.
        if lo \<le> below then Inr below
        else let index = bisect_left table lo in
          Inr (if index < length table \<and> table ! index \<le> hi then table ! index else below)))"

section \<open>Drawing a leaf\<close>

datatype distribution = LogUniform | Uniform

text \<open>A generator: \<open>rng.integers(n)\<close>, and the rounded float draw between two integers (logarithmic or
  linear); \<open>fresh seed\<close> is \<open>np.random.default_rng(seed)\<close>.\<close>

record 'g generator =
  pick :: "int \<Rightarrow> 'g \<Rightarrow> int \<times> 'g"
  between :: "distribution \<Rightarrow> int \<Rightarrow> int \<Rightarrow> 'g \<Rightarrow> int \<times> 'g"
  fresh :: "int \<Rightarrow> 'g"

text \<open>What \<open>numpy\<close> documents of them, and rounding keeps: a draw stays between its bounds.\<close>

definition good_generator :: "'g generator \<Rightarrow> bool" where
  "good_generator R \<longleftrightarrow>
     (\<forall>n g. 0 < n \<longrightarrow> 0 \<le> fst (pick R n g) \<and> fst (pick R n g) < n) \<and>
     (\<forall>d lo hi g. lo < hi \<longrightarrow> lo \<le> fst (between R d lo hi g) \<and> fst (between R d lo hi g) \<le> hi)"

definition sample_set :: "'g generator \<Rightarrow> 'f fuzz_value list \<Rightarrow> 'g \<Rightarrow> 'f fuzz_value res \<times> 'g" where
  "sample_set R choices g =
     (let (i, g') = pick R (int (length choices)) g in (py_get choices i, g'))"

definition sample_one :: "'g generator \<Rightarrow> int \<Rightarrow> int \<Rightarrow> distribution \<Rightarrow> 'g \<Rightarrow> int \<times> 'g" where
  "sample_one R lo hi dist g =
     (if hi \<le> lo then (lo, g)
      else between R (if dist = LogUniform \<and> 0 < lo then LogUniform else Uniform) lo hi g)"

text \<open>\<open>int(x)\<close> of a bound.\<close>

definition bound_int :: "'f float_ops \<Rightarrow> 'f fuzz_value \<Rightarrow> int res" where
  "bound_int F v = bindE (as_number v) (num_trunc F)"

definition sample_leaf ::
    "'f float_ops \<Rightarrow> 'g generator \<Rightarrow> distribution \<Rightarrow> 'f fuzz_value \<Rightarrow> 'g \<Rightarrow> ('f fuzz_value \<times> 'g) res" where
  "sample_leaf F R dist spec g =
     (if is_set spec
      then bindE (case entry ''set'' spec of Some xs \<Rightarrow> as_sequence xs | None \<Rightarrow> Inl (KeyError ''set'')) (\<lambda>choices.
             let (r, g') = sample_set R choices g in bindE r (\<lambda>v. Inr (v, g')))
      else case range_of spec of
        None \<Rightarrow> Inr (spec, g)
      | Some (lo, hi) \<Rightarrow>
          bindE (bound_int F lo) (\<lambda>lo_i. bindE (bound_int F hi) (\<lambda>hi_i.
            let (n, g') = sample_one R lo_i hi_i dist g in
            if is_range spec then Inr (FInt n, g')
            else bindE (case entry ''smooth'' spec of Some b \<Rightarrow> bound_int F b | None \<Rightarrow> Inl (KeyError ''smooth'')) (\<lambda>b.
                   bindE (snap_smooth n lo_i hi_i b) (\<lambda>m. Inr (FInt m, g'))))))"

section \<open>Resolving the sizes\<close>

text \<open>What a draw needs besides its specification: the floats, the expression parser, the generator and
  the size distribution.\<close>

record ('f, 'g) drawing =
  ops :: "'f float_ops"
  parser :: "string \<Rightarrow> 'f size_expr res"
  gen :: "'g generator"
  size_distribution :: distribution

text \<open>The draws of a constructed parameter's generators, in order.\<close>

fun sample_leaves ::
    "('f, 'g) drawing \<Rightarrow> (string \<times> 'f fuzz_value) list \<Rightarrow> 'g \<Rightarrow> ((string \<times> 'f fuzz_value) list \<times> 'g) res" where
  "sample_leaves D [] g = Inr ([], g)"
| "sample_leaves D ((k, spec) # ks) g =
     bindE (sample_leaf (ops D) (gen D) (size_distribution D) spec g) (\<lambda>(v, g1).
     bindE (sample_leaves D ks g1) (\<lambda>(vs, g2). Inr ((k, v) # vs, g2)))"

text \<open>\<open>except NameError: return _UNRESOLVED\<close>.\<close>

definition unless_unknown :: "'a res \<Rightarrow> 'a option res" where
  "unless_unknown r = (case r of Inr v \<Rightarrow> Inr (Some v) | Inl (NameError x) \<Rightarrow> Inr None | Inl e \<Rightarrow> Inl e)"

definition fuzz_entries :: "'f fuzz_value \<Rightarrow> (string \<times> 'f fuzz_value) list" where
  "fuzz_entries v = (case v of FMap ms \<Rightarrow> ms | _ \<Rightarrow> [])"

definition try_resolve ::
    "('f, 'g) drawing \<Rightarrow> 'f fuzz_value \<Rightarrow> 'f names \<Rightarrow> 'g \<Rightarrow> ('f fuzz_value option \<times> 'g) res" where
  "try_resolve D spec resolved g =
     (case entry ''derive'' spec of
        Some e \<Rightarrow>
          bindE (unless_unknown (bindE (as_expr e) (\<lambda>s. safe_eval (ops D) (parser D) s resolved))) (\<lambda>v. Inr (v, g))
      | None \<Rightarrow>
          (case entry ''construct'' spec of
             Some e \<Rightarrow>
               bindE (sample_leaves D (filter (\<lambda>(k, v). k \<noteq> ''construct'') (fuzz_entries spec)) g) (\<lambda>(local, g').
               bindE (unless_unknown (bindE (as_expr e) (\<lambda>s.
                 safe_eval (ops D) (parser D) s (dict_merge resolved local)))) (\<lambda>v. Inr (v, g')))
           | None \<Rightarrow>
               bindE (sample_leaf (ops D) (gen D) (size_distribution D) spec g) (\<lambda>(v, g'). Inr (Some v, g'))))"

text \<open>One round over the pending parameters: what is resolved leaves \<open>pending\<close>.\<close>

record ('f, 'g) resolving =
  resolved :: "'f names"
  pending :: "'f names"
  rng_state :: 'g
  progress_made :: bool

definition resolve_step ::
    "('f, 'g) drawing \<Rightarrow> ('f, 'g) resolving \<Rightarrow> string \<times> 'f fuzz_value \<Rightarrow> ('f, 'g) resolving res" where
  "resolve_step D st p =
     (let (name, spec) = p in
      bindE (try_resolve D spec (resolved st) (rng_state st)) (\<lambda>(value, g).
        Inr (case value of
               None \<Rightarrow> st\<lparr>rng_state := g\<rparr>
             | Some v \<Rightarrow> st\<lparr>resolved := dict_set name v (resolved st), pending := AList.delete name (pending st),
                           rng_state := g, progress_made := True\<rparr>)))"

definition resolve_round :: "('f, 'g) drawing \<Rightarrow> ('f, 'g) resolving \<Rightarrow> ('f, 'g) resolving res" where
  "resolve_round D st = foldE (resolve_step D) (st\<lparr>progress_made := False\<rparr>) (pending st)"

lemma resolve_step_pending:
  assumes "resolve_step D st p = Inr st'"
  shows "pending st' = pending st \<and> progress_made st' = progress_made st \<or>
    pending st' = AList.delete (fst p) (pending st) \<and> progress_made st'"
  using assms by (cases p) (auto simp: resolve_step_def bindE_Inr_iff split: option.splits)

lemma delete_length: "length (AList.delete k d) \<le> length d"
  by (simp add: AList.delete_eq)

lemma delete_length_less: "k \<in> fst ` set d \<Longrightarrow> length (AList.delete k d) < length d"
  by (auto simp: AList.delete_eq length_filter_less)

text \<open>A round that made progress resolved at least one pending name: the \<open>while\<close> ends.\<close>

lemma resolve_fold_shrinks:
  assumes "foldE (resolve_step D) st ps = Inr st'"
    and "length (pending st) < n \<or> (set ps \<subseteq> set (pending st) \<and> length (pending st) \<le> n \<and> \<not> progress_made st)"
  shows "length (pending st') < n \<or> \<not> progress_made st'"
  using assms
proof (induction ps arbitrary: st)
  case (Cons p ps)
  from Cons.prems(1) obtain st1 where s: "resolve_step D st p = Inr st1" "foldE (resolve_step D) st1 ps = Inr st'"
    by (auto simp: bindE_Inr_iff)
  have "length (pending st1) < n \<or>
      (set ps \<subseteq> set (pending st1) \<and> length (pending st1) \<le> n \<and> \<not> progress_made st1)"
    using resolve_step_pending [OF s(1)] Cons.prems(2) delete_length [of "fst p" "pending st"]
      delete_length_less [of "fst p" "pending st"]
    by (fastforce dest: le_less_trans less_le_trans)
  from Cons.IH [OF s(2) this] show ?case .
qed auto

lemma resolve_round_shrinks:
  assumes "resolve_round D st = Inr st'" "progress_made st'"
  shows "length (pending st') < length (pending st)"
  using resolve_fold_shrinks [of D "st\<lparr>progress_made := False\<rparr>" "pending st" st' "length (pending st)"] assms
  by (simp add: resolve_round_def)

function resolve_loop :: "('f, 'g) drawing \<Rightarrow> ('f, 'g) resolving \<Rightarrow> ('f, 'g) resolving res" where
  "resolve_loop D st =
     (if pending st = [] then Inr st
      else bindE (resolve_round D st) (\<lambda>st'. if progress_made st' then resolve_loop D st' else Inr st'))"
  by pat_completeness auto
termination
  by (relation "measure (\<lambda>(D, st). length (pending st))") (auto dest: resolve_round_shrinks)

declare resolve_loop.simps [simp del]

definition bound_in :: "'f names \<Rightarrow> string \<Rightarrow> bool" where
  "bound_in d name \<longleftrightarrow> name \<in> fst ` set d"

definition resolve_sizes ::
    "('f, 'g) drawing \<Rightarrow> 'f names \<Rightarrow> 'f names \<Rightarrow> 'g \<Rightarrow> ('f names \<times> 'g) res" where
  "resolve_sizes D fuzzed initial g =
     bindE (resolve_loop D \<lparr>resolved = initial, pending = filter (\<lambda>(name, spec). \<not> bound_in initial name) fuzzed,
              rng_state = g, progress_made = True\<rparr>) (\<lambda>st.
       if pending st \<noteq> [] then Inl (ValueError ''cyclic or unresolvable params'')
       else bindE (traverseE (\<lambda>(name, spec). bindE (dict_item KeyError (resolved st) name) (\<lambda>v. Inr (name, v)))
              (filter (\<lambda>(name, spec). \<not> bound_in initial name) fuzzed)) (\<lambda>out. Inr (out, rng_state st)))"

section \<open>What resolution guarantees\<close>

text \<open>A value agrees with its specification in a namespace: a derived one is the value of its
  expression there, one drawn from a plain integer interval lies in it.\<close>

definition drawn_ok :: "('f, 'g) drawing \<Rightarrow> 'f fuzz_value \<Rightarrow> 'f names \<Rightarrow> 'f fuzz_value \<Rightarrow> bool" where
  "drawn_ok D spec ns v \<longleftrightarrow>
     (\<forall>e. entry ''derive'' spec = Some e \<longrightarrow>
        (\<exists>s. e = FStr s \<and> safe_eval (ops D) (parser D) s ns = Inr v)) \<and>
     (\<forall>lo hi. spec = FSeq [FInt lo, FInt hi] \<longrightarrow> (\<exists>n. v = FInt n \<and> lo \<le> n \<and> n \<le> max lo hi))"

definition names_le :: "'f names \<Rightarrow> 'f names \<Rightarrow> bool" where
  "names_le ns ms \<longleftrightarrow> (\<forall>x v. map_of ns x = Some v \<longrightarrow> map_of ms x = Some v)"

lemma names_leD: "names_le ns ms \<Longrightarrow> map_of ns x = Some v \<Longrightarrow> map_of ms x = Some v"
  by (simp add: names_le_def)

lemma drawn_ok_mono: "drawn_ok D spec ns v \<Longrightarrow> names_le ns ms \<Longrightarrow> drawn_ok D spec ms v"
  unfolding drawn_ok_def by (blast intro: safe_eval_more_names names_leD)

lemma names_le_set: "map_of ns x = None \<Longrightarrow> names_le ns (dict_set x v ns)"
  by (auto simp: names_le_def update_conv')

lemma sample_one_bounds:
  "good_generator R \<Longrightarrow> lo \<le> fst (sample_one R lo hi d g) \<and> fst (sample_one R lo hi d g) \<le> max lo hi"
  by (auto simp: sample_one_def good_generator_def max_def not_le)

lemma sample_leaf_interval:
  assumes "sample_leaf F R d (FSeq [FInt lo, FInt hi]) g = Inr (v, g')" "good_generator R"
  shows "\<exists>n. v = FInt n \<and> lo \<le> n \<and> n \<le> max lo hi"
proof -
  have spec: "is_range (FSeq [FInt lo, FInt hi] :: 'a fuzz_value)" "\<not> is_set (FSeq [FInt lo, FInt hi] :: 'a fuzz_value)"
    "range_of (FSeq [FInt lo, FInt hi] :: 'a fuzz_value) = Some (FInt lo, FInt hi)"
    by (simp_all add: is_range_def is_set_def entry_def range_of_def interval_of_def is_num_def)
  have "bound_int F (FInt n) = Inr n" for n by (simp add: bound_int_def as_number_def num_trunc_def)
  with assms(1) have "v = FInt (fst (sample_one R lo hi d g))"
    by (simp add: sample_leaf_def spec case_prod_beta Let_def)
  with sample_one_bounds [OF assms(2)] show ?thesis by blast
qed

lemma try_resolve_ok:
  assumes "try_resolve D spec ns g = Inr (Some v, g')" "good_generator (gen D)"
  shows "drawn_ok D spec ns v"
proof (cases "entry ''derive'' spec")
  case (Some e)
  with assms(1) have "bindE (as_expr e) (\<lambda>s. safe_eval (ops D) (parser D) s ns) = Inr v"
    by (auto simp: try_resolve_def unless_unknown_def bindE_Inr_iff split: sum.splits py_exn.splits)
  then obtain s where "e = FStr s" "safe_eval (ops D) (parser D) s ns = Inr v"
    by (auto simp: as_expr_def bindE_Inr_iff split: fuzz_value.splits)
  with Some show ?thesis by (auto simp: drawn_ok_def entry_def)
next
  case None
  have "\<exists>n. v = FInt n \<and> lo \<le> n \<and> n \<le> max lo hi" if "spec = FSeq [FInt lo, FInt hi]" for lo hi
  proof -
    from assms(1) that have "sample_leaf (ops D) (gen D) (size_distribution D) (FSeq [FInt lo, FInt hi]) g = Inr (v, g')"
      by (auto simp: try_resolve_def entry_def bindE_Inr_iff)
    from sample_leaf_interval [OF this assms(2)] show ?thesis .
  qed
  with None show ?thesis by (simp add: drawn_ok_def)
qed

definition free_specs :: "'f names \<Rightarrow> 'f names \<Rightarrow> 'f names" where
  "free_specs initial fuzzed = filter (\<lambda>(name, spec). \<not> bound_in initial name) fuzzed"

definition resolve_inv :: "('f, 'g) drawing \<Rightarrow> 'f names \<Rightarrow> 'f names \<Rightarrow> ('f, 'g) resolving \<Rightarrow> bool" where
  "resolve_inv D fuzzed initial st \<longleftrightarrow>
     names_le initial (resolved st) \<and>
     set (pending st) \<subseteq> set (free_specs initial fuzzed) \<and>
     (\<forall>(name, spec) \<in> set (pending st). map_of (resolved st) name = None) \<and>
     (\<forall>(name, spec) \<in> set (free_specs initial fuzzed). (name, spec) \<in> set (pending st) \<or>
        (\<exists>v. map_of (resolved st) name = Some v \<and> drawn_ok D spec (resolved st) v)) \<and>
     (\<forall>name v. map_of (resolved st) name = Some v \<longrightarrow> map_of initial name = Some v \<or> name \<in> fst ` set (free_specs initial fuzzed))"

lemma set_delete: "set (AList.delete k d) = {p \<in> set d. fst p \<noteq> k}"
  by (auto simp: AList.delete_eq)

lemma resolve_step_inv:
  assumes "resolve_step D st (name, spec) = Inr st'" "resolve_inv D fuzzed initial st"
    and "(name, spec) \<in> set (pending st)" "good_generator (gen D)" "distinct (map fst fuzzed)"
  shows "resolve_inv D fuzzed initial st'"
proof -
  from assms(1) obtain answer g where t: "try_resolve D spec (resolved st) (rng_state st) = Inr (answer, g)"
    and st': "st' = (case answer of None \<Rightarrow> st\<lparr>rng_state := g\<rparr>
             | Some v \<Rightarrow> st\<lparr>resolved := dict_set name v (resolved st), pending := AList.delete name (pending st),
                           rng_state := g, progress_made := True\<rparr>)"
    by (auto simp: resolve_step_def bindE_Inr_iff)
  show ?thesis
  proof (cases answer)
    case None
    with assms(2) st' show ?thesis by (simp add: resolve_inv_def)
  next
    case (Some v)
    let ?res = "dict_set name v (resolved st)"
    from assms(2,3) have new: "map_of (resolved st) name = None" and free: "(name, spec) \<in> set (free_specs initial fuzzed)"
      by (auto simp: resolve_inv_def)
    have le: "names_le (resolved st) ?res" by (rule names_le_set [OF new])
    have ok: "drawn_ok D spec ?res v" using try_resolve_ok [OF t [unfolded Some] assms(4)] le by (rule drawn_ok_mono)
    have one: "spec' = spec" if "(name, spec') \<in> set (free_specs initial fuzzed)" for spec'
      using that free assms(5) by (auto simp: free_specs_def dest: eq_key_imp_eq_value)
    have "(name', spec') \<in> set (AList.delete name (pending st)) \<or>
        (\<exists>w. map_of ?res name' = Some w \<and> drawn_ok D spec' ?res w)"
      if f: "(name', spec') \<in> set (free_specs initial fuzzed)" for name' spec'
    proof (cases "name' = name")
      case True
      with one [of spec'] f ok show ?thesis by (auto simp: update_conv')
    next
      case False
      with assms(2) f consider "(name', spec') \<in> set (pending st)"
        | w where "map_of (resolved st) name' = Some w" "drawn_ok D spec' (resolved st) w"
        by (auto simp: resolve_inv_def)
      then show ?thesis using False drawn_ok_mono [OF _ le] by cases (auto simp: set_delete update_conv')
    qed
    moreover have "names_le initial ?res"
      using assms(2) le by (auto simp: resolve_inv_def names_le_def)
    moreover have "map_of initial x = Some w \<or> x \<in> fst ` set (free_specs initial fuzzed)" if "map_of ?res x = Some w" for x w
      using that assms(2) free by (cases "x = name") (force simp: resolve_inv_def update_conv')+
    ultimately show ?thesis
      using assms(2) st' Some by (auto simp: resolve_inv_def set_delete update_conv')
  qed
qed

lemma resolve_fold_inv:
  assumes "foldE (resolve_step D) st ps = Inr st'" "resolve_inv D fuzzed initial st"
    and "set ps \<subseteq> set (pending st)" "distinct (map fst ps)"
    and "good_generator (gen D)" "distinct (map fst fuzzed)"
  shows "resolve_inv D fuzzed initial st'"
  using assms(1-4)
proof (induction ps arbitrary: st)
  case (Cons p ps)
  obtain name spec where p: "p = (name, spec)" by (cases p)
  from Cons.prems(1) obtain st1 where s: "resolve_step D st (name, spec) = Inr st1" "foldE (resolve_step D) st1 ps = Inr st'"
    by (auto simp: bindE_Inr_iff p)
  have inv: "resolve_inv D fuzzed initial st1"
    by (rule resolve_step_inv [OF s(1) Cons.prems(2) _ assms(5,6)]) (use Cons.prems(3) p in simp)
  have "set ps \<subseteq> set (pending st1)"
    using resolve_step_pending [OF s(1)] Cons.prems(3,4) p by (force simp: set_delete)
  with Cons.IH [OF s(2) inv] Cons.prems(4) show ?case by simp
qed simp

lemma pending_distinct:
  assumes "foldE (resolve_step D) st ps = Inr st'" "distinct (map fst (pending st))"
  shows "distinct (map fst (pending st'))"
  using assms
proof (induction ps arbitrary: st)
  case (Cons p ps)
  from Cons.prems(1) obtain st1 where s: "resolve_step D st p = Inr st1" "foldE (resolve_step D) st1 ps = Inr st'"
    by (auto simp: bindE_Inr_iff)
  have "distinct (map fst (pending st1))"
    using resolve_step_pending [OF s(1)] Cons.prems(2) AList.distinct_delete [of "pending st" "fst p"] by auto
  with Cons.IH [OF s(2)] show ?case .
qed simp

lemma resolve_loop_inv:
  assumes "resolve_loop D st = Inr st'" "resolve_inv D fuzzed initial st" "distinct (map fst (pending st))"
    and "good_generator (gen D)" "distinct (map fst fuzzed)"
  shows "resolve_inv D fuzzed initial st'"
  using assms
proof (induction D st rule: resolve_loop.induct)
  case (1 D st)
  show ?case
  proof (cases "pending st = []")
    case False
    with "1.prems"(1) obtain st1 where r: "resolve_round D st = Inr st1"
      "(if progress_made st1 then resolve_loop D st1 else Inr st1) = Inr st'"
      by (subst (asm) resolve_loop.simps) (auto simp: bindE_Inr_iff)
    from r(1) have f: "foldE (resolve_step D) (st\<lparr>progress_made := False\<rparr>) (pending st) = Inr st1"
      by (simp add: resolve_round_def)
    have "resolve_inv D fuzzed initial st1"
      by (rule resolve_fold_inv [OF f])
        (use "1.prems"(2-5) in \<open>simp_all add: resolve_inv_def\<close>)
    moreover have "distinct (map fst (pending st1))"
      using pending_distinct [OF f] "1.prems"(3) by simp
    ultimately show ?thesis
      using r(2) "1.IH" [OF False r(1)] "1.prems"(4,5) by (cases "progress_made st1") simp_all
  qed (use "1.prems" in \<open>simp add: resolve_loop.simps\<close>)
qed

lemma map_of_bound: "bound_in ns x \<longleftrightarrow> map_of ns x \<noteq> None"
  by (auto simp: bound_in_def map_of_eq_None_iff)

lemma resolve_sizes_lemma:
  assumes "resolve_sizes D fuzzed initial g = Inr (out, g')"
    and "good_generator (gen D)" and "distinct (map fst fuzzed)"
  shows "map fst out = map fst (free_specs initial fuzzed)"
    and "(name, spec) \<in> set (free_specs initial fuzzed) \<Longrightarrow>
      \<exists>v. map_of out name = Some v \<and> drawn_ok D spec (out @ initial) v"
proof -
  let ?free = "free_specs initial fuzzed"
  from assms(1) obtain st where loop: "resolve_loop D \<lparr>resolved = initial, pending = ?free,
      rng_state = g, progress_made = True\<rparr> = Inr st" and none: "pending st = []" and
    out: "traverseE (\<lambda>(name, spec). bindE (dict_item KeyError (resolved st) name) (\<lambda>v. Inr (name, v))) ?free = Inr out"
    by (auto simp: resolve_sizes_def free_specs_def bindE_Inr_iff split: if_splits)
  have df: "distinct (map fst ?free)"
    using assms(3) by (auto simp: free_specs_def distinct_map inj_on_def)
  have "resolve_inv D fuzzed initial \<lparr>resolved = initial, pending = ?free, rng_state = g, progress_made = True\<rparr>"
    by (auto simp: resolve_inv_def names_le_def free_specs_def map_of_bound)
  from resolve_loop_inv [OF loop this _ assms(2,3)] df have inv: "resolve_inv D fuzzed initial st" by simp
  note T = traverseE_InrD [OF out]
  have nth: "out ! i = (fst (?free ! i), the (map_of (resolved st) (fst (?free ! i))))"
    "map_of (resolved st) (fst (?free ! i)) \<noteq> None" if "i < length ?free" for i
    using T that by (auto simp: bindE_Inr_iff dict_item_def case_prod_beta split: option.splits)
  show fst_out: "map fst out = map fst ?free"
    using T nth by (intro nth_equalityI) simp_all
  have lookup: "map_of out x = map_of (resolved st) x" if "x \<in> fst ` set ?free" for x
  proof -
    from that obtain i where i: "i < length ?free" "x = fst (?free ! i)" by (force simp: in_set_conv_nth)
    have "(x, the (map_of (resolved st) x)) \<in> set out" using nth(1) [OF i(1)] i T by (metis nth_mem)
    moreover have "distinct (map fst out)" using df fst_out by simp
    ultimately have "map_of out x = Some (the (map_of (resolved st) x))" by (rule map_of_is_SomeI [rotated])
    with nth(2) [OF i(1)] i(2) show ?thesis by auto
  qed
  have le: "names_le (resolved st) (out @ initial)"
    unfolding names_le_def
  proof (intro allI impI)
    fix x v assume v: "map_of (resolved st) x = Some v"
    show "map_of (out @ initial) x = Some v"
    proof (cases "x \<in> fst ` set ?free")
      case True
      with lookup v show ?thesis by (simp add: map_add_def)
    next
      case False
      with v inv have "map_of initial x = Some v" by (auto simp: resolve_inv_def)
      moreover have "map_of out x = None" using False fst_out by (metis map_of_eq_None_iff list.set_map)
      ultimately show ?thesis by (simp add: map_add_def)
    qed
  qed
  assume f: "(name, spec) \<in> set ?free"
  with inv none obtain v where "map_of (resolved st) name = Some v" "drawn_ok D spec (resolved st) v"
    by (auto simp: resolve_inv_def)
  with lookup f drawn_ok_mono [OF _ le] show "\<exists>v. map_of out name = Some v \<and> drawn_ok D spec (out @ initial) v"
    by force
qed

text \<open>C30. Resolution is sound, and it always ends (the loop is a total function: a round without
  progress stops it). When it returns, every parameter that was not bound beforehand has a value, in
  the order declared; a derived parameter has the value of its expression in the FINAL namespace,
  although it was computed when only part of the names was known; and a size drawn from an integer
  interval lies in it.\<close>

theorem resolve_sizes_sound:
  assumes "resolve_sizes D fuzzed initial g = Inr (out, g')"
    and "good_generator (gen D)" and "distinct (map fst fuzzed)"
  shows "map fst out = map fst (free_specs initial fuzzed) \<and>
    (\<forall>(name, spec) \<in> set (free_specs initial fuzzed).
       \<exists>v. map_of out name = Some v \<and> drawn_ok D spec (out @ initial) v)"
  using resolve_sizes_lemma [OF assms] by blast

definition sample_ops :: "unit float_ops" where
  "sample_ops = \<lparr>float_bin = \<lambda>op a b. Inl OverflowError, float_cmp = \<lambda>op a b. False, float_neg = \<lambda>x. x,
     float_abs = \<lambda>x. x, float_true = \<lambda>x. True, float_trunc = \<lambda>x. Inl OverflowError,
     float_round = \<lambda>x. Inl OverflowError, round_digits = \<lambda>x k. Inl OverflowError,
     to_float = \<lambda>n. Inl OverflowError, parse_float = \<lambda>s. Inl (ValueError s), parse_int = \<lambda>s. Inl (ValueError s)\<rparr>"

definition sample_parser :: "string \<Rightarrow> unit size_expr res" where
  "sample_parser s =
     (if s = ''N * M'' then Inr (EBin (EName ''N'') OpMult (EName ''M''))
      else if s = ''K // 2'' then Inr (EBin (EName ''K'') OpFloorDiv (EConst (FInt 2)))
      else if s = ''M % 8 == 0'' then Inr (ECompare (EBin (EName ''M'') OpMod (EConst (FInt 8))) [(CEq, EConst (FInt 0))])
      else Inl SyntaxError)"

text \<open>A generator that counts its draws and answers the middle of an interval.\<close>

definition sample_generator :: "int generator" where
  "sample_generator = \<lparr>pick = \<lambda>n g. (g mod max 1 n, g + 1), between = \<lambda>d lo hi g. ((lo + hi) div 2, g + 1), fresh = \<lambda>s. s\<rparr>"

definition sample_drawing :: "(unit, int) drawing" where
  "sample_drawing = \<lparr>ops = sample_ops, parser = sample_parser, gen = sample_generator, size_distribution = Uniform\<rparr>"

definition sample_table :: "unit names" where
  "sample_table = [(''K'', FMap [(''derive'', FStr ''N * M'')]), (''H'', FMap [(''derive'', FStr ''K // 2'')]),
     (''M'', FSeq [FInt 10, FInt 30])]"

lemma good_sample_generator: "good_generator sample_generator"
  by (auto simp: good_generator_def sample_generator_def)

theorem resolve_sizes_sound_witness:
  "\<exists>out g. resolve_sizes sample_drawing sample_table [(''N'', FInt 3)] 0 = Inr (out, g) \<and>
     map fst out = [''K'', ''H'', ''M''] \<and> map_of out ''K'' = Some (FInt 60) \<and> map_of out ''H'' = Some (FInt 30)"
proof -
  have "case resolve_sizes sample_drawing sample_table [(''N'', FInt 3)] 0 of Inl e \<Rightarrow> False
      | Inr (out, g) \<Rightarrow> map_of out ''K'' = Some (FInt 60) \<and> map_of out ''H'' = Some (FInt 30)"
    by code_simp
  then obtain out g where run: "resolve_sizes sample_drawing sample_table [(''N'', FInt 3)] 0 = Inr (out, g)"
    and v: "map_of out ''K'' = Some (FInt 60)" "map_of out ''H'' = Some (FInt 30)"
    by (auto split: sum.splits)
  have "good_generator (gen sample_drawing)" by (simp add: sample_drawing_def good_sample_generator)
  moreover have "distinct (map fst sample_table)" by (simp add: sample_table_def)
  ultimately have "map fst out = map fst (free_specs [(''N'', FInt 3)] sample_table)"
    using resolve_sizes_sound [OF run] by blast
  also have "\<dots> = [''K'', ''H'', ''M'']" by code_simp
  finally show ?thesis using run v by auto
qed

end
