(* ===== verification/Fuzz_Shapes.thy ===== *)
theory Fuzz_Shapes
  imports Fuzz_Sizes "HOL-Library.Product_Lexorder"
begin

text \<open>
  From a manifest's size table to the shapes a kernel is graded on (\<open>fuzz.py\<close>): the ranges of a
  preset table, the per-dimension cap, divisibility snapping, the size classes of timed inputs and the
  resampling loops \<open>sample_params\<close>, \<open>resolve_against\<close>, \<open>large_shapes\<close>. Logging is left out; the
  configuration file is a record.
\<close>

section \<open>Ranges\<close>

type_synonym 'f parameter_table = "(string \<times> 'f names) list"

text \<open>The \<open>fuzz\<close> and \<open>seeds\<close> sections; \<open>int(value * multiplier)\<close> is a float product, a parameter.\<close>

record fuzz_config =
  anchor :: string
  scale_lo :: "int \<Rightarrow> int"
  scale_hi :: "int \<Rightarrow> int"
  size_cap :: int
  correctness_cap :: int
  iteration_count :: int
  base_seed :: int
  secret_shape_seed :: int
  n_large_shapes :: int

definition int_value :: "'f fuzz_value \<Rightarrow> int option" where
  "int_value v = (case v of FInt n \<Rightarrow> Some n | FBool b \<Rightarrow> Some (of_bool b) | _ \<Rightarrow> None)"

definition constant_across_presets :: "'f float_ops \<Rightarrow> 'f parameter_table \<Rightarrow> string \<Rightarrow> bool" where
  "constant_across_presets F parameters name =
     (let seen = List.map_filter (\<lambda>(preset, table). map_of table name) parameters in
      1 < length seen \<and> list_all (\<lambda>v. py_eq F v (hd seen)) seen)"

definition with_range :: "'f fuzz_value \<Rightarrow> 'f fuzz_value \<Rightarrow> 'f fuzz_value" where
  "with_range v interval = (case v of FMap ms \<Rightarrow> FMap (dict_set ''range'' interval ms) | _ \<Rightarrow> interval)"

text \<open>One entry of \<open>apply_size_cap\<close>.\<close>

definition cap_entry :: "'f float_ops \<Rightarrow> int \<Rightarrow> string set \<Rightarrow> string \<times> 'f fuzz_value \<Rightarrow> (string \<times> 'f fuzz_value) res" where
  "cap_entry F cap config_names p =
     (let (name, v) = p in
      if name \<in> config_names then Inr (name, v)
      else case range_of v of
        Some (a, b) \<Rightarrow>
          bindE (bound_int F a) (\<lambda>lo. bindE (bound_int F b) (\<lambda>hi.
            let chi = min hi cap;
                clo = (if min lo cap = chi \<and> lo < hi then max 1 (chi div 2) else min lo cap);
                interval = FSeq [FInt clo, FInt chi]
            in Inr (name, if is_smooth v then with_range v interval else interval)))
      | None \<Rightarrow>
          (case int_value v of
             Some n \<Rightarrow> Inr (name, if 1 < n then FInt (min n cap) else v)
           | None \<Rightarrow> Inr (name, v)))"

definition apply_size_cap :: "'f float_ops \<Rightarrow> 'f names \<Rightarrow> int \<Rightarrow> string set \<Rightarrow> 'f names res" where
  "apply_size_cap F ranges cap config_names =
     (if cap \<le> 0 then Inr ranges else traverseE (cap_entry F cap config_names) ranges)"

text \<open>\<open>parameters.get(anchor) or parameters.get(XL) or parameters.get(L) or next(iter(...))\<close>: an empty
  table counts as absent.\<close>

definition base_table :: "fuzz_config \<Rightarrow> 'f parameter_table \<Rightarrow> 'f names res" where
  "base_table C parameters =
     (case List.map_filter (\<lambda>preset. case map_of parameters preset of Some (r # rs) \<Rightarrow> Some (r # rs) | _ \<Rightarrow> None)
             [anchor C, ''XL'', ''L''] of
        table # rest \<Rightarrow> Inr table
      | [] \<Rightarrow> (case parameters of [] \<Rightarrow> Inl StopIteration | (preset, table) # rest \<Rightarrow> Inr table))"

definition range_entry ::
    "'f float_ops \<Rightarrow> fuzz_config \<Rightarrow> 'f parameter_table \<Rightarrow> string set \<Rightarrow> string \<times> 'f fuzz_value \<Rightarrow> string \<times> 'f fuzz_value" where
  "range_entry F C parameters config_names p =
     (let (name, v) = p in
      if name \<in> config_names then (name, v)
      else if constant_across_presets F parameters name
      then (name, if int_value v \<noteq> None then FSeq [v, v] else v)
      else case int_value v of
        Some n \<Rightarrow>
          if 1 < n
          then let lo = max 1 (scale_lo C n) in (name, FSeq [FInt lo, FInt (max lo (scale_hi C n))])
          else (name, v)
      | None \<Rightarrow> (name, v))"

definition resolve_ranges ::
    "'f float_ops \<Rightarrow> fuzz_config \<Rightarrow> 'f parameter_table \<Rightarrow> int option \<Rightarrow> string set \<Rightarrow> 'f names res" where
  "resolve_ranges F C parameters cap config_names =
     (let ceiling = (case cap of None \<Rightarrow> size_cap C | Some c \<Rightarrow> c) in
      case map_of parameters ''fuzzed'' of
        Some table \<Rightarrow> apply_size_cap F table ceiling config_names
      | None \<Rightarrow> bindE (base_table C parameters) (\<lambda>base.
          apply_size_cap F (map (range_entry F C parameters config_names) base) ceiling config_names))"

text \<open>\<open>respec_ranges\<close>: every interval rewritten, smooth bounds kept.\<close>

definition respec_one ::
    "('f fuzz_value \<Rightarrow> 'f fuzz_value \<Rightarrow> 'f fuzz_value res) \<Rightarrow> 'f fuzz_value \<Rightarrow> 'f fuzz_value res" where
  "respec_one interval v =
     (case range_of v of
        None \<Rightarrow> Inr v
      | Some (a, b) \<Rightarrow> bindE (interval a b) (\<lambda>r. Inr (if is_range v then r else with_range v r)))"

definition respec_ranges ::
    "('f fuzz_value \<Rightarrow> 'f fuzz_value \<Rightarrow> 'f fuzz_value res) \<Rightarrow> 'f parameter_table \<Rightarrow> 'f names \<Rightarrow> 'f parameter_table res" where
  "respec_ranges interval parameters fuzzed =
     bindE (traverseE (\<lambda>(name, v). bindE (respec_one interval v) (\<lambda>w. Inr (name, w))) fuzzed) (\<lambda>rewritten.
       Inr (dict_set ''fuzzed'' rewritten parameters))"

section \<open>Constraints\<close>

definition all_hold :: "('f, 'g) drawing \<Rightarrow> string list \<Rightarrow> 'f names \<Rightarrow> bool res" where
  "all_hold D constraints ns =
     foldr (\<lambda>c rest. bindE (safe_eval (ops D) (parser D) c ns) (\<lambda>v. if truth (ops D) v then rest else Inr False))
       constraints (Inr True)"

text \<open>\<open>DIVISIBILITY\<close>: \<open>^\s*([A-Za-z_]\w*)\s*%\s*(\d+)\s*==\s*0\s*$\<close> (ASCII).\<close>

definition is_space :: "char \<Rightarrow> bool" where
  "is_space c \<longleftrightarrow> c \<in> {CHR '' '', CHR 0x09, CHR 0x0A, CHR 0x0B, CHR 0x0C, CHR 0x0D}"

definition is_digit :: "char \<Rightarrow> bool" where
  "is_digit c \<longleftrightarrow> CHR ''0'' \<le> c \<and> c \<le> CHR ''9''"

definition is_name_start :: "char \<Rightarrow> bool" where
  "is_name_start c \<longleftrightarrow> (CHR ''A'' \<le> c \<and> c \<le> CHR ''Z'') \<or> (CHR ''a'' \<le> c \<and> c \<le> CHR ''z'') \<or> c = CHR ''_''"

definition skip_space :: "string \<Rightarrow> string" where
  "skip_space s = dropWhile is_space s"

fun take_literal :: "string \<Rightarrow> string \<Rightarrow> string option" where
  "take_literal [] s = Some s"
| "take_literal (c # cs) (d # ds) = (if c = d then take_literal cs ds else None)"
| "take_literal (c # cs) [] = None"

definition digits_value :: "string \<Rightarrow> int" where
  "digits_value s = foldl (\<lambda>n c. 10 * n + int (of_char c - 48)) 0 s"

definition divisibility :: "string \<Rightarrow> (string \<times> int) option" where
  "divisibility s =
     (let s1 = skip_space s in
      if s1 = [] \<or> \<not> is_name_start (hd s1) then None
      else let word = (\<lambda>c. is_name_start c \<or> is_digit c); name = takeWhile word s1 in
      Option.bind (take_literal ''%'' (skip_space (dropWhile word s1))) (\<lambda>s2.
      let s3 = skip_space s2; ds = takeWhile is_digit s3 in
      if ds = [] then None
      else Option.bind (take_literal ''=='' (skip_space (dropWhile is_digit s3))) (\<lambda>s4.
      Option.bind (take_literal ''0'' (skip_space s4)) (\<lambda>s5.
      if skip_space s5 = [] then Some (name, digits_value ds) else None))))"

definition snap_step :: "'f names \<Rightarrow> string \<Rightarrow> 'f names res" where
  "snap_step out constraint =
     (case divisibility constraint of
        None \<Rightarrow> Inr out
      | Some (name, quantum) \<Rightarrow>
          (case map_of out name of
             Some (FInt n) \<Rightarrow> bindE (py_mod n quantum) (\<lambda>r. Inr (dict_set name (FInt (max quantum (n - r))) out))
           | _ \<Rightarrow> Inr out))"

definition snap_divisible :: "'f names \<Rightarrow> string list \<Rightarrow> 'f names res" where
  "snap_divisible out constraints = foldE snap_step out constraints"

section \<open>Size classes\<close>

datatype size_class = Aligned | Odd | Nonpow2 | Nonaligned

definition size_classes :: "size_class list" where
  "size_classes = [Aligned, Odd, Nonpow2, Nonaligned]"

definition class_search :: nat where
  "class_search = 128"

definition in_class :: "int \<Rightarrow> size_class \<Rightarrow> bool" where
  "in_class v c =
     (case c of
        Aligned \<Rightarrow> v mod 64 = 0
      | Odd \<Rightarrow> v mod 2 = 1
      | Nonpow2 \<Rightarrow> v mod 8 = 0 \<and> (v div 8) mod 2 = 1 \<and> 8 < v
      | Nonaligned \<Rightarrow> v mod 2 = 0 \<and> v mod 8 \<noteq> 0)"

text \<open>\<open>min(members, key=lambda v: (abs(v - value), v))\<close>.\<close>

definition nearest_member :: "int \<Rightarrow> int list \<Rightarrow> int option" where
  "nearest_member v members =
     (case members of
        [] \<Rightarrow> None
      | m # ms \<Rightarrow> Some (foldl (\<lambda>best w. if (\<bar>w - v\<bar>, w) < (\<bar>best - v\<bar>, best) then w else best) m ms))"

definition search_candidates :: "int \<Rightarrow> int list" where
  "search_candidates v = concat (map (\<lambda>step. [v - int step, v + int step]) [0..<class_search + 1])"

definition snap_to_class :: "int \<Rightarrow> size_class \<Rightarrow> int \<Rightarrow> int \<Rightarrow> int option \<Rightarrow> int option" where
  "snap_to_class v c lo hi smooth =
     (case smooth of
        Some bound \<Rightarrow>
          nearest_member v (filter (\<lambda>w. lo \<le> w \<and> w \<le> hi \<and> in_class w c) (smooth_numbers bound (max 1 hi)))
      | None \<Rightarrow> find (\<lambda>w. lo \<le> w \<and> w \<le> hi \<and> in_class w c) (search_candidates v))"

text \<open>One dimension at a new size: derives are recomputed with \<open>default_rng(0)\<close> and a uniform draw, and
  the trial is kept when the constraints hold on it.\<close>

definition reclassed ::
    "('f, 'g) drawing \<Rightarrow> 'f names \<Rightarrow> string list \<Rightarrow> 'f names \<Rightarrow> string \<Rightarrow> int \<Rightarrow> 'f names res" where
  "reclassed D derived constraints out name snapped =
     (let trial = dict_set name (FInt snapped) (filter (\<lambda>(k, w). \<not> bound_in derived k) out) in
      bindE (resolve_sizes (D\<lparr>size_distribution := Uniform\<rparr>) derived trial (fresh (gen D) 0)) (\<lambda>(sizes, g).
      let trial = dict_merge trial sizes in
      bindE (all_hold D constraints trial) (\<lambda>ok. Inr (if ok then trial else out))))"

definition class_step ::
    "('f, 'g) drawing \<Rightarrow> 'f names \<Rightarrow> size_class \<Rightarrow> string list \<Rightarrow> 'f names \<Rightarrow> string \<times> 'f fuzz_value \<Rightarrow> 'f names res" where
  "class_step D derived c constraints out p =
     (let (name, spec) = p in
      case (range_of spec, map_of out name) of
        (Some (a, b), Some (FInt v)) \<Rightarrow>
          if in_class v c then Inr out
          else bindE (bound_int (ops D) a) (\<lambda>lo. bindE (bound_int (ops D) b) (\<lambda>hi.
            if hi \<le> lo then Inr out
            else case snap_to_class v c lo hi (if is_smooth spec then Option.bind (entry ''smooth'' spec) int_value else None) of
              None \<Rightarrow> Inr out
            | Some snapped \<Rightarrow> reclassed D derived constraints out name snapped))
      | _ \<Rightarrow> Inr out)"

definition apply_size_class ::
    "('f, 'g) drawing \<Rightarrow> 'f names \<Rightarrow> 'f names \<Rightarrow> size_class \<Rightarrow> string list \<Rightarrow> 'f names res" where
  "apply_size_class D fuzzed drawn c constraints =
     foldE (class_step D (filter (\<lambda>(name, spec). is_derive spec) fuzzed) c constraints) drawn fuzzed"

section \<open>The resampling loops\<close>

definition max_resample :: nat where
  "max_resample = 1000"

definition attempt_seed :: "int \<Rightarrow> nat \<Rightarrow> int" where
  "attempt_seed seed attempt = seed + int attempt * 1000003"

text \<open>\<open>out not in exclude\<close>.\<close>

definition excluded :: "'f float_ops \<Rightarrow> 'f names list \<Rightarrow> 'f names \<Rightarrow> bool" where
  "excluded F exclude out = list_ex (\<lambda>e. py_eq F (FMap out) (FMap e)) exclude"

definition draw_against ::
    "('f, 'g) drawing \<Rightarrow> 'f names \<Rightarrow> 'f names \<Rightarrow> string list \<Rightarrow> 'f names list \<Rightarrow> size_class option \<Rightarrow> int \<Rightarrow>
     'f names option res" where
  "draw_against D fuzzed fixed constraints exclude c seed =
     bindE (resolve_sizes D fuzzed fixed (fresh (gen D) seed)) (\<lambda>(sizes, g).
     bindE (snap_divisible (dict_merge fixed sizes) constraints) (\<lambda>snapped.
     bindE (case c of None \<Rightarrow> Inr snapped | Some k \<Rightarrow> apply_size_class D fuzzed snapped k constraints) (\<lambda>out.
     if excluded (ops D) exclude out then Inr None
     else bindE (all_hold D constraints out) (\<lambda>ok. Inr (if ok then Some out else None)))))"

definition resolve_against ::
    "('f, 'g) drawing \<Rightarrow> fuzz_config \<Rightarrow> 'f parameter_table \<Rightarrow> 'f names \<Rightarrow> int \<Rightarrow> string list \<Rightarrow> int option \<Rightarrow>
     string set \<Rightarrow> 'f names list \<Rightarrow> size_class option \<Rightarrow> 'f names res" where
  "resolve_against D C parameters fixed seed constraints cap config_names exclude c =
     bindE (resolve_ranges (ops D) C parameters cap config_names) (\<lambda>fuzzed.
     bindE (first_some (\<lambda>attempt. draw_against D fuzzed fixed constraints exclude c (attempt_seed seed attempt))
              [0..<max_resample]) (\<lambda>found.
       case found of None \<Rightarrow> Inl (ValueError ''could not satisfy constraints'') | Some out \<Rightarrow> Inr out))"

definition resolve_config :: "'g generator \<Rightarrow> 'f names list \<Rightarrow> 'g \<Rightarrow> ('f names \<times> 'g) res" where
  "resolve_config R configs g =
     (if configs = [] then Inl (ValueError ''config space is empty'')
      else let (i, g') = pick R (int (length configs)) g in bindE (py_get configs i) (\<lambda>c. Inr (c, g')))"

definition draw_params ::
    "('f, 'g) drawing \<Rightarrow> 'f names \<Rightarrow> 'f names list \<Rightarrow> string list \<Rightarrow> int \<Rightarrow> 'f names option res" where
  "draw_params D fuzzed configs constraints seed =
     (let g = fresh (gen D) seed in
      bindE (if configs = [] then Inr ([], g) else resolve_config (gen D) configs g) (\<lambda>(chosen, g1).
      bindE (resolve_sizes D fuzzed chosen g1) (\<lambda>(sizes, g2).
      bindE (snap_divisible (dict_merge chosen sizes) constraints) (\<lambda>out.
      bindE (all_hold D constraints out) (\<lambda>ok. Inr (if ok then Some out else None))))))"

definition sample_params ::
    "('f, 'g) drawing \<Rightarrow> fuzz_config \<Rightarrow> 'f parameter_table \<Rightarrow> int \<Rightarrow> 'f names list \<Rightarrow> string list \<Rightarrow> int option \<Rightarrow>
     string set \<Rightarrow> 'f names res" where
  "sample_params D C parameters iteration configs constraints cap config_names =
     bindE (resolve_ranges (ops D) C parameters cap config_names) (\<lambda>fuzzed.
     bindE (first_some (\<lambda>attempt. draw_params D fuzzed configs constraints
              (attempt_seed (base_seed C + iteration) attempt)) [0..<max_resample]) (\<lambda>found.
       case found of None \<Rightarrow> Inl (ValueError ''could not satisfy constraints'') | Some out \<Rightarrow> Inr out))"

text \<open>\<open>enumerate_configs\<close>: \<open>choice seed n k\<close> is \<open>rng.choice(n, size=k, replace=False)\<close>.\<close>

definition config_pool :: int where
  "config_pool = 5"

definition enumerate_configs ::
    "(int \<Rightarrow> nat \<Rightarrow> int \<Rightarrow> nat list) \<Rightarrow> fuzz_config \<Rightarrow> 'f names list option \<Rightarrow> int option \<Rightarrow> int option \<Rightarrow> 'f names list" where
  "enumerate_configs choice C configs max_configs seed =
     (case configs of
        None \<Rightarrow> [[]]
      | Some cs \<Rightarrow>
          if cs = [] then [[]]
          else let cap = (case max_configs of None \<Rightarrow> config_pool | Some m \<Rightarrow> m) in
            if 0 < cap \<and> cap < int (length cs)
            then map (\<lambda>i. cs ! i) (sort (choice (case seed of None \<Rightarrow> secret_shape_seed C | Some s \<Rightarrow> s) (length cs) cap))
            else cs)"

definition max_shape ::
    "('f, 'g) drawing \<Rightarrow> fuzz_config \<Rightarrow> 'f parameter_table \<Rightarrow> 'f names \<Rightarrow> string list \<Rightarrow> string set \<Rightarrow> 'f names res" where
  "max_shape D C parameters fixed constraints config_names =
     bindE (resolve_ranges (ops D) C parameters None config_names) (\<lambda>fuzzed.
     bindE (respec_ranges (\<lambda>lo hi. Inr (FSeq [hi, hi])) parameters fuzzed) (\<lambda>spec.
       resolve_against (D\<lparr>size_distribution := Uniform\<rparr>) C spec fixed 0 constraints None config_names [] None))"

definition fuzzed_shape ::
    "('f, 'g) drawing \<Rightarrow> fuzz_config \<Rightarrow> 'f parameter_table \<Rightarrow> int \<Rightarrow> 'f names \<Rightarrow> string list \<Rightarrow> string set \<Rightarrow> 'f names res" where
  "fuzzed_shape D C parameters iteration fixed constraints config_names =
     (let caps = filter (\<lambda>c. 0 < c) [correctness_cap C, size_cap C];
          cap = (case caps of [] \<Rightarrow> None | c # cs \<Rightarrow> Some (foldl min c cs)) in
      resolve_against D C parameters fixed (base_seed C + iteration) constraints cap config_names [] None)"

text \<open>Timed inputs: the upper half of every interval, a size class per input, distinct draws while there
  are any. A sample is labelled by its index (behind \<open>secret\<close> or \<open>large\<close>).\<close>

datatype perf_mode = AllConfigs3Shapes | Secret3Shapes

definition upper_half :: "'f float_ops \<Rightarrow> 'f fuzz_value \<Rightarrow> 'f fuzz_value \<Rightarrow> 'f fuzz_value res" where
  "upper_half F a b =
     bindE (bound_int F a) (\<lambda>lo. bindE (bound_int F b) (\<lambda>hi.
       Inr (FSeq [FInt (lo + (hi - lo) div 2), FInt hi])))"

text \<open>\<open>except ValueError\<close>.\<close>

definition on_value_error :: "'a res \<Rightarrow> 'a res \<Rightarrow> 'a res" where
  "on_value_error r s = (case r of Inl (ValueError m) \<Rightarrow> s | _ \<Rightarrow> r)"

definition shape_seeds :: "fuzz_config \<Rightarrow> perf_mode \<Rightarrow> int option \<Rightarrow> int \<Rightarrow> int list" where
  "shape_seeds C mode secret_seed count =
     (let base = (if mode = Secret3Shapes then (case secret_seed of None \<Rightarrow> secret_shape_seed C | Some s \<Rightarrow> s)
                  else base_seed C + 10000)
      in map (\<lambda>i. base + i) (py_range 0 count))"

definition large_shape_step ::
    "(int \<Rightarrow> 'f names list \<Rightarrow> size_class option \<Rightarrow> 'f names res) \<Rightarrow> 'f names list \<Rightarrow>
     (nat \<times> 'f names) list \<Rightarrow> nat \<times> int \<Rightarrow> (nat \<times> 'f names) list res" where
  "large_shape_step resolve exclude out p =
     (let (index, seed) = p; taken = exclude @ map snd out;
          c = size_classes ! (index mod length size_classes);
          sample = on_value_error (resolve seed taken (Some c))
                     (on_value_error (resolve seed taken None) (resolve seed [] (Some c)))
      in on_value_error (bindE sample (\<lambda>s. Inr (out @ [(index, s)]))) (Inr out))"

definition large_shapes ::
    "('f, 'g) drawing \<Rightarrow> fuzz_config \<Rightarrow> 'f parameter_table \<Rightarrow> 'f names \<Rightarrow> perf_mode \<Rightarrow> int option \<Rightarrow> int option \<Rightarrow>
     string list \<Rightarrow> string set \<Rightarrow> 'f names list \<Rightarrow> (nat \<times> 'f names) list res" where
  "large_shapes D C parameters fixed mode n secret_seed constraints config_names exclude =
     bindE (resolve_ranges (ops D) C parameters None config_names) (\<lambda>fuzzed.
     bindE (respec_ranges (upper_half (ops D)) parameters fuzzed) (\<lambda>big_spec.
     let count = max 1 (case n of None \<Rightarrow> n_large_shapes C | Some m \<Rightarrow> m);
         resolve = (\<lambda>seed taken c. resolve_against (D\<lparr>size_distribution := Uniform\<rparr>) C big_spec fixed seed
                      constraints None config_names taken c)
     in foldE (large_shape_step resolve exclude) [] (enumerate 0 (shape_seeds C mode secret_seed count))))"

section \<open>The class search\<close>

lemma set_search_candidates: "set (search_candidates v) = {w. \<bar>w - v\<bar> \<le> int class_search}"
proof -
  have "w \<in> set (search_candidates v)" if "\<bar>w - v\<bar> \<le> int class_search" for w
  proof -
    let ?s = "nat \<bar>w - v\<bar>"
    have "?s \<in> set [0..<class_search + 1]" using that by auto
    moreover have "w \<in> set [v - int ?s, v + int ?s]" by auto
    ultimately show ?thesis unfolding search_candidates_def set_concat set_map by blast
  qed
  then show ?thesis by (auto simp: search_candidates_def)
qed

lemma find_nearest:
  assumes "find P (concat (map (\<lambda>s. [v - int s, v + int s]) [n..<m])) = Some w"
  shows "P w \<and> (\<exists>s \<in> {n..<m}. \<bar>w - v\<bar> = int s \<and> (\<forall>u. P u \<longrightarrow> int n \<le> \<bar>u - v\<bar> \<longrightarrow> int s \<le> \<bar>u - v\<bar>))"
  using assms
proof (induction "m - n" arbitrary: n)
  case (Suc k)
  then have n: "n < m" "[n..<m] = n # [Suc n..<m]" by (simp_all add: upt_conv_Cons)
  show ?case
  proof (cases "P (v - int n) \<or> P (v + int n)")
    case True
    with Suc.prems n have "P w" "w = v - int n \<or> w = v + int n" by (auto split: if_splits)
    with n(1) show ?thesis by (auto intro!: bexI [of _ n])
  next
    case False
    with Suc.prems n have "find P (concat (map (\<lambda>s. [v - int s, v + int s]) [Suc n..<m])) = Some w" by simp
    from Suc.hyps(1) [OF _ this] Suc.hyps(2) have
      "P w \<and> (\<exists>s \<in> {Suc n..<m}. \<bar>w - v\<bar> = int s \<and> (\<forall>u. P u \<longrightarrow> int (Suc n) \<le> \<bar>u - v\<bar> \<longrightarrow> int s \<le> \<bar>u - v\<bar>))"
      by linarith
    then obtain s where s: "P w" "s \<in> {Suc n..<m}" "\<bar>w - v\<bar> = int s"
      "\<forall>u. P u \<longrightarrow> int (Suc n) \<le> \<bar>u - v\<bar> \<longrightarrow> int s \<le> \<bar>u - v\<bar>" by auto
    have "int s \<le> \<bar>u - v\<bar>" if "P u" "int n \<le> \<bar>u - v\<bar>" for u
    proof -
      have "u \<noteq> v - int n" "u \<noteq> v + int n" using that(1) False by auto
      with that s(4) show ?thesis by auto
    qed
    with s show ?thesis by (auto intro!: bexI [of _ s])
  qed
qed simp

lemma nearest_member_fold:
  fixes m v :: int
  defines "f \<equiv> \<lambda>best w. if (\<bar>w - v\<bar>, w) < (\<bar>best - v\<bar>, best) then w else best"
  shows "foldl f m ms \<in> set (m # ms) \<and> (\<forall>w \<in> set (m # ms). \<bar>foldl f m ms - v\<bar> \<le> \<bar>w - v\<bar>)"
proof (induction ms arbitrary: m)
  case (Cons w ms)
  have "f m w \<in> {m, w}" "\<bar>f m w - v\<bar> \<le> \<bar>m - v\<bar>" "\<bar>f m w - v\<bar> \<le> \<bar>w - v\<bar>"
    by (auto simp: f_def less_prod_def)
  with Cons.IH [of "f m w"] show ?case
    by (auto intro: order_trans)
qed simp

text \<open>Snapping a size into its class returns a member of the class inside the interval, and no
  member there is nearer: \<open>snap_to_class\<close> answers the nearest one (of the smooth ones, when the
  parameter asks for smooth sizes), and \<open>None\<close> exactly when the interval holds no member, for plain
  sizes within 128 of the draw.\<close>

theorem snap_to_class_nearest:
  "snap_to_class v c lo hi smooth = r \<Longrightarrow>
     (let member = (\<lambda>w. lo \<le> w \<and> w \<le> hi \<and> in_class w c \<and>
            (case smooth of None \<Rightarrow> \<bar>w - v\<bar> \<le> 128 | Some b \<Rightarrow> w \<in> set (smooth_numbers b (max 1 hi))))
      in case r of
           None \<Rightarrow> \<forall>w. \<not> member w
         | Some w \<Rightarrow> member w \<and> (\<forall>u. member u \<longrightarrow> \<bar>w - v\<bar> \<le> \<bar>u - v\<bar>))"
proof (cases smooth)
  case None
  let ?P = "\<lambda>w. lo \<le> w \<and> w \<le> hi \<and> in_class w c"
  assume "snap_to_class v c lo hi smooth = r"
  with None have r: "find ?P (search_candidates v) = r" by (simp add: snap_to_class_def)
  show ?thesis
  proof (cases r)
    case None
    with r \<open>smooth = None\<close> show ?thesis
      by (auto simp: find_None_iff set_search_candidates class_search_def)
  next
    case (Some w)
    with r have "find ?P (concat (map (\<lambda>s. [v - int s, v + int s]) [0..<class_search + 1])) = Some w"
      by (simp add: search_candidates_def)
    from find_nearest [OF this] Some \<open>smooth = None\<close> show ?thesis
      by (auto simp: class_search_def)
  qed
next
  case (Some b)
  let ?ms = "filter (\<lambda>w. lo \<le> w \<and> w \<le> hi \<and> in_class w c) (smooth_numbers b (max 1 hi))"
  assume "snap_to_class v c lo hi smooth = r"
  with Some have r: "nearest_member v ?ms = r" by (simp add: snap_to_class_def)
  show ?thesis
  proof (cases ?ms)
    case Nil
    with r have "r = None" by (simp add: nearest_member_def)
    with Nil Some show ?thesis by (auto simp: filter_empty_conv)
  next
    case (Cons m ms)
    define w where "w = foldl (\<lambda>best w. if (\<bar>w - v\<bar>, w) < (\<bar>best - v\<bar>, best) then w else best) m ms"
    have "w \<in> set ?ms \<and> (\<forall>u \<in> set ?ms. \<bar>w - v\<bar> \<le> \<bar>u - v\<bar>)"
      unfolding Cons w_def by (rule nearest_member_fold)
    moreover have "r = Some w" using r Cons by (simp add: nearest_member_def w_def)
    ultimately show ?thesis using Some by auto
  qed
qed

theorem snap_to_class_nearest_witness:
  "snap_to_class 37 Aligned 10 100 None = Some 64 \<and> \<bar>64 - 37\<bar> \<le> \<bar>0 + 64 - (37 :: int)\<bar> \<and>
     snap_to_class 37 Aligned 10 60 None = None \<and> (\<forall>w. \<not> (10 \<le> w \<and> w \<le> 60 \<and> in_class w Aligned \<and> \<bar>w - 37\<bar> \<le> 128))"
proof -
  have "snap_to_class 37 Aligned 10 100 None = Some 64" "snap_to_class 37 Aligned 10 60 None = None" by code_simp+
  with snap_to_class_nearest [of 37 Aligned 10 100 None] snap_to_class_nearest [of 37 Aligned 10 60 None]
  show ?thesis by (auto simp: Let_def)
qed

section \<open>What a resolved shape satisfies\<close>

lemma all_hold_iff:
  "all_hold D cs ns = Inr True \<longleftrightarrow>
     (\<forall>c \<in> set cs. \<exists>v. safe_eval (ops D) (parser D) c ns = Inr v \<and> truth (ops D) v)"
  by (induction cs) (auto simp: all_hold_def bindE_Inr_iff)

lemma resolve_sizes_keys:
  assumes "resolve_sizes D fuzzed initial g = Inr (out, g')"
  shows "map fst out = map fst (free_specs initial fuzzed)"
proof -
  from assms obtain ns where "traverseE (\<lambda>(name, spec). bindE (dict_item KeyError ns name) (\<lambda>v. Inr (name, v)))
      (free_specs initial fuzzed) = Inr out"
    by (auto simp: resolve_sizes_def free_specs_def bindE_Inr_iff split: if_splits)
  note T = traverseE_InrD [OF this]
  have "fst (out ! i) = fst (free_specs initial fuzzed ! i)" if "i < length (free_specs initial fuzzed)" for i
    using T that by (auto simp: bindE_Inr_iff case_prod_beta dest!: spec [of _ i]) (metis fst_conv)
  with T show ?thesis by (intro nth_equalityI [where xs = "map fst out"]) simp_all
qed

lemma resolve_sizes_names:
  assumes "resolve_sizes D fuzzed initial g = Inr (out, g')" "x \<in> fst ` set out"
  shows "bound_in fuzzed x"
proof -
  have "fst ` set out = fst ` set (free_specs initial fuzzed)"
    using resolve_sizes_keys [OF assms(1)] by (metis list.set_map)
  with assms(2) show ?thesis by (auto simp: free_specs_def bound_in_def)
qed

lemma map_of_filter_keys: "P x \<Longrightarrow> map_of (filter (\<lambda>(k, v). P k) d) x = map_of d x"
  by (induction d) auto

text \<open>The names a divisibility constraint may move.\<close>

definition snapped_names :: "string list \<Rightarrow> string set" where
  "snapped_names constraints = {name. \<exists>c \<in> set constraints. \<exists>q. divisibility c = Some (name, q)}"

lemma snap_keeps:
  "snap_divisible out constraints = Inr out' \<Longrightarrow> x \<notin> snapped_names constraints \<Longrightarrow> map_of out' x = map_of out x"
proof (induction constraints arbitrary: out)
  case (Cons c cs)
  then obtain out1 where s: "snap_step out c = Inr out1" "snap_divisible out1 cs = Inr out'"
    by (auto simp: snap_divisible_def bindE_Inr_iff)
  have x: "x \<notin> snapped_names cs" "\<And>y q. divisibility c = Some (y, q) \<Longrightarrow> y \<noteq> x"
    using Cons.prems(2) by (auto simp: snapped_names_def)
  have "map_of out1 x = map_of out x"
  proof (cases "divisibility c")
    case (Some p)
    obtain y q where p: "p = (y, q)" by (cases p)
    with x(2) Some have "y \<noteq> x" by simp
    with s(1) Some p show ?thesis
      by (auto simp: snap_step_def bindE_Inr_iff update_conv' split: option.splits fuzz_value.splits)
  qed (use s(1) in \<open>simp add: snap_step_def\<close>)
  with Cons.IH [OF s(2) x(1)] show ?case by simp
qed (simp add: snap_divisible_def)

lemma class_step_keeps:
  assumes "class_step D derived c constraints out (name, spec) = Inr out'" "x \<noteq> name" "\<not> bound_in derived x"
  shows "map_of out' x = map_of out x"
proof -
  have "out' = out \<or> (\<exists>w. reclassed D derived constraints out name w = Inr out')"
    using assms(1)
    by (auto simp: class_step_def bindE_Inr_iff split: option.splits fuzz_value.splits if_splits)
  then consider "out' = out" | w sizes g g0 where "resolve_sizes (D\<lparr>size_distribution := Uniform\<rparr>) derived
        (dict_set name (FInt w) (filter (\<lambda>(k, v). \<not> bound_in derived k) out)) g0 = Inr (sizes, g)"
      "out' = dict_merge (dict_set name (FInt w) (filter (\<lambda>(k, v). \<not> bound_in derived k) out)) sizes"
    by (auto simp: reclassed_def Let_def bindE_Inr_iff split: if_splits)
  then show ?thesis
  proof cases
    case 2
    have "x \<notin> fst ` set sizes"
      using resolve_sizes_names [OF 2(1)] assms(3) by blast
    with 2(2) assms(2,3) show ?thesis
      by (simp add: map_of_dict_merge_other update_conv' map_of_filter_keys)
  qed simp
qed

lemma apply_size_class_keeps:
  assumes "apply_size_class D fuzzed drawn c constraints = Inr out" "x \<notin> fst ` set fuzzed"
  shows "map_of out x = map_of drawn x"
proof -
  let ?derived = "filter (\<lambda>(name, spec). is_derive spec) fuzzed"
  have nb: "\<not> bound_in ?derived x" using assms(2) by (force simp: bound_in_def)
  have "foldE (class_step D ?derived c constraints) drawn ps = Inr out \<Longrightarrow> set ps \<subseteq> set fuzzed \<Longrightarrow>
      map_of out x = map_of drawn x" for ps drawn
  proof (induction ps arbitrary: drawn)
    case (Cons p ps)
    obtain name spec where p: "p = (name, spec)" by (cases p)
    from Cons.prems(1) obtain d1 where s: "class_step D ?derived c constraints drawn (name, spec) = Inr d1"
      "foldE (class_step D ?derived c constraints) d1 ps = Inr out" by (auto simp: bindE_Inr_iff p)
    have "x \<noteq> name" using Cons.prems(2) assms(2) p by force
    from class_step_keeps [OF s(1) this nb] Cons.IH [OF s(2)] Cons.prems(2) show ?case by simp
  qed simp
  with assms(1) show ?thesis by (simp add: apply_size_class_def)
qed



end
