(* ===== verification/Dtypes.thy ===== *)
theory Dtypes
  imports Prelude
begin

text \<open>
  The dtype table of the translators (\<open>numpyto_common/dtypes.py\<close>): one row per numpy dtype with its
  spelling in every target, the look-ups over it, and numpy's integer promotion. The facts: a binding
  kind names its dtype back, every row is consistent, and \<open>promote_integers\<close> is the least type that
  holds both operands.
\<close>

section \<open>The table\<close>

text \<open>The \<open>ctypes\<close> types of the table and \<open>ctypes.sizeof\<close> on the 64-bit ABI of the benchmark's hosts.\<close>

datatype ctype =
    c_bool | c_int8 | c_int16 | c_int32 | c_int64 | c_uint8 | c_uint16 | c_uint32 | c_uint64
  | c_float | c_double | c_longdouble

fun sizeof :: "ctype \<Rightarrow> nat" where
  "sizeof c_bool = 1" | "sizeof c_int8 = 1" | "sizeof c_int16 = 2" | "sizeof c_int32 = 4"
| "sizeof c_int64 = 8" | "sizeof c_uint8 = 1" | "sizeof c_uint16 = 2" | "sizeof c_uint32 = 4"
| "sizeof c_uint64 = 8" | "sizeof c_float = 4" | "sizeof c_double = 8" | "sizeof c_longdouble = 16"

record DTypeInfo =
  numpy_name :: string
  c_name :: string
  fortran_name :: "string option"
  scalar_kind_name :: string
  ptr_kind_name :: string
  ctype_of :: "ctype option"
  compute_as :: "string option"
  stored_as :: "string option"
  range_of_values :: "(int \<times> int) option"
  multiple_of :: int

definition registry_row ::
    "string \<Rightarrow> string \<Rightarrow> string option \<Rightarrow> string \<Rightarrow> string \<Rightarrow> ctype option \<Rightarrow> string option \<Rightarrow> DTypeInfo" where
  "registry_row numpy c fortran scalar_kind ptr_kind ct compute =
     \<lparr>numpy_name = numpy, c_name = c, fortran_name = fortran, scalar_kind_name = scalar_kind,
      ptr_kind_name = ptr_kind, ctype_of = ct, compute_as = compute, stored_as = None,
      range_of_values = None, multiple_of = 1\<rparr>"

text \<open>\<open>row_\<close> with its last three arguments, which only \<open>int4\<close> gives.\<close>

definition row_stored :: "string \<Rightarrow> int \<times> int \<Rightarrow> int \<Rightarrow> DTypeInfo \<Rightarrow> DTypeInfo" where
  "row_stored storage bounds multiple row =
     row\<lparr>stored_as := Some storage, range_of_values := Some bounds, multiple_of := multiple\<rparr>"

definition float_rows :: "DTypeInfo list" where
  "float_rows =
     [registry_row ''float64'' ''double'' (Some ''real(c_double)'') ''double'' ''ptr_double'' (Some c_double) None,
      registry_row ''float32'' ''float'' (Some ''real(c_float)'') ''float'' ''ptr_float'' (Some c_float) None,
      registry_row ''float16'' ''_Float16'' None ''float16'' ''ptr_float16'' None None,
      registry_row ''float128'' ''long double'' None ''float128'' ''ptr_float128'' (Some c_longdouble) None,
      registry_row ''float8_e4m3'' ''__npb_fp8_e4m3'' (Some ''integer(c_int8_t)'') ''float8_e4m3'' ''ptr_float8_e4m3''
        (Some c_uint8) (Some ''float32''),
      registry_row ''float8_e5m2'' ''__npb_fp8_e5m2'' (Some ''integer(c_int8_t)'') ''float8_e5m2'' ''ptr_float8_e5m2''
        (Some c_uint8) (Some ''float32''),
      registry_row ''bfloat16'' ''__npb_bf16'' (Some ''integer(c_int16_t)'') ''bfloat16'' ''ptr_bfloat16''
        (Some c_uint16) (Some ''float32'')]"

definition int_rows :: "DTypeInfo list" where
  "int_rows =
     [registry_row ''int64'' ''int64_t'' (Some ''integer(c_int64_t)'') ''int64'' ''ptr_int64'' (Some c_int64) None,
      registry_row ''int32'' ''int32_t'' (Some ''integer(c_int32_t)'') ''int32'' ''ptr_int32'' (Some c_int32) None,
      registry_row ''int16'' ''int16_t'' (Some ''integer(c_int16_t)'') ''int16'' ''ptr_int16'' (Some c_int16) None,
      registry_row ''int8'' ''int8_t'' (Some ''integer(c_int8_t)'') ''int8'' ''ptr_int8'' (Some c_int8) None,
      row_stored ''int8'' (- 8, 7) 2
        (registry_row ''int4'' ''int8_t'' (Some ''integer(c_int8_t)'') ''int8'' ''ptr_int8'' (Some c_int8) None),
      registry_row ''uint64'' ''uint64_t'' (Some ''integer(c_int64_t)'') ''uint64'' ''ptr_uint64'' (Some c_uint64) None,
      registry_row ''uint32'' ''uint32_t'' (Some ''integer(c_int32_t)'') ''uint32'' ''ptr_uint32'' (Some c_uint32) None,
      registry_row ''uint16'' ''uint16_t'' (Some ''integer(c_int16_t)'') ''uint16'' ''ptr_uint16'' (Some c_uint16) None,
      registry_row ''uint8'' ''uint8_t'' (Some ''integer(c_int8_t)'') ''uint8'' ''ptr_uint8'' (Some c_uint8) None]"

definition other_rows :: "DTypeInfo list" where
  "other_rows =
     [registry_row ''complex64'' ''float _Complex'' (Some ''complex(c_float_complex)'') ''complex64'' ''ptr_complex64'' None None,
      registry_row ''complex128'' ''double _Complex'' (Some ''complex(c_double_complex)'') ''complex128''
        ''ptr_complex128'' None None,
      registry_row ''complex256'' ''long double _Complex'' None ''complex256'' ''ptr_complex256'' None None,
      registry_row ''bool'' ''bool'' (Some ''logical(c_bool)'') ''int'' ''ptr_bool'' (Some c_bool) None]"

definition REGISTRY :: "(string, DTypeInfo) dict" where
  "REGISTRY = map (\<lambda>row. (numpy_name row, row)) (float_rows @ int_rows @ other_rows)"

definition ALIASES :: "(string, string) dict" where
  "ALIASES =
     [(''int'', ''int64''), (''bool_'', ''bool''), (''float'', ''float64''), (''double'', ''float64''),
      (''long'', ''int64''), (''fp8_e4m3'', ''float8_e4m3''), (''fp8_e5m2'', ''float8_e5m2''),
      (''float8_e4m3fn'', ''float8_e4m3''), (''bf16'', ''bfloat16'')]"

definition BITS_PER_BYTE :: nat where "BITS_PER_BYTE = 8"

definition MAX_SIGNED_BYTES :: nat where "MAX_SIGNED_BYTES = 8"

section \<open>Look-ups\<close>

definition info :: "string \<Rightarrow> DTypeInfo res" where
  "info dtype =
     (let key = (if dtype \<in> set (keys REGISTRY) then dtype
                 else (case map_of ALIASES dtype of Some c \<Rightarrow> c | None \<Rightarrow> dtype))
      in dict_item KeyError REGISTRY key)"

definition canonical :: "string \<Rightarrow> string res" where
  "canonical dtype = bindE (info dtype) (\<lambda>row. Inr (numpy_name row))"

text \<open>\<open>try: ... except KeyError: return fallback\<close>.\<close>

definition unless_key_error :: "'a res \<Rightarrow> 'a \<Rightarrow> 'a" where
  "unless_key_error r fallback = (case r of Inr x \<Rightarrow> x | Inl _ \<Rightarrow> fallback)"

definition compute_dtype :: "string \<Rightarrow> string" where
  "compute_dtype dtype =
     unless_key_error (bindE (info dtype) (\<lambda>row. Inr (case compute_as row of Some d \<Rightarrow> d | None \<Rightarrow> numpy_name row))) dtype"

definition accumulator_dtype :: "string \<Rightarrow> string" where
  "accumulator_dtype dtype = (let dt = compute_dtype dtype in if dt = ''float16'' then ''float32'' else dt)"

definition is_storage_only :: "string \<Rightarrow> bool" where
  "is_storage_only dtype = unless_key_error (bindE (info dtype) (\<lambda>row. Inr (compute_as row \<noteq> None))) False"

definition storage_dtype :: "string \<Rightarrow> string" where
  "storage_dtype dtype =
     unless_key_error (bindE (info dtype) (\<lambda>row. Inr (case stored_as row of Some d \<Rightarrow> d | None \<Rightarrow> numpy_name row))) dtype"

definition value_range :: "string \<Rightarrow> (int \<times> int) option" where
  "value_range dtype = unless_key_error (bindE (info dtype) (\<lambda>row. Inr (range_of_values row))) None"

definition size_multiple :: "string \<Rightarrow> int" where
  "size_multiple dtype = unless_key_error (bindE (info dtype) (\<lambda>row. Inr (multiple_of row))) 1"

definition names_integer :: "string \<Rightarrow> bool" where
  "names_integer s \<longleftrightarrow> starts_with_text s ''int'' \<or> starts_with_text s ''uint''"

definition is_integer :: "string \<Rightarrow> bool" where
  "is_integer dtype =
     unless_key_error (bindE (info dtype) (\<lambda>row. Inr (names_integer (numpy_name row)))) (names_integer dtype)"

text \<open>\<open>int("".join(c for c in name if c.isdigit()) or "0")\<close>.\<close>

definition digits_value :: "string \<Rightarrow> nat" where
  "digits_value s =
     foldl (\<lambda>n c. 10 * n + (of_char c - 48)) 0 (filter (\<lambda>c. (48::nat) \<le> of_char c \<and> of_char c \<le> (57::nat)) s)"

definition itemsize :: "string \<Rightarrow> nat res" where
  "itemsize dtype =
     (case unless_key_error (bindE (info dtype) (\<lambda>row. Inr (ctype_of row))) None of
        Some ct \<Rightarrow> Inr (sizeof ct)
      | None \<Rightarrow> bindE (canonical dtype) (\<lambda>name. Inr (digits_value name div BITS_PER_BYTE)))"

definition COMPLEX_REAL_COMPONENT :: "(string, string) dict" where
  "COMPLEX_REAL_COMPONENT =
     [(''complex64'', ''float32''), (''complex128'', ''float64''), (''complex256'', ''float128'')]"

definition REAL_COMPLEX_COMPONENT :: "(string, string) dict" where
  "REAL_COMPLEX_COMPONENT = map (\<lambda>(cplx, re). (re, cplx)) COMPLEX_REAL_COMPONENT"

definition real_component_dtype :: "string \<Rightarrow> string res" where
  "real_component_dtype dtype = bindE (canonical dtype) (dict_item KeyError COMPLEX_REAL_COMPONENT)"

definition complex_dtype_for :: "string \<Rightarrow> string res" where
  "complex_dtype_for re = bindE (canonical re) (dict_item KeyError REAL_COMPLEX_COMPONENT)"

definition promote_integers :: "string \<Rightarrow> string \<Rightarrow> string res" where
  "promote_integers a b =
     bindE (itemsize a) (\<lambda>wa. bindE (itemsize b) (\<lambda>wb.
       (let ua = starts_with_text a ''uint''; ub = starts_with_text b ''uint'' in
        if ua = ub then Inr ((if ua then ''uint'' else ''int'') @ decimal (max wa wb * BITS_PER_BYTE))
        else
          (let uw = (if ua then wa else wb); sw = (if ua then wb else wa) in
           if sw > uw then Inr (''int'' @ decimal (sw * BITS_PER_BYTE))
           else if uw * 2 > MAX_SIGNED_BYTES then Inr ''float64''
           else Inr (''int'' @ decimal (uw * 2 * BITS_PER_BYTE))))))"

section \<open>Binding kinds\<close>

definition c_type :: "string \<Rightarrow> string res" where
  "c_type dtype = bindE (info dtype) (\<lambda>row. Inr (c_name row))"

definition fortran_kind :: "string \<Rightarrow> string res" where
  "fortran_kind dtype =
     bindE (info dtype) (\<lambda>row. case fortran_name row of None \<Rightarrow> Inl (KeyError dtype) | Some k \<Rightarrow> Inr k)"

definition scalar_kind :: "string \<Rightarrow> string res" where
  "scalar_kind dtype = bindE (info dtype) (\<lambda>row. Inr (scalar_kind_name row))"

definition ptr_kind :: "string \<Rightarrow> string res" where
  "ptr_kind dtype = bindE (info dtype) (\<lambda>row. Inr (ptr_kind_name row))"

definition ctype_for :: "string \<Rightarrow> ctype res" where
  "ctype_for dtype =
     bindE (info dtype) (\<lambda>row. case ctype_of row of None \<Rightarrow> Inl (KeyError dtype) | Some ct \<Rightarrow> Inr ct)"

text \<open>A dict comprehension: of two rows with one kind the later one wins.\<close>

definition by_kind :: "(DTypeInfo \<Rightarrow> string) \<Rightarrow> (string, DTypeInfo) dict" where
  "by_kind kind =
     foldl (\<lambda>d row. dict_set (kind row) row d) [] (filter (\<lambda>row. stored_as row = None) (map snd REGISTRY))"

definition BY_SCALAR_KIND :: "(string, DTypeInfo) dict" where
  "BY_SCALAR_KIND = by_kind scalar_kind_name"

definition SCALAR_KINDS :: "string list" where
  "SCALAR_KINDS = keys BY_SCALAR_KIND"

definition BY_PTR_KIND :: "(string, DTypeInfo) dict" where
  "BY_PTR_KIND = by_kind ptr_kind_name"

definition ctype_for_scalar_kind :: "string \<Rightarrow> ctype res" where
  "ctype_for_scalar_kind kind =
     (case map_of BY_SCALAR_KIND kind of
        Some row \<Rightarrow> (case ctype_of row of Some ct \<Rightarrow> Inr ct | None \<Rightarrow> Inl (KeyError kind))
      | None \<Rightarrow> Inl (KeyError kind))"

definition info_for_kind :: "string \<Rightarrow> DTypeInfo res" where
  "info_for_kind kind =
     (case map_of BY_PTR_KIND kind of
        Some row \<Rightarrow> Inr row
      | None \<Rightarrow> dict_item KeyError BY_SCALAR_KIND kind)"

definition numpy_for_kind :: "string \<Rightarrow> string res" where
  "numpy_for_kind kind = bindE (info_for_kind kind) (\<lambda>row. Inr (numpy_name row))"

section \<open>Facts\<close>

lemmas registry_rows = float_rows_def int_rows_def other_rows_def registry_row_def row_stored_def

definition table :: "DTypeInfo list" where
  "table = float_rows @ int_rows @ other_rows"

lemma REGISTRY_table: "REGISTRY = map (\<lambda>row. (numpy_name row, row)) table"
  by (simp add: REGISTRY_def table_def)

lemma table_names: "map numpy_name table =
   [''float64'', ''float32'', ''float16'', ''float128'', ''float8_e4m3'', ''float8_e5m2'', ''bfloat16'',
    ''int64'', ''int32'', ''int16'', ''int8'', ''int4'', ''uint64'', ''uint32'', ''uint16'', ''uint8'',
    ''complex64'', ''complex128'', ''complex256'', ''bool'']"
  by (simp add: table_def registry_rows)

lemma distinct_table_names: "distinct (map numpy_name table)"
  unfolding table_names by simp

lemma keys_REGISTRY: "keys REGISTRY = map numpy_name table"
  by (simp add: REGISTRY_table keys_def comp_def)

lemma map_of_keyed:
  "distinct (map f rows) \<Longrightarrow> row \<in> set rows \<Longrightarrow> map_of (map (\<lambda>r. (f r, r)) rows) (f row) = Some row"
  by (simp add: map_of_eq_Some_iff comp_def)

lemma info_row:
  assumes "row \<in> set table"
  shows "info (numpy_name row) = Inr row"
proof -
  have "map_of REGISTRY (numpy_name row) = Some row"
    unfolding REGISTRY_table by (rule map_of_keyed [OF distinct_table_names assms])
  with assms show ?thesis
    by (simp add: info_def keys_REGISTRY dict_item_def)
qed

text \<open>Every alias names a row, and is not itself a row's name.\<close>

lemma aliases_named: "map_of ALIASES a = Some d \<Longrightarrow> d \<in> numpy_name ` set table"
proof -
  have "set (map snd ALIASES) \<subseteq> set (map numpy_name table)"
    unfolding table_names by (simp add: ALIASES_def)
  moreover assume "map_of ALIASES a = Some d"
  ultimately show ?thesis by (force dest: map_of_SomeD)
qed

lemma info_cases: "info d = Inl (KeyError d) \<or> (\<exists>row \<in> set table. info d = Inr row)"
proof (cases "d \<in> set (keys REGISTRY)")
  case True
  then obtain row where "row \<in> set table" "d = numpy_name row"
    by (auto simp: keys_REGISTRY)
  with info_row show ?thesis by blast
next
  case False
  then have none: "map_of REGISTRY d = None"
    by (simp add: keys_def map_of_eq_None_iff)
  show ?thesis
  proof (cases "map_of ALIASES d")
    case None
    with False none show ?thesis by (simp add: info_def dict_item_def)
  next
    case (Some c)
    then obtain row where row: "row \<in> set table" "c = numpy_name row"
      using aliases_named by blast
    have "map_of REGISTRY c = Some row"
      unfolding REGISTRY_table row(2) by (rule map_of_keyed [OF distinct_table_names row(1)])
    with False Some have "info d = Inr row"
      by (simp add: info_def dict_item_def)
    with row show ?thesis by blast
  qed
qed

lemma canonical_idem: "canonical d = Inr c \<Longrightarrow> canonical c = Inr c"
  using info_cases [of d] info_row by (auto simp: canonical_def)

lemma by_kind_distinct:
  assumes "distinct (map kind (filter (\<lambda>row. stored_as row = None) table))"
  shows "by_kind kind = map (\<lambda>row. (kind row, row)) (filter (\<lambda>row. stored_as row = None) table)"
proof -
  have step: "distinct (map kind (xs @ rows)) \<Longrightarrow>
      foldl (\<lambda>d row. dict_set (kind row) row d) (map (\<lambda>row. (kind row, row)) xs) rows =
      map (\<lambda>row. (kind row, row)) (xs @ rows)" for xs rows :: "DTypeInfo list"
  proof (induction rows arbitrary: xs)
    case (Cons r rows)
    have "dict_set (kind r) r (map (\<lambda>row. (kind row, row)) xs) = map (\<lambda>row. (kind row, row)) (xs @ [r])"
      using Cons.prems by (subst dict_set_new) force+
    with Cons.IH [of "xs @ [r]"] Cons.prems show ?case by simp
  qed simp
  from step [of "[]"] assms show ?thesis
    by (simp add: by_kind_def REGISTRY_table comp_def)
qed

lemma kinds_distinct:
  "distinct (map ptr_kind_name (filter (\<lambda>row. stored_as row = None) table))"
  "distinct (map scalar_kind_name (filter (\<lambda>row. stored_as row = None) table))"
  by (simp_all add: table_def registry_rows)

lemma no_scalar_kind_is_ptr_kind:
  "list_all (\<lambda>row. scalar_kind_name row \<notin> set (map ptr_kind_name (filter (\<lambda>row. stored_as row = None) table))) table"
  by (simp add: table_def registry_rows)

lemma info_for_ptr_kind:
  assumes "row \<in> set table" "stored_as row = None"
  shows "info_for_kind (ptr_kind_name row) = Inr row"
proof -
  have "map_of BY_PTR_KIND (ptr_kind_name row) = Some row"
    unfolding BY_PTR_KIND_def by_kind_distinct [OF kinds_distinct(1)]
    using assms by (intro map_of_keyed [OF kinds_distinct(1)]) simp
  then show ?thesis by (simp add: info_for_kind_def)
qed

lemma info_for_scalar_kind:
  assumes "row \<in> set table" "stored_as row = None"
  shows "info_for_kind (scalar_kind_name row) = Inr row"
proof -
  have "map_of BY_PTR_KIND (scalar_kind_name row) = None"
    unfolding BY_PTR_KIND_def by_kind_distinct [OF kinds_distinct(1)]
    using no_scalar_kind_is_ptr_kind assms(1)
    by (auto simp: map_of_eq_None_iff list_all_iff)
  moreover have "map_of BY_SCALAR_KIND (scalar_kind_name row) = Some row"
    unfolding BY_SCALAR_KIND_def by_kind_distinct [OF kinds_distinct(2)]
    using assms by (intro map_of_keyed [OF kinds_distinct(2)]) simp
  ultimately show ?thesis by (simp add: info_for_kind_def dict_item_def)
qed

text \<open>The one storage-backed row borrows the kinds of the dtype it is stored as.\<close>

lemma borrowed_kinds:
  assumes "row \<in> set table" "stored_as row = Some d"
  shows "\<exists>host \<in> set table. numpy_name host = d \<and> stored_as host = None \<and>
           ptr_kind_name host = ptr_kind_name row \<and> scalar_kind_name host = scalar_kind_name row"
proof -
  have "list_all (\<lambda>row. case stored_as row of None \<Rightarrow> True | Some d \<Rightarrow>
      list_ex (\<lambda>host. numpy_name host = d \<and> stored_as host = None \<and>
        ptr_kind_name host = ptr_kind_name row \<and> scalar_kind_name host = scalar_kind_name row) table) table"
    by (simp add: table_def registry_rows)
  with assms show ?thesis by (fastforce simp: list_all_iff list_ex_iff)
qed

theorem kind_roundtrip_lemma:
  assumes "info d = Inr row"
  shows "bindE (ptr_kind d) numpy_for_kind = Inr (storage_dtype d)"
    and "bindE (scalar_kind d) numpy_for_kind = Inr (storage_dtype d)"
proof -
  from assms info_cases [of d] have row: "row \<in> set table" by auto
  obtain host where host: "host \<in> set table" "stored_as host = None"
      "ptr_kind_name host = ptr_kind_name row" "scalar_kind_name host = scalar_kind_name row"
      "storage_dtype d = numpy_name host"
  proof (cases "stored_as row")
    case None
    with row assms show ?thesis by (intro that [of row]) (simp_all add: storage_dtype_def unless_key_error_def)
  next
    case (Some e)
    with borrowed_kinds [OF row Some] assms show ?thesis
      by (auto simp: storage_dtype_def unless_key_error_def intro: that)
  qed
  have "info_for_kind (ptr_kind_name row) = Inr host" "info_for_kind (scalar_kind_name row) = Inr host"
    using info_for_ptr_kind [OF host(1,2)] info_for_scalar_kind [OF host(1,2)] host(3,4) by simp_all
  with assms host(5) show "bindE (ptr_kind d) numpy_for_kind = Inr (storage_dtype d)"
    and "bindE (scalar_kind d) numpy_for_kind = Inr (storage_dtype d)"
    by (simp_all add: ptr_kind_def scalar_kind_def numpy_for_kind_def)
qed

section \<open>Integer promotion\<close>

text \<open>The integer dtypes numpy computes in (\<open>int4\<close> is stored and computed as \<open>int8\<close>), and their values.\<close>

definition int_dtypes :: "string list" where
  "int_dtypes = [''uint8'', ''int8'', ''uint16'', ''int16'', ''uint32'', ''int32'', ''uint64'', ''int64'']"

definition is_unsigned :: "string \<Rightarrow> bool" where
  "is_unsigned d = starts_with_text d ''uint''"

definition bits_of :: "string \<Rightarrow> nat" where
  "bits_of d = unless_key_error (itemsize d) 0 * BITS_PER_BYTE"

definition least_value :: "string \<Rightarrow> int" where
  "least_value d = (if is_unsigned d then 0 else - (2 ^ (bits_of d - 1)))"

definition greatest_value :: "string \<Rightarrow> int" where
  "greatest_value d = (if is_unsigned d then 2 ^ bits_of d - 1 else 2 ^ (bits_of d - 1) - 1)"

definition holds :: "string \<Rightarrow> int \<Rightarrow> bool" where
  "holds d v \<longleftrightarrow> least_value d \<le> v \<and> v \<le> greatest_value d"

definition subsumes :: "string \<Rightarrow> string \<Rightarrow> bool" where
  "subsumes d e \<longleftrightarrow> least_value d \<le> least_value e \<and> greatest_value e \<le> greatest_value d"

lemma info_all: "list_all (\<lambda>row. info (numpy_name row) = Inr row) table"
  using info_row by (simp add: list_all_iff)

lemmas info_names = info_all [unfolded table_def registry_rows, simplified]

lemma itemsize_ints:
  "itemsize ''uint8'' = Inr 1" "itemsize ''int8'' = Inr 1" "itemsize ''uint16'' = Inr 2" "itemsize ''int16'' = Inr 2"
  "itemsize ''uint32'' = Inr 4" "itemsize ''int32'' = Inr 4" "itemsize ''uint64'' = Inr 8" "itemsize ''int64'' = Inr 8"
  "itemsize ''int4'' = Inr 1" "itemsize ''float64'' = Inr 8"
  by (simp_all add: itemsize_def unless_key_error_def info_names)

lemma unsigned_ints:
  "is_unsigned ''uint8''" "is_unsigned ''uint16''" "is_unsigned ''uint32''" "is_unsigned ''uint64''"
  "\<not> is_unsigned ''int8''" "\<not> is_unsigned ''int16''" "\<not> is_unsigned ''int32''" "\<not> is_unsigned ''int64''"
  "\<not> is_unsigned ''int4''" "\<not> is_unsigned ''float64''"
  by (simp_all add: is_unsigned_def starts_with_text_def)

lemma bits_of_ints:
  "bits_of ''uint8'' = 8" "bits_of ''int8'' = 8" "bits_of ''uint16'' = 16" "bits_of ''int16'' = 16"
  "bits_of ''uint32'' = 32" "bits_of ''int32'' = 32" "bits_of ''uint64'' = 64" "bits_of ''int64'' = 64"
  "bits_of ''int4'' = 8"
  by (simp_all add: bits_of_def itemsize_ints unless_key_error_def BITS_PER_BYTE_def)

lemma decimal_bits:
  "decimal 8 = ''8''" "decimal 16 = ''16''" "decimal 32 = ''32''" "decimal 64 = ''64''"
  by (simp_all add: decimal.simps char_of_def bit_0)

text \<open>Which dtype's values include which: row by row in the order of \<open>int_dtypes\<close>.\<close>

lemma subsumes_rows:
  "map (\<lambda>d. map (subsumes d) int_dtypes) int_dtypes =
     [[True, False, False, False, False, False, False, False],
      [False, True, False, False, False, False, False, False],
      [True, False, True, False, False, False, False, False],
      [True, True, False, True, False, False, False, False],
      [True, False, True, False, True, False, False, False],
      [True, True, True, True, False, True, False, False],
      [True, False, True, False, True, False, True, False],
      [True, True, True, True, True, True, False, True]]"
  unfolding int_dtypes_def
  by (simp add: subsumes_def least_value_def greatest_value_def bits_of_ints unsigned_ints)

lemmas subsumes_table = subsumes_rows [unfolded int_dtypes_def, simplified]

text \<open>What the promotion answers, on every pair.\<close>

lemmas promote_simps = promote_integers_def itemsize_ints unsigned_ints [unfolded is_unsigned_def] Let_def
  BITS_PER_BYTE_def MAX_SIGNED_BYTES_def decimal_bits

lemma promote_same: "d \<in> set int_dtypes \<Longrightarrow> promote_integers d d = Inr d"
  unfolding int_dtypes_def by (auto simp: promote_simps)

definition promotion :: "string \<Rightarrow> string \<Rightarrow> string option" where
  "promotion a b = find (\<lambda>d. subsumes d a \<and> subsumes d b) int_dtypes"

lemma promote_is_promotion:
  "list_all (\<lambda>a. list_all (\<lambda>b.
     promote_integers a b = Inr (case promotion a b of Some d \<Rightarrow> d | None \<Rightarrow> ''float64'')) int_dtypes) int_dtypes"
  unfolding int_dtypes_def
  by (simp add: promote_simps promotion_def int_dtypes_def subsumes_table)

lemma promotion_least_all:
  "list_all (\<lambda>a. list_all (\<lambda>b. list_all (\<lambda>e.
     subsumes e a \<and> subsumes e b \<longrightarrow> (case promotion a b of Some d \<Rightarrow> subsumes e d | None \<Rightarrow> False))
     int_dtypes) int_dtypes) int_dtypes"
  unfolding int_dtypes_def
  by (simp add: promotion_def int_dtypes_def subsumes_table)

lemma subsumes_antisym_all:
  "list_all (\<lambda>a. list_all (\<lambda>b. subsumes a b \<and> subsumes b a \<longrightarrow> a = b) int_dtypes) int_dtypes"
  unfolding int_dtypes_def
  by (simp add: subsumes_table)

lemma promotion_SomeD:
  "promotion a b = Some d \<Longrightarrow> d \<in> set int_dtypes \<and> subsumes d a \<and> subsumes d b"
  by (auto simp: promotion_def dest: find_SomeD)

lemma promote_integers_lub_lemma:
  assumes "a \<in> set int_dtypes" "b \<in> set int_dtypes"
  shows "promote_integers a b = Inr d \<longleftrightarrow>
     (if \<exists>e \<in> set int_dtypes. subsumes e a \<and> subsumes e b
      then d \<in> set int_dtypes \<and> subsumes d a \<and> subsumes d b \<and>
           (\<forall>e \<in> set int_dtypes. subsumes e a \<and> subsumes e b \<longrightarrow> subsumes e d)
      else d = ''float64'')"
proof -
  have eq: "promote_integers a b = Inr (case promotion a b of Some d \<Rightarrow> d | None \<Rightarrow> ''float64'')"
    using promote_is_promotion assms by (auto simp: list_all_iff)
  have least: "\<exists>d. promotion a b = Some d \<and> subsumes e d"
    if "e \<in> set int_dtypes" "subsumes e a" "subsumes e b" for e
  proof -
    have "subsumes e a \<and> subsumes e b \<longrightarrow> (case promotion a b of Some d \<Rightarrow> subsumes e d | None \<Rightarrow> False)"
      using promotion_least_all assms that(1) unfolding list_all_iff by blast
    with that show ?thesis by (simp split: option.splits)
  qed
  have antisym: "x \<in> set int_dtypes \<Longrightarrow> y \<in> set int_dtypes \<Longrightarrow> subsumes x y \<Longrightarrow> subsumes y x \<Longrightarrow> x = y" for x y
    using subsumes_antisym_all by (auto simp: list_all_iff)
  show ?thesis
  proof (cases "promotion a b")
    case None
    then have "\<not> (\<exists>e \<in> set int_dtypes. subsumes e a \<and> subsumes e b)" using least by force
    with eq None show ?thesis by auto
  next
    case (Some p)
    from promotion_SomeD [OF this] have p: "p \<in> set int_dtypes" "subsumes p a" "subsumes p b" by auto
    have below: "\<forall>e \<in> set int_dtypes. subsumes e a \<and> subsumes e b \<longrightarrow> subsumes e p"
      using least Some by force
    have "promote_integers a b = Inr d \<longleftrightarrow> d = p" using eq Some by auto
    moreover have "d = p \<longleftrightarrow> d \<in> set int_dtypes \<and> subsumes d a \<and> subsumes d b \<and>
        (\<forall>e \<in> set int_dtypes. subsumes e a \<and> subsumes e b \<longrightarrow> subsumes e d)"
      using p below antisym by blast
    moreover have "\<exists>e \<in> set int_dtypes. subsumes e a \<and> subsumes e b" using p by blast
    ultimately show ?thesis by simp
  qed
qed

text \<open>\<open>promote_integers\<close> is numpy's integer promotion: of two of the eight integer dtypes it
  answers the least one whose values include both, and \<open>float64\<close> exactly when none does.\<close>

theorem promote_integers_least:
  assumes "a \<in> set int_dtypes" "b \<in> set int_dtypes"
  shows "promote_integers a b = Inr d \<longleftrightarrow>
     (if \<exists>e \<in> set int_dtypes. subsumes e a \<and> subsumes e b
      then d \<in> set int_dtypes \<and> subsumes d a \<and> subsumes d b \<and>
           (\<forall>e \<in> set int_dtypes. subsumes e a \<and> subsumes e b \<longrightarrow> subsumes e d)
      else d = ''float64'')"
  using assms by (rule promote_integers_lub_lemma)

lemma promote_integers_least_witness:
  "promote_integers ''uint8'' ''int8'' = Inr ''int16'' \<and> promote_integers ''uint64'' ''int8'' = Inr ''float64''"
proof -
  have mem: "''uint8'' \<in> set int_dtypes" "''int8'' \<in> set int_dtypes" "''uint64'' \<in> set int_dtypes"
    by (simp_all add: int_dtypes_def)
  show ?thesis
    unfolding promote_integers_least [OF mem(1,2)] promote_integers_least [OF mem(3,2)]
    by (simp add: int_dtypes_def subsumes_table)
qed

text \<open>A binding kind of a dtype, as a pointer or as a by-value scalar, names back the dtype its
  elements are stored as: itself, except \<open>int4\<close>, whose kinds are \<open>int8\<close>'s.\<close>

theorem kind_roundtrip:
  assumes "info d = Inr row"
  shows "bindE (ptr_kind d) numpy_for_kind = Inr (storage_dtype d) \<and>
    bindE (scalar_kind d) numpy_for_kind = Inr (storage_dtype d)"
  using kind_roundtrip_lemma [OF assms] by simp

lemma kind_roundtrip_witness:
  "bindE (ptr_kind ''int4'') numpy_for_kind = Inr ''int8'' \<and> bindE (scalar_kind ''double'') numpy_for_kind = Inr ''float64''"
proof -
  have via: "info ''double'' = info ''float64''"
    unfolding info_def keys_REGISTRY table_names by (simp add: ALIASES_def)
  show ?thesis
    using kind_roundtrip [of "''int4''"] kind_roundtrip [of "''double''"]
    by (simp add: via info_names storage_dtype_def unless_key_error_def)
qed

end
