(* ===== verification/Narrow_Int.thy ===== *)
theory Narrow_Int
  imports Dtypes "HOL-Library.Word"
begin

text \<open>
  The narrow-integer wrap oracle of the imperative backends
  (\<open>numpyto_common/narrow_int.py\<close>, called by \<open>Emitter.emit_expr\<close>): the dtype category of an expression,
  the nodes whose wide 64-bit result is narrowed again, and the two readings of an expression it
  reconciles, numpy's evaluation at the operand dtype and the emitted evaluation in 64-bit words.
\<close>

unbundle bit_operations_syntax

section \<open>Expressions\<close>

datatype np_operator =
    op_Add | op_Sub | op_Mult | op_Div | op_FloorDiv | op_Mod | op_Pow | op_BitAnd | op_BitOr | op_BitXor
  | op_LShift | op_RShift | op_MatMult

datatype np_unary = op_USub | op_UAdd | op_Not | op_Invert

datatype np_literal = L_int int | L_bool bool | L_float string | L_other string

text \<open>\<open>N_other\<close> is a call, comparison, boolean operation, conditional or any other expression node.\<close>

datatype np_expr =
    N_const np_literal
  | N_name string
  | N_subscript np_expr np_expr
  | N_unary np_unary np_expr
  | N_bin np_expr np_operator np_expr
  | N_other string "np_expr list"

section \<open>The oracle\<close>

text \<open>\<open>Category\<close>: a canonical dtype name, one of the two sentinels, or \<open>None\<close>.\<close>

type_synonym category = "string option"

definition UNKNOWN :: category where "UNKNOWN = None"

definition FLOAT :: string where "FLOAT = CHR 0x00 # ''float''"

definition WEAK_INT :: string where "WEAK_INT = CHR 0x00 # ''weakint''"

fun INT_PRESERVING :: "np_operator \<Rightarrow> bool" where
  "INT_PRESERVING op_Div = False"
| "INT_PRESERVING op_MatMult = False"
| "INT_PRESERVING _ = True"

fun WRAP_BINOPS :: "np_operator \<Rightarrow> bool" where
  "WRAP_BINOPS op_Add = True"
| "WRAP_BINOPS op_Sub = True"
| "WRAP_BINOPS op_Mult = True"
| "WRAP_BINOPS op_Pow = True"
| "WRAP_BINOPS op_LShift = True"
| "WRAP_BINOPS _ = False"

definition is_float_or_complex :: "string \<Rightarrow> bool" where
  "is_float_or_complex dtype =
     (case canonical dtype of
        Inl _ \<Rightarrow> False
      | Inr c \<Rightarrow> starts_with_text c ''float'' \<or> starts_with_text c ''complex'')"

definition ABI_INT_BYTES :: nat where "ABI_INT_BYTES = 8"

definition narrow_width :: "string \<Rightarrow> nat option res" where
  "narrow_width dtype =
     (if \<not> is_integer dtype then Inr None
      else bindE (itemsize dtype) (\<lambda>w. Inr (if w < ABI_INT_BYTES then Some w else None)))"

definition leaf_dtype :: "string option \<Rightarrow> category res" where
  "leaf_dtype dtype =
     (case dtype of
        None \<Rightarrow> Inr UNKNOWN
      | Some d \<Rightarrow>
          if is_integer d then bindE (canonical d) (\<lambda>c. Inr (Some c))
          else if is_float_or_complex d then Inr (Some FLOAT)
          else Inr UNKNOWN)"

definition combine :: "category \<Rightarrow> category \<Rightarrow> category res" where
  "combine a b =
     (case (a, b) of
        (Some x, Some y) \<Rightarrow>
          if x = FLOAT \<or> y = FLOAT then Inr (Some FLOAT)
          else if x = WEAK_INT \<and> y = WEAK_INT then Inr (Some WEAK_INT)
          else if x = WEAK_INT then Inr b
          else if y = WEAK_INT then Inr a
          else bindE (promote_integers x y) (\<lambda>d. Inr (Some d))
      | _ \<Rightarrow> Inr UNKNOWN)"

text \<open>The name under a chain of subscripts.\<close>

fun subscript_base :: "np_expr \<Rightarrow> np_expr" where
  "subscript_base (N_subscript e i) = subscript_base e"
| "subscript_base e = e"

fun infer :: "(string \<Rightarrow> string option) \<Rightarrow> np_expr \<Rightarrow> category res" where
  "infer name_dtype (N_const l) =
     (case l of
        L_int _ \<Rightarrow> Inr (Some WEAK_INT)
      | L_float _ \<Rightarrow> Inr (Some FLOAT)
      | _ \<Rightarrow> Inr UNKNOWN)"
| "infer name_dtype (N_name x) = leaf_dtype (name_dtype x)"
| "infer name_dtype (N_subscript e i) =
     (case subscript_base e of N_name x \<Rightarrow> leaf_dtype (name_dtype x) | _ \<Rightarrow> Inr UNKNOWN)"
| "infer name_dtype (N_unary op e) =
     (if op = op_USub \<or> op = op_UAdd then infer name_dtype e else Inr UNKNOWN)"
| "infer name_dtype (N_bin l op r) =
     (if op = op_Div then Inr (Some FLOAT)
      else if INT_PRESERVING op
        then bindE (infer name_dtype l) (\<lambda>a. bindE (infer name_dtype r) (\<lambda>b. combine a b))
      else Inr UNKNOWN)"
| "infer name_dtype (N_other _ _) = Inr UNKNOWN"

fun wrap_site :: "np_expr \<Rightarrow> bool" where
  "wrap_site (N_unary op e) = (op = op_USub)"
| "wrap_site (N_bin l op r) = WRAP_BINOPS op"
| "wrap_site _ = False"

definition wrap_dtype :: "(string \<Rightarrow> string option) \<Rightarrow> np_expr \<Rightarrow> string option res" where
  "wrap_dtype name_dtype node =
     (if \<not> wrap_site node then Inr None
      else bindE (infer name_dtype node) (\<lambda>cat.
        case cat of
          None \<Rightarrow> Inr None
        | Some c \<Rightarrow>
            if c = FLOAT \<or> c = WEAK_INT then Inr None
            else bindE (narrow_width c) (\<lambda>w. Inr (if w \<noteq> None then Some c else None))))"

text \<open>\<open>Emitter.wrap_name_dtype\<close>: a shape symbol is the wide \<open>int64\<close>.\<close>

definition wrap_name_dtype :: "string list \<Rightarrow> (string \<Rightarrow> string option) \<Rightarrow> string \<Rightarrow> string option" where
  "wrap_name_dtype symbols name_dtype name =
     (if name \<in> set symbols then Some ''int64'' else name_dtype name)"

section \<open>The emitted evaluation\<close>

text \<open>
  What the emitted expression computes. Every narrow element is promoted to the 64-bit ABI integer on
  read, operators run on 64-bit words, and \<open>wrap_narrow\<close> (here the Fortran emitter's, \<open>IAND\<close> with a
  mask or \<open>INT\<close> to the narrow kind and back; the C emitter's cast has the same value) narrows the node
  the oracle names. \<open>read\<close> gives the integer a name or an array element holds; division by zero, a
  negative exponent and a shift count outside the word have no value.
\<close>

definition wrap_narrow :: "string \<Rightarrow> 64 word \<Rightarrow> 64 word" where
  "wrap_narrow wrap v =
     (if is_unsigned wrap then v AND of_int (2 ^ bits_of wrap - 1)
      else signed_take_bit (bits_of wrap - 1) v)"

fun wide_binop :: "np_operator \<Rightarrow> 64 word \<Rightarrow> 64 word \<Rightarrow> 64 word option" where
  "wide_binop op_Add a b = Some (a + b)"
| "wide_binop op_Sub a b = Some (a - b)"
| "wide_binop op_Mult a b = Some (a * b)"
| "wide_binop op_FloorDiv a b = (if b = 0 then None else Some (word_of_int (sint a div sint b)))"
| "wide_binop op_Mod a b = (if b = 0 then None else Some (word_of_int (sint a mod sint b)))"
| "wide_binop op_Pow a b = (if sint b < 0 then None else Some (a ^ nat (sint b)))"
| "wide_binop op_BitAnd a b = Some (a AND b)"
| "wide_binop op_BitOr a b = Some (a OR b)"
| "wide_binop op_BitXor a b = Some (a XOR b)"
| "wide_binop op_LShift a b =
     (if 0 \<le> sint b \<and> sint b < 64 then Some (push_bit (nat (sint b)) a) else None)"
| "wide_binop op_RShift a b =
     (if 0 \<le> sint b \<and> sint b < 64 then Some (signed_drop_bit (nat (sint b)) a) else None)"
| "wide_binop op_Div a b = None"
| "wide_binop op_MatMult a b = None"

definition emit_expr :: "(string \<Rightarrow> string option) \<Rightarrow> np_expr \<Rightarrow> 64 word \<Rightarrow> 64 word option" where
  "emit_expr name_dtype node v =
     (case wrap_dtype name_dtype node of
        Inl _ \<Rightarrow> None
      | Inr None \<Rightarrow> Some v
      | Inr (Some d) \<Rightarrow> Some (wrap_narrow d v))"

fun wide :: "(string \<Rightarrow> string option) \<Rightarrow> (np_expr \<Rightarrow> int) \<Rightarrow> np_expr \<Rightarrow> 64 word option" where
  "wide nd read (N_const (L_int n)) = Some (word_of_int n)"
| "wide nd read (N_const _) = None"
| "wide nd read (N_name x) = Some (word_of_int (read (N_name x)))"
| "wide nd read (N_subscript e i) = Some (word_of_int (read (N_subscript e i)))"
| "wide nd read (N_unary op e) =
     (if op = op_USub then Option.bind (wide nd read e) (\<lambda>v. emit_expr nd (N_unary op e) (- v))
      else if op = op_UAdd then wide nd read e
      else None)"
| "wide nd read (N_bin l op r) =
     Option.bind (wide nd read l) (\<lambda>a. Option.bind (wide nd read r) (\<lambda>b.
       Option.bind (wide_binop op a b) (emit_expr nd (N_bin l op r))))"
| "wide nd read (N_other _ _) = None"

section \<open>numpy's evaluation\<close>

text \<open>
  numpy under NEP 50: a Python integer takes the dtype of the array operand and has to fit it, two
  dtypes promote to the least one holding both, and the result wraps at the result dtype. A value
  outside what the backends carry (a literal computation beyond 64 bits, \<open>uint64\<close>, floats) has no
  meaning here, and an element always holds a value of its array's dtype.
\<close>

datatype np_val = PyLit int | NpElem string int

definition wrap_int :: "string \<Rightarrow> int \<Rightarrow> int" where
  "wrap_int d v =
     (if is_unsigned d then v mod 2 ^ bits_of d
      else (v + 2 ^ (bits_of d - 1)) mod 2 ^ bits_of d - 2 ^ (bits_of d - 1))"

fun exact_op :: "np_operator \<Rightarrow> int \<Rightarrow> int \<Rightarrow> int option" where
  "exact_op op_Add a b = Some (a + b)"
| "exact_op op_Sub a b = Some (a - b)"
| "exact_op op_Mult a b = Some (a * b)"
| "exact_op op_FloorDiv a b = (if b = 0 then None else Some (a div b))"
| "exact_op op_Mod a b = (if b = 0 then None else Some (a mod b))"
| "exact_op op_Pow a b = (if b < 0 then None else Some (a ^ nat b))"
| "exact_op op_BitAnd a b = Some (a AND b)"
| "exact_op op_BitOr a b = Some (a OR b)"
| "exact_op op_BitXor a b = Some (a XOR b)"
| "exact_op op_LShift a b = (if 0 \<le> b \<and> b < 64 then Some (a * 2 ^ nat b) else None)"
| "exact_op op_RShift a b = (if 0 \<le> b \<and> b < 64 then Some (a div 2 ^ nat b) else None)"
| "exact_op op_Div a b = None"
| "exact_op op_MatMult a b = None"

fun np_operands :: "np_val \<Rightarrow> np_val \<Rightarrow> (string \<times> int \<times> int) option" where
  "np_operands (NpElem d a) (NpElem e b) = map_option (\<lambda>p. (p, a, b)) (promotion d e)"
| "np_operands (NpElem d a) (PyLit b) = (if holds d b then Some (d, a, b) else None)"
| "np_operands (PyLit a) (NpElem d b) = (if holds d a then Some (d, a, b) else None)"
| "np_operands (PyLit a) (PyLit b) = None"

definition abi_int :: "int \<Rightarrow> np_val option" where
  "abi_int v = (if holds ''int64'' v then Some (PyLit v) else None)"

fun np_binop :: "np_operator \<Rightarrow> np_val \<Rightarrow> np_val \<Rightarrow> np_val option" where
  "np_binop op (PyLit a) (PyLit b) = Option.bind (exact_op op a b) abi_int"
| "np_binop op x y =
     Option.bind (np_operands x y) (\<lambda>(d, a, b). map_option (\<lambda>v. NpElem d (wrap_int d v)) (exact_op op a b))"

definition abi_dtypes :: "string list" where
  "abi_dtypes = filter (\<lambda>d. d \<noteq> ''uint64'') int_dtypes"

definition np_read :: "string option \<Rightarrow> int \<Rightarrow> np_val option" where
  "np_read dtype v =
     (case dtype of
        None \<Rightarrow> None
      | Some d \<Rightarrow>
          (case canonical d of
             Inl _ \<Rightarrow> None
           | Inr c \<Rightarrow> if storage_dtype c \<in> set abi_dtypes \<and> holds (storage_dtype c) v
                       then Some (NpElem (storage_dtype c) v) else None))"

fun np_eval :: "(string \<Rightarrow> string option) \<Rightarrow> (np_expr \<Rightarrow> int) \<Rightarrow> np_expr \<Rightarrow> np_val option" where
  "np_eval nd read (N_const (L_int n)) = abi_int n"
| "np_eval nd read (N_const _) = None"
| "np_eval nd read (N_name x) = np_read (nd x) (read (N_name x))"
| "np_eval nd read (N_subscript e i) =
     (case subscript_base e of N_name x \<Rightarrow> np_read (nd x) (read (N_subscript e i)) | _ \<Rightarrow> None)"
| "np_eval nd read (N_unary op e) =
     (if op = op_USub then
        (case np_eval nd read e of
           None \<Rightarrow> None
         | Some (PyLit v) \<Rightarrow> abi_int (- v)
         | Some (NpElem d v) \<Rightarrow> Some (NpElem d (wrap_int d (- v))))
      else if op = op_UAdd then np_eval nd read e
      else None)"
| "np_eval nd read (N_bin l op r) =
     Option.bind (np_eval nd read l) (\<lambda>x. Option.bind (np_eval nd read r) (np_binop op x))"
| "np_eval nd read (N_other _ _) = None"

text \<open>The one overflow the oracle does not wrap: the least value of a signed dtype floor-divided by \<open>-1\<close>.\<close>

fun div_overflows :: "np_val \<Rightarrow> np_val \<Rightarrow> bool" where
  "div_overflows x y =
     (case np_operands x y of
        None \<Rightarrow> False
      | Some (d, a, b) \<Rightarrow> \<not> is_unsigned d \<and> a = least_value d \<and> b = - 1)"

fun div_safe :: "(string \<Rightarrow> string option) \<Rightarrow> (np_expr \<Rightarrow> int) \<Rightarrow> np_expr \<Rightarrow> bool" where
  "div_safe nd read (N_unary op e) = div_safe nd read e"
| "div_safe nd read (N_bin l op r) =
     (div_safe nd read l \<and> div_safe nd read r \<and>
      (op = op_FloorDiv \<longrightarrow>
        (case (np_eval nd read l, np_eval nd read r) of
           (Some x, Some y) \<Rightarrow> \<not> div_overflows x y
         | _ \<Rightarrow> True)))"
| "div_safe nd read _ = True"
section \<open>Words and wrapping\<close>

lemma abi_cases:
  "d \<in> set abi_dtypes \<longleftrightarrow>
     d = ''uint8'' \<or> d = ''int8'' \<or> d = ''uint16'' \<or> d = ''int16'' \<or> d = ''uint32'' \<or> d = ''int32'' \<or> d = ''int64''"
  by (simp add: abi_dtypes_def int_dtypes_def)

lemmas range_defs = holds_def least_value_def greatest_value_def bits_of_ints unsigned_ints

lemma holds_iff_wrap: "d \<in> set abi_dtypes \<Longrightarrow> holds d v \<longleftrightarrow> wrap_int d v = v"
proof -
  assume "d \<in> set abi_dtypes"
  then have "0 < bits_of d" by (auto simp: abi_cases bits_of_ints)
  then have two: "(2::int) ^ bits_of d = 2 * 2 ^ (bits_of d - 1)"
    by (cases "bits_of d") simp_all
  have mod_id: "x mod 2 ^ bits_of d = x \<longleftrightarrow> 0 \<le> x \<and> x < 2 ^ bits_of d" for x :: int
    by (metis mod_pos_pos_trivial pos_mod_bound pos_mod_sign zero_less_numeral zero_less_power)
  show ?thesis
    using mod_id [of v] mod_id [of "v + 2 ^ (bits_of d - 1)"] two
    by (auto simp: holds_def least_value_def greatest_value_def wrap_int_def algebra_simps)
qed

lemma wrap_int_idem: "wrap_int d (wrap_int d v) = wrap_int d v"
  by (simp add: wrap_int_def)

lemma wrap_int_holds: "d \<in> set abi_dtypes \<Longrightarrow> holds d (wrap_int d v)"
  by (simp add: holds_iff_wrap wrap_int_idem)

lemma holds_int64: "d \<in> set abi_dtypes \<Longrightarrow> holds d v \<Longrightarrow> holds ''int64'' v"
  by (auto simp: abi_cases range_defs)

lemma sint_of_int64: "holds ''int64'' v \<Longrightarrow> sint (word_of_int v :: 64 word) = v"
  by (simp add: sint_sbintrunc' range_defs signed_take_bit_int_eq_self)

lemma signed_take_bit_word:
  "n < 64 \<Longrightarrow> signed_take_bit n (word_of_int k :: 64 word) = word_of_int (signed_take_bit n k)"
  by (rule bit_word_eqI) (auto simp: bit_signed_take_bit_iff min_def bit_word_of_int_iff)

lemma wrap_narrow_word:
  assumes "d \<in> set abi_dtypes"
  shows "wrap_narrow d (word_of_int v) = word_of_int (wrap_int d v)"
proof -
  have bits: "0 < bits_of d" "bits_of d \<le> 64"
    using assms by (auto simp: abi_cases bits_of_ints)
  show ?thesis
  proof (cases "is_unsigned d")
    case True
    have "word_of_int v AND of_int (2 ^ bits_of d - 1) = (word_of_int (take_bit (bits_of d) v) :: 64 word)"
      by (simp only: of_int_and_eq take_bit_eq_mask mask_eq_exp_minus_1)
    with True show ?thesis
      by (simp add: wrap_narrow_def wrap_int_def take_bit_eq_mod)
  next
    case False
    have "signed_take_bit (bits_of d - 1) v = wrap_int d v"
      using False bits by (simp add: wrap_int_def signed_take_bit_eq_take_bit_shift take_bit_eq_mod)
    with False bits show ?thesis
      by (simp add: wrap_narrow_def signed_take_bit_word)
  qed
qed

lemma wrap_int64_word: "word_of_int (wrap_int ''int64'' v) = (word_of_int v :: 64 word)"
proof -
  have last: "n < 64 \<Longrightarrow> 63 \<le> n \<Longrightarrow> n = 63" for n :: nat by simp
  have "wrap_narrow ''int64'' (word_of_int v) = word_of_int v"
    by (rule bit_word_eqI)
      (auto simp: wrap_narrow_def unsigned_ints bits_of_ints bit_signed_take_bit_iff min_def dest: last)
  with wrap_narrow_word [of "''int64''" v] show ?thesis by (simp add: abi_cases)
qed

lemma signed_drop_bit_word:
  "holds ''int64'' a \<Longrightarrow> signed_drop_bit n (word_of_int a :: 64 word) = word_of_int (a div 2 ^ n)"
proof -
  assume "holds ''int64'' a"
  then have "sint (signed_drop_bit n (word_of_int a :: 64 word)) = a div 2 ^ n"
    by (simp add: sint_signed_drop_bit_eq sint_of_int64 drop_bit_eq_div)
  then have "word_of_int (sint (signed_drop_bit n (word_of_int a :: 64 word))) = (word_of_int (a div 2 ^ n) :: 64 word)"
    by (rule arg_cong)
  then show ?thesis by simp
qed

lemma wide_binop_exact:
  assumes "holds ''int64'' a" "holds ''int64'' b"
  shows "wide_binop op (word_of_int a) (word_of_int b) = map_option word_of_int (exact_op op a b)"
proof -
  have zero: "(word_of_int b :: 64 word) = 0 \<longleftrightarrow> b = 0"
    using sint_of_int64 [OF assms(2)] by auto
  show ?thesis
    by (cases op)
      (simp_all add: sint_of_int64 assms zero of_int_and_eq of_int_or_eq of_int_xor_eq
        push_bit_eq_mult signed_drop_bit_word)
qed
section \<open>The oracle names numpy's result dtype\<close>

text \<open>
  Every category \<open>infer\<close> answers: unknown, a sentinel, or a row of the dtype table (\<open>float64\<close> is what
  \<open>promote_integers\<close> answers for \<open>uint64\<close> with a signed operand).
\<close>

definition int_names :: "string list" where
  "int_names = ''int4'' # ''float64'' # int_dtypes"

definition category_ok :: "category \<Rightarrow> bool" where
  "category_ok c \<longleftrightarrow> c = None \<or> c = Some FLOAT \<or> c = Some WEAK_INT \<or> (\<exists>d \<in> set int_names. c = Some d)"

lemma sentinels: "FLOAT \<noteq> WEAK_INT" "d \<in> set int_names \<Longrightarrow> d \<noteq> FLOAT \<and> d \<noteq> WEAK_INT"
  by (auto simp: FLOAT_def WEAK_INT_def int_names_def int_dtypes_def)

lemma promote_closed_all:
  "list_all (\<lambda>a. list_all (\<lambda>b. case promote_integers a b of Inr d \<Rightarrow> d \<in> set int_names | Inl _ \<Rightarrow> False) int_names) int_names"
  unfolding int_names_def int_dtypes_def
  by (simp add: promote_simps)

lemma promote_closed:
  assumes "a \<in> set int_names" "b \<in> set int_names"
  obtains d where "d \<in> set int_names" "promote_integers a b = Inr d"
proof -
  have "case promote_integers a b of Inr d \<Rightarrow> d \<in> set int_names | Inl _ \<Rightarrow> False"
    using promote_closed_all assms unfolding list_all_iff by blast
  then show thesis by (auto intro: that split: sum.splits)
qed

lemma combine_names:
  assumes "x \<in> set int_names" "y \<in> set int_names"
  shows "combine (Some x) (Some y) = bindE (promote_integers x y) (\<lambda>d. Inr (Some d))"
    and "combine (Some WEAK_INT) (Some y) = Inr (Some y)"
    and "combine (Some x) (Some WEAK_INT) = Inr (Some x)"
  using sentinels(1) sentinels(2) [OF assms(1)] sentinels(2) [OF assms(2)] by (auto simp: combine_def)

lemma combine_sentinels:
  "combine None b = Inr None" "combine a None = Inr None"
  "combine (Some FLOAT) (Some y) = Inr (Some FLOAT)" "combine (Some x) (Some FLOAT) = Inr (Some FLOAT)"
  "combine (Some WEAK_INT) (Some WEAK_INT) = Inr (Some WEAK_INT)"
  using sentinels(1) by (auto simp: combine_def UNKNOWN_def split: option.splits)

lemma category_cases [consumes 1, case_names unknown float weak int]:
  assumes "category_ok c"
  obtains "c = None" | "c = Some FLOAT" | "c = Some WEAK_INT" | d where "c = Some d" "d \<in> set int_names"
  using assms by (auto simp: category_ok_def)

lemma category_okI [intro, simp]:
  "category_ok None" "category_ok (Some FLOAT)" "category_ok (Some WEAK_INT)"
  "d \<in> set int_names \<Longrightarrow> category_ok (Some d)"
  by (auto simp: category_ok_def)

lemma combine_ok:
  assumes "category_ok a" "category_ok b"
  obtains c where "combine a b = Inr c" "category_ok c"
  using assms(1)
proof (cases rule: category_cases)
  case (int x)
  note x = this
  from assms(2) show thesis
  proof (cases rule: category_cases)
    case (int y)
    obtain d where "d \<in> set int_names" "promote_integers x y = Inr d"
      using promote_closed [OF x(2) int(2)] by blast
    with x int show thesis by (intro that [of "Some d"]) (simp_all add: combine_names)
  qed (use x that in \<open>auto simp: combine_sentinels combine_names\<close>)
next
  case weak
  from assms(2) show thesis
    by (cases rule: category_cases) (use weak that in \<open>auto simp: combine_sentinels combine_names\<close>)
next
  case float
  then show thesis using that by (cases b) (auto simp: combine_sentinels)
qed (use that in \<open>auto simp: combine_sentinels\<close>)

lemma canonical_row: "row \<in> set table \<Longrightarrow> canonical (numpy_name row) = Inr (numpy_name row)"
  by (simp add: canonical_def info_row)

text \<open>An integer row is one of the integer names.\<close>

lemma integer_rows: "list_all (\<lambda>row. names_integer (numpy_name row) \<longrightarrow> numpy_name row \<in> set int_names) table"
  by (simp add: table_def registry_rows names_integer_def starts_with_text_def int_names_def int_dtypes_def)
definition registered :: "(string \<Rightarrow> string option) \<Rightarrow> bool" where
  "registered name_dtype \<longleftrightarrow> (\<forall>x d. name_dtype x = Some d \<longrightarrow> is_ok (info d))"

lemma leaf_dtype_ok:
  assumes "\<And>e. d = Some e \<Longrightarrow> is_ok (info e)"
  obtains c where "leaf_dtype d = Inr c" "category_ok c"
proof (cases d)
  case None
  then show thesis by (intro that [of None]) (simp_all add: leaf_dtype_def UNKNOWN_def)
next
  case (Some e)
  obtain row where row: "row \<in> set table" "info e = Inr row"
    using info_cases [of e] assms [OF Some] by auto
  then have can: "canonical e = Inr (numpy_name row)" by (simp add: canonical_def)
  show thesis
  proof (cases "is_integer e")
    case True
    with row integer_rows have "numpy_name row \<in> set int_names"
      by (auto simp: is_integer_def unless_key_error_def list_all_iff)
    with Some True can show thesis by (intro that [of "Some (numpy_name row)"]) (simp_all add: leaf_dtype_def)
  next
    case False
    with Some show thesis
      by (intro that [of "if is_float_or_complex e then Some FLOAT else None"]) (simp_all add: leaf_dtype_def UNKNOWN_def)
  qed
qed

lemma infer_ok:
  assumes "registered nd"
  shows "\<exists>c. infer nd e = Inr c \<and> category_ok c"
proof (induction e)
  case (N_const l)
  then show ?case by (cases l) (simp_all add: UNKNOWN_def)
next
  case (N_name x)
  have "nd x = Some e \<Longrightarrow> is_ok (info e)" for e using assms by (simp add: registered_def)
  from leaf_dtype_ok [OF this] show ?case by auto
next
  case (N_subscript e i)
  have "nd x = Some d \<Longrightarrow> is_ok (info d)" for x d using assms by (simp add: registered_def)
  note leaf = leaf_dtype_ok [OF this]
  show ?case
    by (cases "subscript_base e") (auto simp: UNKNOWN_def intro: leaf)
next
  case (N_unary op e)
  then show ?case by (simp add: UNKNOWN_def)
next
  case (N_bin l op r)
  then obtain a b where "infer nd l = Inr a" "category_ok a" "infer nd r = Inr b" "category_ok b" by blast
  moreover from combine_ok [OF this(2,4)] obtain c where "combine a b = Inr c" "category_ok c" .
  ultimately show ?case by (simp add: UNKNOWN_def)
qed (simp add: UNKNOWN_def)

section \<open>Wide equals narrow\<close>

lemma storage_names:
  "storage_dtype ''int4'' = ''int8''" "storage_dtype ''float64'' = ''float64''"
  "storage_dtype ''uint8'' = ''uint8''" "storage_dtype ''int8'' = ''int8''"
  "storage_dtype ''uint16'' = ''uint16''" "storage_dtype ''int16'' = ''int16''"
  "storage_dtype ''uint32'' = ''uint32''" "storage_dtype ''int32'' = ''int32''"
  "storage_dtype ''uint64'' = ''uint64''" "storage_dtype ''int64'' = ''int64''"
  by (simp_all add: storage_dtype_def info_names unless_key_error_def)

definition abi_names :: "string list" where
  "abi_names = ''int4'' # abi_dtypes"

lemma abi_names_cases:
  "c \<in> set abi_names \<longleftrightarrow> c = ''int4'' \<or> c = ''uint8'' \<or> c = ''int8'' \<or> c = ''uint16'' \<or> c = ''int16'' \<or>
     c = ''uint32'' \<or> c = ''int32'' \<or> c = ''int64''"
  by (simp add: abi_names_def abi_cases)

lemma storage_abi: "c \<in> set abi_names \<Longrightarrow> storage_dtype c \<in> set abi_dtypes"
  unfolding abi_names_cases by (elim disjE) (simp_all add: abi_cases storage_names)

lemma storage_abi_iff:
  assumes "c \<in> set int_names" "storage_dtype c \<in> set abi_dtypes"
  shows "c \<in> set abi_names"
proof -
  have "list_all (\<lambda>c. storage_dtype c \<in> set abi_dtypes \<longrightarrow> c \<in> set abi_names) int_names"
    by (simp add: int_names_def int_dtypes_def storage_names abi_names_def abi_dtypes_def)
  with assms show ?thesis by (simp add: list_all_iff)
qed

lemma storage_same: "c \<in> set abi_dtypes \<Longrightarrow> storage_dtype c = c"
  by (auto simp: abi_cases storage_names)

lemma abi_promote_all:
  "list_all (\<lambda>a. list_all (\<lambda>b. list_ex (\<lambda>p.
     promote_integers a b = Inr p \<and> promotion (storage_dtype a) (storage_dtype b) = Some p) abi_dtypes)
     abi_names) abi_names"
  by (simp add: abi_names_def abi_dtypes_def int_dtypes_def promote_simps storage_names promotion_def
        subsumes_table)

lemma abi_promote:
  assumes "a \<in> set abi_names" "b \<in> set abi_names"
  obtains p where "p \<in> set abi_dtypes" "promote_integers a b = Inr p"
    "promotion (storage_dtype a) (storage_dtype b) = Some p"
  using abi_promote_all assms unfolding list_all_iff list_ex_iff by blast

lemma abi_int_names: "c \<in> set abi_names \<Longrightarrow> c \<in> set int_names"
  by (auto simp: abi_names_cases int_names_def int_dtypes_def)

lemma storage_bits:
  "c \<in> set abi_names \<Longrightarrow> bits_of (storage_dtype c) = bits_of c \<and> is_unsigned (storage_dtype c) = is_unsigned c"
  unfolding abi_names_cases by (elim disjE) (simp_all add: storage_names bits_of_ints unsigned_ints)

lemma narrow_width_abi:
  "c \<in> set abi_names \<Longrightarrow> narrow_width c = Inr (if c = ''int64'' then None else Some (bits_of c div 8))"
  unfolding abi_names_cases
  by (elim disjE) (simp_all add: narrow_width_def is_integer_def info_names unless_key_error_def names_integer_def
        starts_with_text_def itemsize_ints ABI_INT_BYTES_def bits_of_ints)

lemma wrap_narrow_storage:
  "c \<in> set abi_names \<Longrightarrow> wrap_narrow c (word_of_int v) = word_of_int (wrap_int (storage_dtype c) v)"
  unfolding wrap_narrow_word [OF storage_abi, symmetric] by (simp only: wrap_narrow_def storage_bits)

text \<open>A node with an integer category: narrowed exactly when its operator can leave the width.\<close>

lemma emit_int:
  assumes "infer nd node = Inr (Some c)" "c \<in> set abi_names"
  shows "emit_expr nd node (word_of_int v) =
    Some (word_of_int (if wrap_site node then wrap_int (storage_dtype c) v else v))"
proof -
  have "c \<noteq> FLOAT" "c \<noteq> WEAK_INT" using sentinels(2) abi_int_names assms(2) by auto
  then show ?thesis
    using assms narrow_width_abi [OF assms(2)] wrap_narrow_storage [OF assms(2)]
    by (auto simp: emit_expr_def wrap_dtype_def storage_names wrap_int64_word)
qed

lemma emit_weak: "infer nd node = Inr (Some WEAK_INT) \<Longrightarrow> emit_expr nd node v = Some v"
  by (simp add: emit_expr_def wrap_dtype_def)
text \<open>An operator outside \<open>WRAP_BINOPS\<close> stays within the width of its operands, the one quotient apart.\<close>

lemma wrap_int_bits:
  assumes "d \<in> set abi_dtypes"
  shows "wrap_int d v = (if is_unsigned d then take_bit (bits_of d) v else signed_take_bit (bits_of d - 1) v)"
proof -
  have "0 < bits_of d" using assms by (auto simp: abi_cases bits_of_ints)
  then show ?thesis
    by (simp add: wrap_int_def take_bit_eq_mod signed_take_bit_eq_take_bit_shift)
qed

lemma signed_take_bit_bitwise:
  "signed_take_bit n ((a::int) AND b) = signed_take_bit n a AND signed_take_bit n b"
  "signed_take_bit n (a OR b) = signed_take_bit n a OR signed_take_bit n b"
  "signed_take_bit n (a XOR b) = signed_take_bit n a XOR signed_take_bit n b"
  by (rule bit_eqI, simp add: bit_simps)+

lemma holds_bitwise:
  assumes "d \<in> set abi_dtypes" "holds d a" "holds d b"
  shows "holds d (a AND b)" "holds d (a OR b)" "holds d (a XOR b)"
  using assms
  by (simp_all add: holds_iff_wrap wrap_int_bits signed_take_bit_bitwise
        split: if_splits)

lemma holds_div_pos: "holds d a \<Longrightarrow> 0 < b \<Longrightarrow> holds d (a div b)"
proof -
  assume "holds d a" "0 < b"
  have "a div b \<le> max a 0" "min a 0 \<le> a div b"
  proof -
    show "a div b \<le> max a 0"
      using zdiv_mono2 [of a 1 b] \<open>0 < b\<close> div_neg_pos_less0 [of a b] by (cases "0 \<le> a") auto
    show "min a 0 \<le> a div b"
      using zdiv_mono2_neg [of a 1 b] \<open>0 < b\<close> pos_imp_zdiv_nonneg_iff [of b a] by (cases "0 \<le> a") auto
  qed
  moreover have "least_value d \<le> 0" "0 \<le> greatest_value d"
    by (simp_all add: least_value_def greatest_value_def)
  ultimately show ?thesis using \<open>holds d a\<close> by (auto simp: holds_def)
qed

lemma holds_div:
  assumes "holds d a" "holds d b" "b \<noteq> 0" "\<not> (\<not> is_unsigned d \<and> a = least_value d \<and> b = - 1)"
  shows "holds d (a div b)"
proof (cases "0 < b")
  case True
  with assms(1) show ?thesis by (rule holds_div_pos)
next
  case False
  with assms(2,3) have sd: "\<not> is_unsigned d" "b < 0" by (auto simp: holds_def least_value_def split: if_splits)
  then have bounds: "least_value d = - greatest_value d - 1"
    by (simp add: least_value_def greatest_value_def)
  show ?thesis
  proof (cases "b = - 1")
    case True
    with assms sd bounds have "holds d (- a)" by (auto simp: holds_def)
    with True show ?thesis by simp
  next
    case False
    have quot: "a div b = (- a) div (- b)" by simp
    have "- a \<le> greatest_value d + 1" "- greatest_value d \<le> - a"
      using assms(1) bounds by (auto simp: holds_def)
    show ?thesis
    proof (cases "holds d (- a)")
      case True
      then have "holds d ((- a) div (- b))" by (rule holds_div_pos) (use sd in simp)
      then show ?thesis by (simp only: quot)
    next
      case False
      with \<open>- a \<le> _\<close> \<open>- greatest_value d \<le> - a\<close> bounds have a: "- a = greatest_value d + 1"
        by (auto simp: holds_def)
      have g: "0 \<le> greatest_value d" by (simp add: greatest_value_def)
      have "(- a) div (- b) \<le> (- a) div 2"
        using a g sd \<open>b \<noteq> - 1\<close> by (intro zdiv_mono2) auto
      also have "\<dots> \<le> greatest_value d" using a g by linarith
      finally have "(- a) div (- b) \<le> greatest_value d" .
      moreover have "0 \<le> (- a) div (- b)" using a g sd pos_imp_zdiv_nonneg_iff [of "- b" "- a"] by linarith
      ultimately show ?thesis using bounds g by (simp add: holds_def)
    qed
  qed
qed

lemma holds_mod: "holds d b \<Longrightarrow> b \<noteq> 0 \<Longrightarrow> holds d (a mod b)"
proof -
  assume b: "holds d b" "b \<noteq> 0"
  have "least_value d \<le> 0" "0 \<le> greatest_value d"
    by (simp_all add: least_value_def greatest_value_def)
  with b show ?thesis
    using pos_mod_bound [of b a] pos_mod_sign [of b a] neg_mod_bound [of b a] neg_mod_sign [of b a]
    by (cases "0 < b") (auto simp: holds_def simp del: pos_mod_bound pos_mod_sign neg_mod_bound neg_mod_sign)
qed

lemma holds_other_op:
  assumes "d \<in> set abi_dtypes" "holds d a" "holds d b" "exact_op op a b = Some v" "\<not> WRAP_BINOPS op"
    and "op = op_FloorDiv \<Longrightarrow> \<not> (\<not> is_unsigned d \<and> a = least_value d \<and> b = - 1)"
  shows "holds d v"
  using assms holds_bitwise [OF assms(1-3)] holds_div [of d a b] holds_mod [of d b a]
    holds_div_pos [of d a "2 ^ nat b"]
  by (cases op) (auto split: if_splits)

text \<open>The two readings of an expression agree.\<close>

definition agrees :: "(string \<Rightarrow> string option) \<Rightarrow> (np_expr \<Rightarrow> int) \<Rightarrow> np_expr \<Rightarrow> np_val \<Rightarrow> bool" where
  "agrees nd read e x =
     (case x of
        PyLit v \<Rightarrow> infer nd e = Inr (Some WEAK_INT) \<and> wide nd read e = Some (word_of_int v) \<and> holds ''int64'' v
      | NpElem d v \<Rightarrow>
          wide nd read e = Some (word_of_int v) \<and> holds d v \<and>
          (\<exists>c \<in> set abi_names. infer nd e = Inr (Some c) \<and> storage_dtype c = d))"

lemma agrees_PyLit:
  "agrees nd read e (PyLit v) \<longleftrightarrow>
     infer nd e = Inr (Some WEAK_INT) \<and> wide nd read e = Some (word_of_int v) \<and> holds ''int64'' v"
  by (simp add: agrees_def)

lemma agrees_NpElem:
  "agrees nd read e (NpElem d v) \<longleftrightarrow>
     wide nd read e = Some (word_of_int v) \<and> holds d v \<and>
     (\<exists>c \<in> set abi_names. infer nd e = Inr (Some c) \<and> storage_dtype c = d)"
  by (simp add: agrees_def)

lemma abi_int_Some: "abi_int v = Some x \<longleftrightarrow> x = PyLit v \<and> holds ''int64'' v"
  by (auto simp: abi_int_def)

lemma agrees_holds64: "agrees nd read e (NpElem d v) \<Longrightarrow> holds ''int64'' v"
  using holds_int64 storage_abi by (auto simp: agrees_NpElem)

lemma leaf_agrees:
  assumes "np_read dtype v = Some x"
  shows "\<exists>c \<in> set abi_names. leaf_dtype dtype = Inr (Some c) \<and> x = NpElem (storage_dtype c) v \<and> holds (storage_dtype c) v"
proof -
  from assms obtain d c where d: "dtype = Some d" "canonical d = Inr c" "storage_dtype c \<in> set abi_dtypes"
      "holds (storage_dtype c) v" "x = NpElem (storage_dtype c) v"
    by (auto simp: np_read_def split: option.splits sum.splits if_splits)
  then obtain row where row: "row \<in> set table" "info d = Inr row" "c = numpy_name row"
    using info_cases [of d] by (auto simp: canonical_def)
  have "names_integer c"
  proof -
    have "list_all (\<lambda>row. storage_dtype (numpy_name row) \<in> set abi_dtypes \<longrightarrow> names_integer (numpy_name row)) table"
      unfolding list_all_iff storage_dtype_def
      by (auto simp: info_row unless_key_error_def table_def registry_rows names_integer_def starts_with_text_def
            abi_dtypes_def int_dtypes_def)
    with d(3) row show ?thesis by (simp add: list_all_iff)
  qed
  with row have int: "is_integer d" by (simp add: is_integer_def unless_key_error_def)
  have "c \<in> set int_names" using row integer_rows \<open>names_integer c\<close> by (auto simp: list_all_iff)
  with d(3) have "c \<in> set abi_names" by (intro storage_abi_iff)
  with d int show ?thesis by (simp add: leaf_dtype_def)
qed
lemma exact_op_integer: "exact_op op a b = Some v \<Longrightarrow> INT_PRESERVING op \<and> op \<noteq> op_Div"
  by (cases op) auto

lemma subsumes_holds: "subsumes d e \<Longrightarrow> holds e v \<Longrightarrow> holds d v"
  by (auto simp: subsumes_def holds_def)

text \<open>The operands of a numpy operation and the category the oracle combines for them.\<close>

lemma operands_agree:
  assumes "agrees nd read l x" "agrees nd read r y" "np_operands x y = Some (d, a, b)"
    and "INT_PRESERVING op" "op \<noteq> op_Div"
  shows "wide nd read l = Some (word_of_int a) \<and> wide nd read r = Some (word_of_int b) \<and>
    holds d a \<and> holds d b \<and>
    (\<exists>c \<in> set abi_names. infer nd (N_bin l op r) = Inr (Some c) \<and> storage_dtype c = d)"
proof (cases x)
  case (PyLit u)
  with assms(3) obtain v where y: "y = NpElem d v" and ab: "a = u" "b = v" "holds d u"
    by (cases y) (auto split: if_splits)
  with assms(1,2) PyLit obtain c where "c \<in> set abi_names" "infer nd r = Inr (Some c)" "storage_dtype c = d"
      "infer nd l = Inr (Some WEAK_INT)"
    by (auto simp: agrees_PyLit agrees_NpElem)
  moreover from this have "infer nd (N_bin l op r) = Inr (Some c)"
    using assms(4,5) combine_names(2) [of c c] abi_int_names [of c] by simp
  ultimately show ?thesis
    using assms(1,2) PyLit y ab by (auto simp: agrees_PyLit agrees_NpElem)
next
  case (NpElem e u)
  then obtain c where c: "c \<in> set abi_names" "infer nd l = Inr (Some c)" "storage_dtype c = e" "holds e u"
      "wide nd read l = Some (word_of_int u)"
    using assms(1) by (auto simp: agrees_NpElem)
  show ?thesis
  proof (cases y)
    case (PyLit v)
    with assms(3) NpElem have ab: "d = e" "a = u" "b = v" "holds d v" by (auto split: if_splits)
    have "infer nd (N_bin l op r) = Inr (Some c)"
      using assms(2,4,5) c PyLit combine_names(3) [of c c] abi_int_names [of c] by (simp add: agrees_PyLit)
    with c ab assms(2) PyLit show ?thesis by (auto simp: agrees_PyLit)
  next
    case y: (NpElem f v)
    then obtain c' where c': "c' \<in> set abi_names" "infer nd r = Inr (Some c')" "storage_dtype c' = f" "holds f v"
        "wide nd read r = Some (word_of_int v)"
      using assms(2) by (auto simp: agrees_NpElem)
    obtain p where p: "p \<in> set abi_dtypes" "promote_integers c c' = Inr p" "promotion e f = Some p"
      using abi_promote [OF c(1) c'(1)] c(3) c'(3) by auto
    with assms(3) NpElem y have ab: "d = p" "a = u" "b = v" by auto
    have "infer nd (N_bin l op r) = Inr (Some p)"
      using assms(4,5) c c' p combine_names(1) abi_int_names by simp
    moreover have "holds d u" "holds d v"
      using promotion_SomeD [OF p(3)] subsumes_holds c(4) c'(4) ab by auto
    moreover have "p \<in> set abi_names" "storage_dtype p = d"
      using p(1) ab storage_same by (auto simp: abi_names_def)
    ultimately show ?thesis using ab c c' by auto
  qed
qed

lemma np_binop_cases:
  assumes "np_binop op x y = Some z"
  obtains (python) a b v where "x = PyLit a" "y = PyLit b" "exact_op op a b = Some v" "z = PyLit v" "holds ''int64'' v"
  | (numpy) d a b v where "np_operands x y = Some (d, a, b)" "exact_op op a b = Some v" "z = NpElem d (wrap_int d v)"
  using assms
  by (cases x; cases y) (auto simp: abi_int_Some split: if_splits Option.bind_splits)

lemma wide_np_eval:
  "np_eval nd read e = Some x \<Longrightarrow> div_safe nd read e \<Longrightarrow> agrees nd read e x"
proof (induction e arbitrary: x)
  case (N_const l)
  then show ?case by (cases l) (auto simp: abi_int_Some agrees_PyLit)
next
  case (N_name s)
  then show ?case using leaf_agrees [of "nd s" "read (N_name s)" x] by (auto simp: agrees_NpElem)
next
  case (N_subscript e i)
  then obtain s where s: "subscript_base e = N_name s" "np_read (nd s) (read (N_subscript e i)) = Some x"
    by (auto split: np_expr.splits)
  from leaf_agrees [OF s(2)] s(1) show ?case by (auto simp: agrees_NpElem)
next
  case (N_unary op e)
  show ?case
  proof (cases "op = op_USub")
    case True
    with N_unary.prems obtain y where y: "np_eval nd read e = Some y"
        "(case y of PyLit v \<Rightarrow> abi_int (- v) | NpElem d v \<Rightarrow> Some (NpElem d (wrap_int d (- v)))) = Some x"
      by (auto split: option.splits)
    with N_unary have IH: "agrees nd read e y" by simp
    show ?thesis
    proof (cases y)
      case (PyLit v)
      with y IH True have x: "x = PyLit (- v)" "holds ''int64'' (- v)"
        and sub: "infer nd e = Inr (Some WEAK_INT)" "wide nd read e = Some (word_of_int v)"
        by (auto simp: abi_int_Some agrees_PyLit)
      then have "emit_expr nd (N_unary op_USub e) w = Some w" for w
        by (intro emit_weak) simp
      with x sub True show ?thesis by (simp add: agrees_PyLit)
    next
      case (NpElem d v)
      with y IH obtain c where c: "c \<in> set abi_names" "infer nd e = Inr (Some c)" "storage_dtype c = d"
          "wide nd read e = Some (word_of_int v)" and x: "x = NpElem d (wrap_int d (- v))"
        by (auto simp: agrees_NpElem)
      from c have "infer nd (N_unary op_USub e) = Inr (Some c)" by simp
      from emit_int [OF this c(1), of "- v"] c(1,3) x wrap_int_holds storage_abi \<open>infer nd (N_unary op_USub e) = _\<close> c(4) True
      show ?thesis by (auto simp: agrees_NpElem)
    qed
  next
    case False
    with N_unary.prems have up: "op = op_UAdd" "np_eval nd read e = Some x" by (auto split: if_splits)
    with N_unary have "agrees nd read e x" by simp
    with up show ?thesis by (cases x) (simp_all add: agrees_PyLit agrees_NpElem)
  qed
next
  case (N_bin l op r)
  then obtain y z where yz: "np_eval nd read l = Some y" "np_eval nd read r = Some z" "np_binop op y z = Some x"
    by (auto split: Option.bind_splits)
  with N_bin have IH: "agrees nd read l y" "agrees nd read r z" by auto
  from yz(3) show ?case
  proof (cases rule: np_binop_cases)
    case (python a b v)
    with IH have sub: "infer nd l = Inr (Some WEAK_INT)" "infer nd r = Inr (Some WEAK_INT)"
        "wide nd read l = Some (word_of_int a)" "wide nd read r = Some (word_of_int b)"
        "holds ''int64'' a" "holds ''int64'' b"
      by (auto simp: agrees_PyLit)
    then have inf: "infer nd (N_bin l op r) = Inr (Some WEAK_INT)"
      using exact_op_integer [OF python(3)] by (simp add: combine_sentinels)
    from sub python show ?thesis
      by (simp add: agrees_PyLit inf emit_weak [OF inf] wide_binop_exact del: infer.simps)
  next
    case (numpy d a b v)
    from operands_agree [OF IH numpy(1)] exact_op_integer [OF numpy(2)]
    obtain c where sub: "wide nd read l = Some (word_of_int a)" "wide nd read r = Some (word_of_int b)"
        "holds d a" "holds d b" and c: "c \<in> set abi_names" "infer nd (N_bin l op r) = Inr (Some c)" "storage_dtype c = d"
      by blast
    have d: "d \<in> set abi_dtypes" using storage_abi c by auto
    have "wide nd read (N_bin l op r) = emit_expr nd (N_bin l op r) (word_of_int v)"
      using sub numpy(2) holds_int64 [OF d] by (simp add: wide_binop_exact)
    also have "\<dots> = Some (word_of_int (if WRAP_BINOPS op then wrap_int d v else v))"
      using emit_int [OF c(2,1)] c(3) by simp
    also have "(if WRAP_BINOPS op then wrap_int d v else v) = wrap_int d v"
    proof (cases "WRAP_BINOPS op")
      case False
      have "op = op_FloorDiv \<Longrightarrow> \<not> (\<not> is_unsigned d \<and> a = least_value d \<and> b = - 1)"
        using N_bin.prems(2) yz numpy(1) by auto
      with holds_other_op [OF d sub(3,4) numpy(2) False] have "holds d v" by blast
      with d have "wrap_int d v = v" by (simp add: holds_iff_wrap)
      then show ?thesis by simp
    qed simp
    finally show ?thesis
      using c numpy(3) wrap_int_holds [OF d] by (auto simp: agrees_NpElem simp del: wide.simps infer.simps)
  qed
qed simp
section \<open>Properties\<close>

text \<open>C14. The wrap oracle makes the wide evaluation exact. When numpy evaluates an expression over
  elements of the narrow and 64-bit integer dtypes and Python integer literals to a value of dtype
  \<open>d\<close>, the emitted 64-bit evaluation, narrowed at exactly the nodes \<open>wrap_dtype\<close> names, has the same
  value, whatever overflows on the way, unless the least value of a signed dtype is floor-divided by
  \<open>-1\<close> somewhere.\<close>

theorem narrow_wrap_exact:
  assumes "np_eval nd read e = Some (NpElem d v)" "div_safe nd read e"
  shows "map_option sint (wide nd read e) = Some v"
  using wide_np_eval [OF assms] agrees_holds64 [OF wide_np_eval [OF assms]] sint_of_int64
  by (auto simp: agrees_NpElem)

text \<open>The \<open>int8\<close> average of the tests: \<open>(a + b) // 2\<close> with \<open>a = b = 100\<close> is \<open>-28\<close>.\<close>

abbreviation int8_names :: "string \<Rightarrow> string option" where
  "int8_names x \<equiv> Some ''int8''"

definition average :: np_expr where
  "average = N_bin (N_bin (N_name ''a'') op_Add (N_name ''b'')) op_FloorDiv (N_const (L_int 2))"

lemma np_read_int8: "np_read (Some ''int8'') v = (if holds ''int8'' v then Some (NpElem ''int8'' v) else None)"
  by (simp add: np_read_def canonical_def info_names storage_names abi_cases)

lemma average_numpy: "np_eval int8_names (\<lambda>_. 100) average = Some (NpElem ''int8'' (- 28))"
  by (simp add: average_def np_read_int8 abi_int_def promotion_def int_dtypes_def subsumes_table
        range_defs wrap_int_def)

lemma narrow_wrap_exact_witness:
  "map_option sint (wide int8_names (\<lambda>_. 100) average) = Some (- 28)"
  by (rule narrow_wrap_exact [OF average_numpy])
    (simp add: average_def np_read_int8 abi_int_def promotion_def int_dtypes_def subsumes_table
        range_defs wrap_int_def)



text \<open>The quotient the oracle leaves out diverges: with \<open>int8\<close> elements \<open>a = -128\<close> and
  \<open>b = -1\<close> numpy evaluates \<open>(a // b) // 2\<close> to \<open>-64\<close>, the emitted evaluation to \<open>64\<close>.\<close>

theorem floor_division_escapes:
  "\<exists>read e. np_eval int8_names read e = Some (NpElem ''int8'' (- 64)) \<and>
     map_option sint (wide int8_names read e) = Some 64"
proof -
  define read where "read e = (if e = N_name ''a'' then - 128 else - 1 :: int)" for e
  define e where "e = N_bin (N_bin (N_name ''a'') op_FloorDiv (N_name ''b'')) op_FloorDiv (N_const (L_int 2))"
  have "np_eval int8_names read e = Some (NpElem ''int8'' (- 64))"
    by (simp add: e_def read_def np_read_int8 abi_int_def promotion_def int_dtypes_def subsumes_table
        range_defs wrap_int_def)
  moreover have "wide int8_names read e = Some 64"
    by (simp add: e_def read_def emit_expr_def wrap_dtype_def)
  ultimately show ?thesis by (intro exI [of _ read] exI [of _ e]) simp
qed

end
