(* ===== verification/Exact_Reduce.thy ===== *)
theory Exact_Reduce
  imports Prelude
begin

text \<open>
  The order-fixed reductions of the kernel initializers (\<open>support/exact_math.py\<close>): the halving tree of
  \<open>sum\<close> as whole-array additions and as the in-place loop the host takes, the Hillis-Steele scan of
  \<open>cumsum\<close>, the products summed by \<open>matvec\<close> and \<open>matmul\<close>, \<open>norm\<close>, \<open>mean\<close> and \<open>ipow\<close>. The element
  arithmetic is a parameter, so that the facts hold for floating-point numbers: nothing is assumed of
  it, associativity least of all, except where a fact says so.
\<close>

section \<open>Arrays\<close>

text \<open>An array: its dtype, shape and elements in row-major order.\<close>

datatype kind = K_bool | K_int | K_uint | K_float32 | K_float64 | K_complex

record 'a tensor =
  t_kind :: kind
  t_shape :: "nat list"
  t_elems :: "'a list"

definition well_shaped :: "'a tensor \<Rightarrow> bool" where
  "well_shaped t \<longleftrightarrow> length (t_elems t) = prod_list (t_shape t)"

text \<open>The element arithmetic, and the array library's own reductions of integers and booleans.\<close>

record 'a arithmetic =
  plus_of :: "'a \<Rightarrow> 'a \<Rightarrow> 'a"
  times_of :: "'a \<Rightarrow> 'a \<Rightarrow> 'a"
  zero_of :: 'a
  one_of :: 'a
  library_sum :: "'a tensor \<Rightarrow> int option \<Rightarrow> bool \<Rightarrow> 'a tensor"
  library_cumsum :: "'a tensor \<Rightarrow> int option \<Rightarrow> 'a tensor"

text \<open>\<open>moveaxis(values, axis, 0)\<close>, with the remaining axes flattened: one row per index of \<open>axis\<close>.\<close>

definition axis_rows :: "'a tensor \<Rightarrow> nat \<Rightarrow> 'a list list" where
  "axis_rows t ax =
     (let n = t_shape t ! ax; outer = prod_list (take ax (t_shape t)); inner = prod_list (drop (Suc ax) (t_shape t))
      in map (\<lambda>k. concat (map (\<lambda>p. map (\<lambda>q. t_elems t ! ((p * n + k) * inner + q)) [0..<inner]) [0..<outer])) [0..<n])"

text \<open>The inverse: \<open>moveaxis(rows, 0, axis)\<close> back into the shape.\<close>

definition from_axis_rows :: "kind \<Rightarrow> nat list \<Rightarrow> nat \<Rightarrow> 'a list list \<Rightarrow> 'a tensor" where
  "from_axis_rows kind shape ax rows =
     (let n = shape ! ax; outer = prod_list (take ax shape); inner = prod_list (drop (Suc ax) shape)
      in \<lparr>t_kind = kind, t_shape = shape,
          t_elems = concat (map (\<lambda>p. concat (map (\<lambda>k. map (\<lambda>q. rows ! k ! (p * inner + q)) [0..<inner]) [0..<n])) [0..<outer])\<rparr>)"

section \<open>The halving tree\<close>

text \<open>One round: the first half plus the second, elementwise; an odd last row is kept.\<close>

definition halve :: "('a \<Rightarrow> 'a \<Rightarrow> 'a) \<Rightarrow> 'a list \<Rightarrow> 'a list" where
  "halve add rows =
     (let half = length rows div 2;
          paired = map2 add (take half rows) (take half (drop half rows))
      in if length rows mod 2 = 1 then paired @ drop (2 * half) rows else paired)"

lemma length_halve [simp]: "length (halve add rows) = length rows div 2 + length rows mod 2"
  by (simp add: halve_def Let_def) presburger

function tree :: "('a \<Rightarrow> 'a \<Rightarrow> 'a) \<Rightarrow> 'a list \<Rightarrow> 'a list" where
  "tree add rows = (if length rows > 1 then tree add (halve add rows) else rows)"
  by auto
termination by (relation "measure (\<lambda>(add, rows). length rows)") (auto, presburger)

declare tree.simps [simp del]

text \<open>The host loop: the same rounds in one buffer, in place.\<close>

definition halve_in_place :: "('a \<Rightarrow> 'a \<Rightarrow> 'a) \<Rightarrow> nat \<Rightarrow> 'a list \<Rightarrow> 'a list" where
  "halve_in_place add n buf =
     (let half = n div 2;
          buf = foldl (\<lambda>b k. b[k := add (b ! k) (b ! (half + k))]) buf [0..<half]
      in if n mod 2 = 1 then buf[half := buf ! (2 * half)] else buf)"

function tree_while :: "('a \<Rightarrow> 'a \<Rightarrow> 'a) \<Rightarrow> nat \<Rightarrow> 'a list \<Rightarrow> 'a list" where
  "tree_while add n buf =
     (if n > 1 then tree_while add (n div 2 + n mod 2) (halve_in_place add n buf) else buf)"
  by auto
termination by (relation "measure (\<lambda>(add, n, buf). n)") (auto, presburger)

declare tree_while.simps [simp del]

definition tree_sum_loop :: "('a \<Rightarrow> 'a \<Rightarrow> 'a) \<Rightarrow> nat \<Rightarrow> 'a list list \<Rightarrow> 'a list" where
  "tree_sum_loop add width rows =
     map (\<lambda>j. tree_while add (length rows) (map (\<lambda>row. row ! j) rows) ! 0) [0..<width]"

section \<open>The reductions\<close>

definition HOST_LOOP_MIN :: nat where "HOST_LOOP_MIN = 65536"

definition on_host_loop :: "bool \<Rightarrow> nat \<Rightarrow> bool" where
  "on_host_loop xp_is_np elements \<longleftrightarrow> xp_is_np \<and> HOST_LOOP_MIN \<le> elements"

fun exact_in_any_order :: "kind \<Rightarrow> bool" where
  "exact_in_any_order K_bool = True"
| "exact_in_any_order K_int = True"
| "exact_in_any_order K_uint = True"
| "exact_in_any_order _ = False"

definition reduced_shape :: "nat list \<Rightarrow> nat \<Rightarrow> bool \<Rightarrow> nat list" where
  "reduced_shape shape ax keepdims = take ax shape @ (if keepdims then [1] else []) @ drop (Suc ax) shape"

text \<open>\<open>sum\<close> over a given axis, and over every element for \<open>axis = None\<close>.\<close>

definition sum_axis :: "'a arithmetic \<Rightarrow> bool \<Rightarrow> 'a tensor \<Rightarrow> int \<Rightarrow> bool \<Rightarrow> 'a tensor res" where
  "sum_axis F xp_is_np t axis keepdims =
     (if exact_in_any_order (t_kind t) then Inr (library_sum F t (Some axis) keepdims)
      else bindE (py_mod axis (int (length (t_shape t)))) (\<lambda>ax.
        (let ax = nat ax;
             rows = axis_rows t ax;
             width = prod_list (take ax (t_shape t)) * prod_list (drop (Suc ax) (t_shape t));
             total =
               (if 0 < length rows \<and> (t_kind t = K_float32 \<or> t_kind t = K_float64) \<and> on_host_loop xp_is_np (length (t_elems t))
                then tree_sum_loop (plus_of F) width rows
                else if length rows = 0 then replicate width (zero_of F)
                else tree (map2 (plus_of F)) rows ! 0)
         in Inr \<lparr>t_kind = t_kind t, t_shape = reduced_shape (t_shape t) ax keepdims, t_elems = total\<rparr>)))"

definition exact_sum :: "'a arithmetic \<Rightarrow> bool \<Rightarrow> 'a tensor \<Rightarrow> int option \<Rightarrow> bool \<Rightarrow> 'a tensor res" where
  "exact_sum F xp_is_np t axis keepdims =
     (case axis of
        Some ax \<Rightarrow> sum_axis F xp_is_np t ax keepdims
      | None \<Rightarrow>
          if exact_in_any_order (t_kind t) then Inr (library_sum F t None keepdims)
          else bindE (sum_axis F xp_is_np (t\<lparr>t_shape := [length (t_elems t)]\<rparr>) 0 False) (\<lambda>flat.
            Inr (if keepdims then flat\<lparr>t_shape := replicate (length (t_shape t)) 1\<rparr> else flat)))"

text \<open>\<open>mean\<close>: \<open>as_float\<close> converts an integer array, \<open>divided\<close> divides by the count.\<close>

definition mean :: "'a arithmetic \<Rightarrow> ('a tensor \<Rightarrow> 'a tensor) \<Rightarrow> ('a \<Rightarrow> nat \<Rightarrow> 'a) \<Rightarrow> bool \<Rightarrow> 'a tensor \<Rightarrow> int option \<Rightarrow> bool \<Rightarrow> 'a tensor res" where
  "mean F as_float divided xp_is_np t axis keepdims =
     bindE (case axis of None \<Rightarrow> Inr (length (t_elems t)) | Some ax \<Rightarrow> py_get (t_shape t) ax) (\<lambda>count.
       bindE (exact_sum F xp_is_np (if exact_in_any_order (t_kind t) then as_float t else t) axis keepdims) (\<lambda>total.
         Inr (total\<lparr>t_elems := map (\<lambda>x. divided x (max count 1)) (t_elems total)\<rparr>)))"

text \<open>\<open>cumsum\<close>: step \<open>d\<close> adds the element \<open>d\<close> back to every element.\<close>

definition scan_step :: "('a \<Rightarrow> 'a \<Rightarrow> 'a) \<Rightarrow> nat \<Rightarrow> 'a list \<Rightarrow> 'a list" where
  "scan_step add step rows = take step rows @ map2 add (drop step rows) (take (length rows - step) rows)"

function scan :: "('a \<Rightarrow> 'a \<Rightarrow> 'a) \<Rightarrow> nat \<Rightarrow> 'a list \<Rightarrow> 'a list" where
  "scan add step rows =
     (if 0 < step \<and> step < length rows then scan add (step * 2) (scan_step add step rows) else rows)"
  by auto
termination
  by (relation "measure (\<lambda>(add, step, rows). length rows - step)") (auto simp: scan_step_def)

declare scan.simps [simp del]

definition cumsum :: "'a arithmetic \<Rightarrow> 'a tensor \<Rightarrow> int option \<Rightarrow> 'a tensor res" where
  "cumsum F t axis =
     (if exact_in_any_order (t_kind t) then Inr (library_cumsum F t axis)
      else
        (let values = (case axis of None \<Rightarrow> t\<lparr>t_shape := [length (t_elems t)]\<rparr> | Some _ \<Rightarrow> t);
             axis = (case axis of None \<Rightarrow> 0 | Some ax \<Rightarrow> ax)
         in bindE (py_mod axis (int (length (t_shape values)))) (\<lambda>ax.
              Inr (from_axis_rows (t_kind t) (t_shape values) (nat ax)
                (scan (map2 (plus_of F)) 1 (axis_rows values (nat ax)))))))"

text \<open>\<open>matvec\<close>, \<open>matmul\<close> and \<open>norm\<close>: products, then \<open>sum\<close>.\<close>

definition matvec :: "'a arithmetic \<Rightarrow> bool \<Rightarrow> 'a tensor \<Rightarrow> 'a list \<Rightarrow> 'a tensor res" where
  "matvec F xp_is_np a x =
     exact_sum F xp_is_np
       (a\<lparr>t_elems := map (\<lambda>i. times_of F (t_elems a ! i) (x ! (i mod length x))) [0..<length (t_elems a)]\<rparr>)
       (Some 1) False"

definition matmul :: "'a arithmetic \<Rightarrow> bool \<Rightarrow> 'a tensor \<Rightarrow> 'a tensor \<Rightarrow> 'a tensor res" where
  "matmul F xp_is_np a b =
     (let m = t_shape a ! 0; k = t_shape a ! 1; n = t_shape b ! 1
      in exact_sum F xp_is_np
           \<lparr>t_kind = t_kind a, t_shape = [m, k, n],
            t_elems = concat (map (\<lambda>i. concat (map (\<lambda>l. map (\<lambda>j.
              times_of F (t_elems a ! (i * k + l)) (t_elems b ! (l * n + j))) [0..<n]) [0..<k])) [0..<m])\<rparr>
           (Some 1) False)"

definition norm :: "'a arithmetic \<Rightarrow> ('a \<Rightarrow> 'a) \<Rightarrow> ('a \<Rightarrow> 'a) \<Rightarrow> bool \<Rightarrow> 'a tensor \<Rightarrow> int option \<Rightarrow> bool \<Rightarrow> 'a tensor res" where
  "norm F abs_square sqrt xp_is_np t axis keepdims =
     (let squares = (if t_kind t = K_complex then t\<lparr>t_kind := K_float64, t_elems := map abs_square (t_elems t)\<rparr>
                     else t\<lparr>t_elems := map (\<lambda>x. times_of F x x) (t_elems t)\<rparr>)
      in bindE (exact_sum F xp_is_np squares axis keepdims) (\<lambda>s. Inr (s\<lparr>t_elems := map sqrt (t_elems s)\<rparr>)))"

text \<open>\<open>ipow\<close>: repeated squaring, elementwise.\<close>

function ipow_loop :: "('a \<Rightarrow> 'a \<Rightarrow> 'a) \<Rightarrow> 'a \<Rightarrow> 'a \<Rightarrow> nat \<Rightarrow> 'a" where
  "ipow_loop mul res base n =
     (if n = 0 then res
      else
        (let res = (if n mod 2 = 1 then mul res base else res);
             n = n div 2
         in ipow_loop mul res (if n \<noteq> 0 then mul base base else base) n))"
  by auto
termination by (relation "measure (\<lambda>(mul, res, base, n). n)") auto

declare ipow_loop.simps [simp del]

definition ipow :: "'a arithmetic \<Rightarrow> 'a list \<Rightarrow> int \<Rightarrow> 'a list res" where
  "ipow F x n =
     (if n < 0 then Inl (ValueError ''ipow: negative exponent'')
      else Inr (map (\<lambda>base. ipow_loop (times_of F) (one_of F) base (nat n)) x))"
section \<open>The loop and the array operations agree\<close>

lemma nth_halve:
  "k < length xs div 2 + length xs mod 2 \<Longrightarrow>
     halve add xs ! k = (if k < length xs div 2 then add (xs ! k) (xs ! (length xs div 2 + k)) else xs ! (2 * (length xs div 2)))"
proof -
  assume k: "k < length xs div 2 + length xs mod 2"
  have "length xs div 2 + length xs div 2 \<le> length xs" by simp
  then have len: "min (length xs) (length xs div 2) = length xs div 2"
      "min (length xs - length xs div 2) (length xs div 2) = length xs div 2" by simp_all
  show ?thesis
  proof (cases "k < length xs div 2")
    case True
    with len show ?thesis
      by (simp add: halve_def Let_def nth_append)
  next
    case False
    with k have "length xs mod 2 = 1" "k = length xs div 2" by auto
    moreover from this have "2 * (length xs div 2) < length xs" by presburger
    ultimately show ?thesis
      using len by (simp add: halve_def Let_def nth_append)
  qed
qed

text \<open>The in-place pass reads the second half while it overwrites the first.\<close>

lemma in_place_pass:
  assumes "m \<le> half" "2 * half \<le> length buf"
  shows "foldl (\<lambda>b k. b[k := add (b ! k) (b ! (half + k))]) buf [0..<m] =
    map (\<lambda>k. if k < m then add (buf ! k) (buf ! (half + k)) else buf ! k) [0..<length buf]"
  using assms(1)
proof (induction m)
  case 0
  show ?case by (simp add: map_nth)
next
  case (Suc m)
  then have "m < length buf" "half + m < length buf" "\<not> half + m < m" using assms(2) by auto
  with Suc show ?case
    by (auto intro!: nth_equalityI simp: nth_list_update)
qed

lemma halve_in_place_prefix:
  assumes "n \<le> length buf" "1 < n"
  shows "take (n div 2 + n mod 2) (halve_in_place add n buf) = halve add (take n buf)"
    and "length (halve_in_place add n buf) = length buf"
proof -
  let ?half = "n div 2"
  let ?b = "map (\<lambda>k. if k < ?half then add (buf ! k) (buf ! (?half + k)) else buf ! k) [0..<length buf]"
  have le: "2 * ?half \<le> length buf" using assms by linarith
  have eq: "halve_in_place add n buf = (if n mod 2 = 1 then ?b[?half := ?b ! (2 * ?half)] else ?b)"
    unfolding halve_in_place_def Let_def by (simp add: in_place_pass [OF order_refl le])
  then show "length (halve_in_place add n buf) = length buf" by simp
  show "take (n div 2 + n mod 2) (halve_in_place add n buf) = halve add (take n buf)"
  proof (rule nth_equalityI)
    show "length (take (n div 2 + n mod 2) (halve_in_place add n buf)) = length (halve add (take n buf))"
      using assms by (simp add: eq)
    fix k
    assume "k < length (take (n div 2 + n mod 2) (halve_in_place add n buf))"
    then have k: "k < n div 2 + n mod 2" by simp
    have idx: "n mod 2 = 1 \<Longrightarrow> 2 * ?half < n" "?half + ?half \<le> n" by presburger+
    show "take (n div 2 + n mod 2) (halve_in_place add n buf) ! k = halve add (take n buf) ! k"
    proof (cases "k < ?half")
      case True
      with k assms idx show ?thesis by (simp add: eq nth_halve nth_list_update)
    next
      case False
      with k have "k = ?half" "n mod 2 = 1" by auto
      with assms idx show ?thesis by (simp add: eq nth_halve nth_list_update)
    qed
  qed
qed

lemma tree_while_tree:
  "n \<le> length buf \<Longrightarrow> take (if n = 0 then 0 else 1) (tree_while add n buf) = tree add (take n buf)"
proof (induction n arbitrary: buf rule: less_induct)
  case (less n)
  show ?case
  proof (cases "n > 1")
    case True
    then have small: "n div 2 + n mod 2 < n" "n div 2 + n mod 2 \<noteq> 0" by presburger+
    note step = halve_in_place_prefix [OF less.prems True, of add]
    have "n div 2 + n mod 2 \<le> length (halve_in_place add n buf)"
      using small less.prems by (simp add: step(2))
    from less.IH [OF small(1) this]
    have "take 1 (tree_while add (n div 2 + n mod 2) (halve_in_place add n buf)) = tree add (halve add (take n buf))"
      unfolding step(1) if_not_P [OF small(2)] .
    then show ?thesis
      using True less.prems by (simp add: tree_while.simps [of add n] tree.simps [of add "take n buf"])
  next
    case False
    then have "n = 0 \<or> n = 1" by auto
    then show ?thesis
      using less.prems by (auto simp: tree_while.simps [of add n] tree.simps [of add "take n buf"])
  qed
qed

text \<open>A homomorphism carries the tree over: a column of the row tree is the tree of the column.\<close>

lemma map_halve:
  assumes "\<And>x y. x \<in> set xs \<Longrightarrow> y \<in> set xs \<Longrightarrow> h (f x y) = g (h x) (h y)"
  shows "map h (halve f xs) = halve g (map h xs)"
proof (rule nth_equalityI)
  fix k
  assume "k < length (map h (halve f xs))"
  then have k: "k < length xs div 2 + length xs mod 2" by simp
  have idx: "length xs mod 2 = 1 \<Longrightarrow> 2 * (length xs div 2) < length xs" "length xs div 2 + length xs div 2 \<le> length xs"
    by presburger+
  with k assms show "map h (halve f xs) ! k = halve g (map h xs) ! k"
    by (auto simp: nth_halve intro!: arg_cong [of _ _ h])
qed simp

lemma set_halve:
  assumes "\<And>x y. x \<in> S \<Longrightarrow> y \<in> S \<Longrightarrow> f x y \<in> S" "set xs \<subseteq> S"
  shows "set (halve f xs) \<subseteq> S"
proof -
  have idx: "length xs mod 2 = 1 \<Longrightarrow> 2 * (length xs div 2) < length xs" "length xs div 2 + length xs div 2 \<le> length xs"
    by presburger+
  show ?thesis
  proof
    fix y
    assume "y \<in> set (halve f xs)"
    then obtain k where k: "k < length xs div 2 + length xs mod 2" "y = halve f xs ! k"
      by (auto simp: in_set_conv_nth)
    have mem: "i < length xs \<Longrightarrow> xs ! i \<in> S" for i using assms(2) nth_mem by blast
    show "y \<in> S"
    proof (cases "k < length xs div 2")
      case True
      with k idx show ?thesis by (simp add: nth_halve assms(1) mem)
    next
      case False
      with k have "length xs mod 2 = 1" by simp
      with k False idx show ?thesis by (simp add: nth_halve mem)
    qed
  qed
qed

lemma map_tree:
  assumes hom: "\<And>x y. x \<in> S \<Longrightarrow> y \<in> S \<Longrightarrow> h (f x y) = g (h x) (h y)"
    and closed: "\<And>x y. x \<in> S \<Longrightarrow> y \<in> S \<Longrightarrow> f x y \<in> S"
  shows "set xs \<subseteq> S \<Longrightarrow> map h (tree f xs) = tree g (map h xs)"
proof (induction xs rule: length_induct)
  case (1 xs)
  show ?case
  proof (cases "length xs > 1")
    case True
    have "length (halve f xs) < length xs" using True by simp presburger
    moreover have "set (halve f xs) \<subseteq> S" by (rule set_halve) (use 1 closed in auto)
    ultimately have "map h (tree f (halve f xs)) = tree g (map h (halve f xs))" using 1 by blast
    moreover have "map h (halve f xs) = halve g (map h xs)" by (rule map_halve) (use 1 hom in blast)
    ultimately show ?thesis
      using True by (simp add: tree.simps [of f xs] tree.simps [of g "map h xs"])
  qed (simp add: tree.simps)
qed

lemma tree_singleton: "xs \<noteq> [] \<Longrightarrow> length (tree f xs) = 1"
proof (induction xs rule: length_induct)
  case (1 xs)
  show ?case
  proof (cases "length xs > 1")
    case True
    have "length (halve f xs) < length xs" using True by simp presburger
    moreover have "0 < length (halve f xs)" using True by simp
    ultimately have "length (tree f (halve f xs)) = 1" using 1 by (simp del: length_halve)
    with True show ?thesis by (simp add: tree.simps [of f xs])
  next
    case False
    with 1 show ?thesis by (cases xs) (auto simp: tree.simps)
  qed
qed

lemma set_tree:
  assumes "\<And>x y. x \<in> S \<Longrightarrow> y \<in> S \<Longrightarrow> f x y \<in> S"
  shows "set xs \<subseteq> S \<Longrightarrow> set (tree f xs) \<subseteq> S"
proof (induction xs rule: length_induct)
  case (1 xs)
  show ?case
  proof (cases "length xs > 1")
    case True
    have "length (halve f xs) < length xs" using True by simp presburger
    moreover have "set (halve f xs) \<subseteq> S" by (rule set_halve) (use 1 assms in auto)
    ultimately show ?thesis using 1 True by (simp add: tree.simps [of _ xs])
  qed (use 1 in \<open>simp add: tree.simps\<close>)
qed

text \<open>The host loop's row of column sums is the last row of the array operations.\<close>

lemma tree_sum_loop_rows:
  assumes "rows \<noteq> []" "\<forall>row \<in> set rows. length row = width"
  shows "tree_sum_loop add width rows = tree (map2 add) rows ! 0"
proof -
  have closed: "set (tree (map2 add) rows) \<subseteq> {row. length row = width}"
    by (rule set_tree) (use assms in auto)
  have one: "length (tree (map2 add) rows) = 1" by (rule tree_singleton [OF assms(1)])
  then have len: "length (tree (map2 add) rows ! 0) = width"
    using closed by (cases "tree (map2 add) rows") auto
  show ?thesis
  proof (rule nth_equalityI)
    show "length (tree_sum_loop add width rows) = length (tree (map2 add) rows ! 0)"
      by (simp add: tree_sum_loop_def len)
    fix j
    assume "j < length (tree_sum_loop add width rows)"
    then have j: "j < width" by (simp add: tree_sum_loop_def)
    let ?col = "map (\<lambda>row. row ! j) rows"
    have "take 1 (tree_while add (length rows) ?col) = tree add ?col"
      using tree_while_tree [of "length rows" ?col add] assms(1) by simp
    also have "\<dots> = map (\<lambda>row. row ! j) (tree (map2 add) rows)"
      by (rule map_tree [where S = "{row. length row = width}", symmetric]) (use assms j in auto)
    finally have "take 1 (tree_while add (length rows) ?col) ! 0 = tree (map2 add) rows ! 0 ! j"
      using one by simp
    with j show "tree_sum_loop add width rows ! j = tree (map2 add) rows ! 0 ! j"
      by (simp add: tree_sum_loop_def)
  qed
qed
lemma length_axis_rows [simp]: "length (axis_rows t ax) = t_shape t ! ax"
  by (simp add: axis_rows_def Let_def)

lemma length_concat_const: "(\<And>x. x \<in> set xs \<Longrightarrow> length (f x) = n) \<Longrightarrow> length (concat (map f xs)) = length xs * n"
  by (induction xs) auto

lemma axis_rows_width:
  "row \<in> set (axis_rows t ax) \<Longrightarrow>
     length row = prod_list (take ax (t_shape t)) * prod_list (drop (Suc ax) (t_shape t))"
  by (auto simp: axis_rows_def Let_def length_concat_const)

text \<open>C33. A reduction has the same value on the host as on a device: whatever the element addition is,
  associative or not, the in-place loop a large host array takes gives the array the whole-array
  halving gives, over every axis and over all elements.\<close>

theorem sum_same_on_host:
  "exact_sum F xp_is_np t axis keepdims = exact_sum F False t axis keepdims"
proof -
  have "sum_axis F True t ax keepdims = sum_axis F False t ax keepdims" for t ax keepdims
  proof -
    have "tree_sum_loop (plus_of F) (prod_list (take n (t_shape t)) * prod_list (drop (Suc n) (t_shape t))) (axis_rows t n) =
        tree (map2 (plus_of F)) (axis_rows t n) ! 0" if "0 < length (axis_rows t n)" for n
      by (rule tree_sum_loop_rows) (use that axis_rows_width in \<open>auto simp del: length_axis_rows\<close>)
    then show ?thesis
      unfolding sum_axis_def Let_def by (auto simp: on_host_loop_def intro!: bindE_cong)
  qed
  then show ?thesis
    by (cases xp_is_np) (simp_all add: exact_sum_def split: option.split)
qed

section \<open>With exact addition\<close>

text \<open>
  Over a commutative monoid, where the order of the additions does not matter, the tree is the sum
  and the scan the running sum.
\<close>

lemma sum_list_map2: "length xs = length ys \<Longrightarrow> sum_list (map2 (+) xs ys) = sum_list xs + sum_list (ys :: 'a::comm_monoid_add list)"
  by (induction xs ys rule: list_induct2) (simp_all add: ac_simps)

lemma sum_list_halve: "sum_list (halve (+) xs) = sum_list (xs :: 'a::comm_monoid_add list)"
proof -
  let ?h = "length xs div 2"
  have le: "?h + ?h \<le> length xs" by linarith
  have split: "xs = take ?h xs @ take ?h (drop ?h xs) @ drop (2 * ?h) xs"
    by (simp add: mult_2 flip: drop_drop)
  have "length xs mod 2 \<noteq> 1 \<Longrightarrow> drop (2 * ?h) xs = []" by simp presburger
  moreover have "sum_list (map2 (+) (take ?h xs) (take ?h (drop ?h xs))) = sum_list (take ?h xs) + sum_list (take ?h (drop ?h xs))"
    by (rule sum_list_map2) (use le in simp)
  ultimately have "sum_list (halve (+) xs) = sum_list (take ?h xs) + sum_list (take ?h (drop ?h xs)) + sum_list (drop (2 * ?h) xs)"
    by (simp add: halve_def Let_def)
  also have "\<dots> = sum_list (take ?h xs @ take ?h (drop ?h xs) @ drop (2 * ?h) xs)"
    by (simp only: sum_list_append ac_simps)
  finally show ?thesis by (simp only: split [symmetric])
qed

lemma tree_sum: "xs \<noteq> [] \<Longrightarrow> tree (+) xs = [sum_list (xs :: 'a::comm_monoid_add list)]"
proof -
  have "sum_list (tree (+) xs) = sum_list xs"
  proof (induction xs rule: length_induct)
    case (1 xs)
    show ?case
    proof (cases "length xs > 1")
      case True
      have "length (halve (+) xs) < length xs" using True by simp presburger
      with 1 True show ?thesis by (simp add: tree.simps [of _ xs] sum_list_halve)
    qed (simp add: tree.simps)
  qed
  moreover assume "xs \<noteq> []"
  note tree_singleton [OF this, of "(+)"]
  ultimately show ?thesis by (cases "tree (+) xs") auto
qed
text \<open>The scan doubles the length of the runs it has summed.\<close>

definition run_sum :: "'a::comm_monoid_add list \<Rightarrow> nat \<Rightarrow> nat \<Rightarrow> 'a" where
  "run_sum xs d i = (\<Sum>k \<in> {Suc i - d..i}. xs ! k)"

lemma run_sum_full: "i < d \<Longrightarrow> i < length xs \<Longrightarrow> run_sum xs d i = sum_list (take (Suc i) xs)"
  by (simp add: run_sum_def sum_list_sum_nth atLeast0AtMost lessThan_Suc_atMost atLeast0LessThan)

lemma run_sum_double:
  assumes "d \<le> i"
  shows "run_sum xs d i + run_sum xs d (i - d) = run_sum xs (d * 2) i"
proof -
  have "{Suc i - d * 2..i} = {Suc i - d..i} \<union> {Suc (i - d) - d..i - d}"
    using assms by auto
  moreover have "{Suc i - d..i} \<inter> {Suc (i - d) - d..i - d} = {}"
    using assms by auto
  ultimately show ?thesis
    unfolding run_sum_def by (simp add: sum.union_disjoint)
qed

lemma scan_runs:
  assumes "0 < d" "length ys = length xs" "\<And>i. i < length xs \<Longrightarrow> ys ! i = run_sum xs d i"
  shows "scan (+) d ys = map (\<lambda>i. sum_list (take (Suc i) xs)) [0..<length xs]"
  using assms
proof (induction "(+) :: 'a::comm_monoid_add \<Rightarrow> 'a \<Rightarrow> 'a" d ys rule: scan.induct)
  case (1 d ys)
  show ?case
  proof (cases "d < length ys")
    case True
    have len: "length (scan_step (+) d ys) = length xs"
      using True "1.prems"(2) by (simp add: scan_step_def)
    have "scan_step (+) d ys ! i = run_sum xs (d * 2) i" if i: "i < length xs" for i
    proof (cases "i < d")
      case True
      with i \<open>d < length ys\<close> "1.prems" have "scan_step (+) d ys ! i = run_sum xs d i"
        by (simp add: scan_step_def nth_append)
      also have "\<dots> = run_sum xs (d * 2) i" using True by (simp add: run_sum_def)
      finally show ?thesis .
    next
      case False
      with i \<open>d < length ys\<close> "1.prems" have "scan_step (+) d ys ! i = run_sum xs d i + run_sum xs d (i - d)"
        by (simp add: scan_step_def nth_append)
      with False show ?thesis by (simp add: run_sum_double)
    qed
    with 1 True len show ?thesis by (simp add: scan.simps [of _ d ys])
  next
    case False
    then have "scan (+) d ys = ys" by (simp add: scan.simps [of _ d ys])
    with False "1.prems" show ?thesis
      by (auto intro!: nth_equalityI simp: run_sum_full)
  qed
qed

lemma scan_is_running_sum:
  "scan (+) 1 xs = map (\<lambda>i. sum_list (take (Suc i) (xs :: 'a::comm_monoid_add list))) [0..<length xs]"
  by (rule scan_runs) (simp_all add: run_sum_def)

lemma ipow_loop_power:
  "ipow_loop (*) res base n = res * (base :: 'a::monoid_mult) ^ n"
proof (induction "(*) :: 'a \<Rightarrow> 'a \<Rightarrow> 'a" res base n rule: ipow_loop.induct)
  case (1 res base n)
  show ?case
  proof (cases "n = 0")
    case False
    have sq: "base ^ (2 * (n div 2)) = (base * base) ^ (n div 2)"
      by (simp add: power_mult power2_eq_square)
    have "n = n mod 2 + 2 * (n div 2)" by simp
    then have "base ^ n = base ^ (n mod 2) * (base * base) ^ (n div 2)"
      by (metis power_add sq)
    moreover have "n mod 2 = 1 \<or> n mod 2 = 0" by auto
    moreover have "ipow_loop (*) res base n =
        ipow_loop (*) (if n mod 2 = 1 then res * base else res) (if n div 2 \<noteq> 0 then base * base else base) (n div 2)"
      using False by (simp add: ipow_loop.simps [of _ res base n] Let_def)
    ultimately show ?thesis
      using 1 False by (auto simp: Let_def mult.assoc)
  qed (simp add: ipow_loop.simps)
qed
lemma map_scan_step:
  assumes "\<And>x y. x \<in> S \<Longrightarrow> y \<in> S \<Longrightarrow> h (f x y) = g (h x) (h y)" "set xs \<subseteq> S" "d < length xs"
  shows "map h (scan_step f d xs) = scan_step g d (map h xs)"
proof (rule nth_equalityI)
  fix k
  assume "k < length (map h (scan_step f d xs))"
  then have k: "k < length xs" using assms(3) by (simp add: scan_step_def)
  have "xs ! k \<in> S" "xs ! (k - d) \<in> S" using k assms(2) nth_mem [of k xs] nth_mem [of "k - d" xs] by auto
  with k assms(1,3) show "map h (scan_step f d xs) ! k = scan_step g d (map h xs) ! k"
    by (auto simp: scan_step_def nth_append)
qed (simp add: scan_step_def)

lemma set_scan_step:
  assumes "\<And>x y. x \<in> S \<Longrightarrow> y \<in> S \<Longrightarrow> f x y \<in> S" "set xs \<subseteq> S"
  shows "set (scan_step f d xs) \<subseteq> S"
proof
  fix y
  assume "y \<in> set (scan_step f d xs)"
  then consider "y \<in> set (take d xs)"
    | u v where "y = f u v" "u \<in> set (drop d xs)" "v \<in> set (take (length xs - d) xs)"
    by (auto simp: scan_step_def dest: set_zip_leftD set_zip_rightD)
  then show "y \<in> S"
    using assms by cases (auto dest!: in_set_takeD in_set_dropD)
qed

lemma length_scan_step [simp]: "d < length xs \<Longrightarrow> length (scan_step f d xs) = length xs"
  by (simp add: scan_step_def)

lemma scan_end: "\<not> (0 < d \<and> d < length xs) \<Longrightarrow> scan f d xs = xs"
  by (subst scan.simps) (simp only: if_False)

lemma scan_next: "0 < d \<Longrightarrow> d < length xs \<Longrightarrow> scan f d xs = scan f (d * 2) (scan_step f d xs)"
  by (simp add: scan.simps [of f d xs])

lemma set_scan:
  assumes "\<And>x y. x \<in> S \<Longrightarrow> y \<in> S \<Longrightarrow> f x y \<in> S"
  shows "set xs \<subseteq> S \<Longrightarrow> set (scan f d xs) \<subseteq> S"
proof (induction "length xs - d" arbitrary: d xs rule: less_induct)
  case less
  show ?case
  proof (cases "0 < d \<and> d < length xs")
    case True
    then have "length xs - d * 2 < length xs - d" by linarith
    with less True set_scan_step [OF assms less.prems] show ?thesis by (simp add: scan_next)
  qed (simp add: scan_end less.prems)
qed

lemma map_scan:
  assumes hom: "\<And>x y. x \<in> S \<Longrightarrow> y \<in> S \<Longrightarrow> h (f x y) = g (h x) (h y)"
    and closed: "\<And>x y. x \<in> S \<Longrightarrow> y \<in> S \<Longrightarrow> f x y \<in> S"
  shows "set xs \<subseteq> S \<Longrightarrow> map h (scan f d xs) = scan g d (map h xs)"
proof (induction "length xs - d" arbitrary: d xs rule: less_induct)
  case less
  show ?case
  proof (cases "0 < d \<and> d < length xs")
    case True
    then have "length xs - d * 2 < length xs - d" by linarith
    with less True set_scan_step [OF closed less.prems]
    have "map h (scan f (d * 2) (scan_step f d xs)) = scan g (d * 2) (map h (scan_step f d xs))"
      by simp
    also have "map h (scan_step f d xs) = scan_step g d (map h xs)"
      by (rule map_scan_step) (use less.prems hom True in auto)
    finally show ?thesis using True by (simp add: scan_next)
  qed (simp add: scan_end)
qed

definition exact_arith :: "'a::comm_ring_1 arithmetic \<Rightarrow> bool" where
  "exact_arith F \<longleftrightarrow> plus_of F = (+) \<and> times_of F = (*) \<and> zero_of F = 0 \<and> one_of F = 1"

lemma tree_rows_sum:
  assumes "rows \<noteq> []" "\<forall>row \<in> set rows. length row = width"
  shows "tree (map2 (+)) rows ! 0 = map (\<lambda>j. \<Sum>row \<leftarrow> rows. row ! j :: 'a::comm_monoid_add) [0..<width]"
proof -
  have "tree_while (+) (length rows) (map (\<lambda>row. row ! j) rows) ! 0 = (\<Sum>row \<leftarrow> rows. row ! j)" for j
  proof -
    have "take 1 (tree_while (+) (length rows) (map (\<lambda>row. row ! j) rows)) = [\<Sum>row \<leftarrow> rows. row ! j]"
      using tree_while_tree [of "length rows" "map (\<lambda>row. row ! j) rows" "(+)"] assms(1)
        tree_sum [of "map (\<lambda>row. row ! j) rows"] by simp
    then show ?thesis by (cases "tree_while (+) (length rows) (map (\<lambda>row. row ! j) rows)") auto
  qed
  then show ?thesis
    using tree_sum_loop_rows [OF assms, of "(+)"] by (simp add: tree_sum_loop_def)
qed
lemma cumsum_flat:
  assumes "exact_arith F" "\<not> exact_in_any_order (t_kind t)"
  shows "cumsum F t None =
    Inr \<lparr>t_kind = t_kind t, t_shape = [length (t_elems t)],
         t_elems = map (\<lambda>i. \<Sum>x \<leftarrow> take (Suc i) (t_elems t). x) [0..<length (t_elems t)]\<rparr>"
proof -
  let ?xs = "t_elems t"
  let ?S = "{row. length row = 1} :: 'a list set"
  have rows: "axis_rows (t\<lparr>t_shape := [length ?xs]\<rparr>) 0 = map (\<lambda>x. [x]) ?xs"
    by (auto simp: axis_rows_def intro!: nth_equalityI)
  have "map hd (scan (map2 (+)) 1 (map (\<lambda>x. [x]) ?xs)) = scan (+) 1 (map hd (map (\<lambda>x. [x]) ?xs))"
    by (rule map_scan [where S = ?S]) (auto simp: length_Suc_conv)
  then have heads: "map hd (scan (map2 (+)) 1 (map (\<lambda>x. [x]) ?xs)) =
      map (\<lambda>i. \<Sum>x \<leftarrow> take (Suc i) ?xs. x) [0..<length ?xs]"
    by (simp add: comp_def scan_is_running_sum del: One_nat_def)
  have single: "set (scan (map2 (+)) d zs) \<subseteq> ?S" if "set zs \<subseteq> ?S" for d zs
    by (rule set_scan) (use that in auto)
  have len: "length (scan (map2 (+)) 1 (map (\<lambda>x. [x]) ?xs)) = length ?xs"
    using arg_cong [OF heads, of length] by simp
  have "scan (map2 (+)) 1 (map (\<lambda>x. [x]) ?xs) ! k ! 0 = (\<Sum>x \<leftarrow> take (Suc k) ?xs. x)" if k: "k < length ?xs" for k
  proof -
    have "scan (map2 (+)) 1 (map (\<lambda>x. [x]) ?xs) ! k \<in> ?S"
    proof -
      have "set (scan (map2 (+)) 1 (map (\<lambda>x. [x]) ?xs)) \<subseteq> ?S" by (rule single) auto
      moreover have "scan (map2 (+)) 1 (map (\<lambda>x. [x]) ?xs) ! k \<in> set (scan (map2 (+)) 1 (map (\<lambda>x. [x]) ?xs))"
        using k len by (intro nth_mem) simp
      ultimately show ?thesis by blast
    qed
    moreover have "hd (scan (map2 (+)) 1 (map (\<lambda>x. [x]) ?xs) ! k) = (\<Sum>x \<leftarrow> take (Suc k) ?xs. x)"
      using heads k len by (metis (no_types, lifting) add_0 diff_zero length_upt nth_map nth_upt)
    ultimately show ?thesis by (cases "scan (map2 (+)) 1 (map (\<lambda>x. [x]) ?xs) ! k") auto
  qed
  then have "map (\<lambda>k. scan (map2 (+)) 1 (map (\<lambda>x. [x]) ?xs) ! k ! 0) [0..<length ?xs] =
      map (\<lambda>i. \<Sum>x \<leftarrow> take (Suc i) ?xs. x) [0..<length ?xs]"
    by simp
  then show ?thesis
    using assms
    by (simp add: cumsum_def rows py_mod_def from_axis_rows_def exact_arith_def)
qed
lemma sum_axis_exact:
  assumes "exact_arith F" "\<not> exact_in_any_order (t_kind t)" "t_shape t \<noteq> []"
    and n_def: "n = nat (ax mod int (length (t_shape t)))"
  shows "sum_axis F xp_is_np t ax keepdims =
    Inr \<lparr>t_kind = t_kind t, t_shape = reduced_shape (t_shape t) n keepdims,
         t_elems = map (\<lambda>j. \<Sum>row \<leftarrow> axis_rows t n. row ! j)
           [0..<prod_list (take n (t_shape t)) * prod_list (drop (Suc n) (t_shape t))]\<rparr>"
proof (cases "axis_rows t n = []")
  case True
  with assms show ?thesis
    by (simp add: sum_axis_def py_mod_def Let_def exact_arith_def map_replicate_const)
next
  case False
  have width: "\<forall>row \<in> set (axis_rows t n). length row = prod_list (take n (t_shape t)) * prod_list (drop (Suc n) (t_shape t))"
    using axis_rows_width by blast
  have "t_shape t ! n \<noteq> 0" using False length_axis_rows [of t n] by (metis length_0_conv)
  with assms(1-3) show ?thesis
    using tree_rows_sum [OF False width] tree_sum_loop_rows [OF False width, of "(+)"]
    by (simp add: sum_axis_def py_mod_def Let_def exact_arith_def flip: n_def)
qed

text \<open>Where addition is exact, the fixed orders compute what they replace: \<open>sum\<close> over an axis is the
  sum along it, \<open>sum\<close> and \<open>cumsum\<close> of a whole array its sum and running sums, and \<open>ipow\<close> the power; a
  negative exponent is refused.\<close>

theorem exact_reductions:
  assumes "exact_arith (F :: 'a::comm_ring_1 arithmetic)" "\<not> exact_in_any_order (t_kind t)" "t_shape t \<noteq> []"
  shows "exact_sum F xp_is_np t (Some ax) keepdims =
      (let n = nat (ax mod int (length (t_shape t)))
       in Inr \<lparr>t_kind = t_kind t, t_shape = reduced_shape (t_shape t) n keepdims,
               t_elems = map (\<lambda>j. \<Sum>row \<leftarrow> axis_rows t n. row ! j)
                 [0..<prod_list (take n (t_shape t)) * prod_list (drop (Suc n) (t_shape t))]\<rparr>) \<and>
    exact_sum F xp_is_np t None keepdims =
      Inr \<lparr>t_kind = t_kind t, t_shape = (if keepdims then replicate (length (t_shape t)) 1 else []),
           t_elems = [sum_list (t_elems t)]\<rparr> \<and>
    cumsum F t None =
      Inr \<lparr>t_kind = t_kind t, t_shape = [length (t_elems t)],
           t_elems = map (\<lambda>i. sum_list (take (Suc i) (t_elems t))) [0..<length (t_elems t)]\<rparr> \<and>
    ipow F xs n = (if n < 0 then Inl (ValueError ''ipow: negative exponent'') else Inr (map (\<lambda>x. x ^ nat n) xs))"
proof (intro conjI)
  let ?flat = "t\<lparr>t_shape := [length (t_elems t)]\<rparr>"
  have rows: "axis_rows ?flat 0 = map (\<lambda>x. [x]) (t_elems t)"
    by (auto simp: axis_rows_def intro!: nth_equalityI)
  show "exact_sum F xp_is_np t None keepdims =
      Inr \<lparr>t_kind = t_kind t, t_shape = (if keepdims then replicate (length (t_shape t)) 1 else []),
           t_elems = [sum_list (t_elems t)]\<rparr>"
    using assms sum_axis_exact [OF assms(1), of ?flat 0 0 xp_is_np False]
    by (simp add: exact_sum_def rows comp_def reduced_shape_def)
  show "ipow F xs n = (if n < 0 then Inl (ValueError ''ipow: negative exponent'') else Inr (map (\<lambda>x. x ^ nat n) xs))"
    using assms(1) by (simp add: ipow_def exact_arith_def ipow_loop_power)
qed (use assms sum_axis_exact [OF assms refl] cumsum_flat [OF assms(1,2)] in \<open>simp_all add: exact_sum_def Let_def\<close>)

definition int_arith :: "int arithmetic" where
  "int_arith = \<lparr>plus_of = (+), times_of = (*), zero_of = 0, one_of = 1,
     library_sum = (\<lambda>t _ _. t), library_cumsum = (\<lambda>t _. t)\<rparr>"

definition five :: "int tensor" where
  "five = \<lparr>t_kind = K_float64, t_shape = [5], t_elems = [1, 2, 3, 4, 5]\<rparr>"

lemma exact_reductions_witness:
  "exact_sum int_arith True five None True = Inr \<lparr>t_kind = K_float64, t_shape = [1], t_elems = [15]\<rparr> \<and>
   cumsum int_arith five None = Inr \<lparr>t_kind = K_float64, t_shape = [5], t_elems = [1, 3, 6, 10, 15]\<rparr> \<and>
   ipow int_arith [2, 3] 5 = Inr [32, 243]"
proof -
  have hyps: "exact_arith int_arith" "\<not> exact_in_any_order (t_kind five)" "t_shape five \<noteq> []"
    by (simp_all add: exact_arith_def int_arith_def five_def)
  show ?thesis
    using exact_reductions [OF hyps, of True 0 True "[2, 3]" 5] by (simp add: five_def upt_conv_Cons)
qed

end
