(* ===== verification/Exact_Elementwise.thy ===== *)
theory Exact_Elementwise
  imports Exact_Reduce Complex_Main "HOL-Library.Word"
begin

text \<open>
  The elementary functions of the kernel initializers (\<open>support/exact_math.py\<close>): each as array
  operations, which numpy and cupy run, and as the compiled loop a large host array takes; and \<open>frexp\<close>
  on the bits of a float64. Float arithmetic is a parameter (a record of operations), so the equality of
  the two forms holds for IEEE arithmetic bit by bit.
\<close>

section \<open>Float operations\<close>

text \<open>
  The operations the module uses, with its constants. \<open>f_int\<close> is \<open>int(k)\<close> and \<open>astype(int32)\<close> of an
  integral float, \<open>f_frexp\<close> the library's \<open>math.frexp\<close>, \<open>f_own_frexp\<close> the module's \<open>frexp\<close> of one element.
\<close>

record 'f float_ops =
  f_add :: "'f \<Rightarrow> 'f \<Rightarrow> 'f"
  f_sub :: "'f \<Rightarrow> 'f \<Rightarrow> 'f"
  f_mul :: "'f \<Rightarrow> 'f \<Rightarrow> 'f"
  f_div :: "'f \<Rightarrow> 'f \<Rightarrow> 'f"
  f_neg :: "'f \<Rightarrow> 'f"
  f_abs :: "'f \<Rightarrow> 'f"
  f_rint :: "'f \<Rightarrow> 'f"
  f_floor :: "'f \<Rightarrow> 'f"
  f_sqrt :: "'f \<Rightarrow> 'f"
  f_less :: "'f \<Rightarrow> 'f \<Rightarrow> bool"
  f_equal :: "'f \<Rightarrow> 'f \<Rightarrow> bool"
  f_ldexp :: "'f \<Rightarrow> int \<Rightarrow> 'f"
  f_int :: "'f \<Rightarrow> int"
  f_of_int :: "int \<Rightarrow> 'f"
  f_literal :: "string \<Rightarrow> 'f"
  f_inf :: 'f
  f_nan :: 'f
  f_frexp :: "'f \<Rightarrow> 'f \<times> int"
  f_own_frexp :: "'f \<Rightarrow> 'f \<times> int"

definition EXP_LIMIT :: "'f float_ops \<Rightarrow> 'f" where "EXP_LIMIT F = f_literal F ''708.0''"
definition EXPM1_SERIES_LIMIT :: "'f float_ops \<Rightarrow> 'f" where "EXPM1_SERIES_LIMIT F = f_literal F ''0.25''"
definition LN2_HI :: "'f float_ops \<Rightarrow> 'f" where "LN2_HI F = f_literal F ''6.93147180369123816490e-01''"
definition LN2_LO :: "'f float_ops \<Rightarrow> 'f" where "LN2_LO F = f_literal F ''1.90821492927058770002e-10''"
definition INV_LN2 :: "'f float_ops \<Rightarrow> 'f" where "INV_LN2 F = f_literal F ''1.0 / math.log(2.0)''"
definition HALF_PI_1 :: "'f float_ops \<Rightarrow> 'f" where "HALF_PI_1 F = f_literal F ''1.5707963267341256e00''"
definition HALF_PI_2 :: "'f float_ops \<Rightarrow> 'f" where "HALF_PI_2 F = f_literal F ''6.077100506506192e-11''"
definition HALF_PI_3 :: "'f float_ops \<Rightarrow> 'f" where "HALF_PI_3 F = f_literal F ''2.0222662487959506e-21''"
definition INV_HALF_PI :: "'f float_ops \<Rightarrow> 'f" where "INV_HALF_PI F = f_literal F ''2.0 / math.pi''"

definition f_one :: "'f float_ops \<Rightarrow> 'f" where "f_one F = f_of_int F 1"
definition f_zero :: "'f float_ops \<Rightarrow> 'f" where "f_zero F = f_of_int F 0"
definition f_two :: "'f float_ops \<Rightarrow> 'f" where "f_two F = f_of_int F 2"
definition sqrt_half :: "'f float_ops \<Rightarrow> 'f" where "sqrt_half F = f_sqrt F (f_literal F ''0.5'')"

definition EXP_COEFFICIENTS :: "'f float_ops \<Rightarrow> 'f list" where
  "EXP_COEFFICIENTS F = map (\<lambda>n. f_div F (f_one F) (f_of_int F (fact n))) [0..<14]"

definition sign_power :: "'f float_ops \<Rightarrow> nat \<Rightarrow> 'f" where
  "sign_power F n = (if even n then f_one F else f_neg F (f_one F))"

definition SIN_COEFFICIENTS :: "'f float_ops \<Rightarrow> 'f list" where
  "SIN_COEFFICIENTS F = map (\<lambda>n. f_div F (sign_power F n) (f_of_int F (fact (2 * n + 1)))) [0..<11]"

definition COS_COEFFICIENTS :: "'f float_ops \<Rightarrow> 'f list" where
  "COS_COEFFICIENTS F = map (\<lambda>n. f_div F (sign_power F n) (f_of_int F (fact (2 * n)))) [0..<11]"

definition ATANH_COEFFICIENTS :: "'f float_ops \<Rightarrow> 'f list" where
  "ATANH_COEFFICIENTS F = map (\<lambda>n. f_div F (f_one F) (f_of_int F (2 * int n + 1))) [0..<12]"

section \<open>The compiled loops\<close>

text \<open>\<open>for i in range(len(coefficients) - 2, -1, -1)\<close>.\<close>

definition horner_scalar :: "'f float_ops \<Rightarrow> 'f \<Rightarrow> 'f list \<Rightarrow> 'f" where
  "horner_scalar F r coefficients =
     foldl (\<lambda>total i. f_add F (f_mul F total r) (coefficients ! i)) (last coefficients)
       (rev [0..<length coefficients - 1])"

definition trig_loop :: "'f float_ops \<Rightarrow> bool \<Rightarrow> 'f list \<Rightarrow> 'f list" where
  "trig_loop F cosine xs = map (\<lambda>x.
     (let k = f_rint F (f_mul F x (INV_HALF_PI F));
          r = f_sub F x (f_mul F k (HALF_PI_1 F));
          r = f_sub F r (f_mul F k (HALF_PI_2 F));
          r = f_sub F r (f_mul F k (HALF_PI_3 F));
          quadrant = f_sub F k (f_mul F (f_of_int F 4) (f_floor F (f_mul F k (f_literal F ''0.25''))));
          r2 = f_mul F r r;
          s = f_mul F r (horner_scalar F r2 (SIN_COEFFICIENTS F));
          c = horner_scalar F r2 (COS_COEFFICIENTS F)
      in if cosine then
           (if f_equal F quadrant (f_zero F) then c
            else if f_equal F quadrant (f_one F) then f_neg F s
            else if f_equal F quadrant (f_two F) then f_neg F c else s)
         else
           (if f_equal F quadrant (f_zero F) then s
            else if f_equal F quadrant (f_one F) then c
            else if f_equal F quadrant (f_two F) then f_neg F s else f_neg F c))) xs"

text \<open>\<open>max(a, b)\<close> and \<open>min(a, b)\<close> answer \<open>a\<close> unless \<open>b\<close> is beyond it; so does \<open>clip\<close> at a bound that is a
  number, a NaN element included.\<close>

definition py_max :: "'f float_ops \<Rightarrow> 'f \<Rightarrow> 'f \<Rightarrow> 'f" where
  "py_max F a b = (if f_less F a b then b else a)"

definition py_min :: "'f float_ops \<Rightarrow> 'f \<Rightarrow> 'f \<Rightarrow> 'f" where
  "py_min F a b = (if f_less F b a then b else a)"

definition exp_loop :: "'f float_ops \<Rightarrow> 'f list \<Rightarrow> 'f list" where
  "exp_loop F xs = map (\<lambda>x.
     (let v = py_min F (py_max F x (f_neg F (EXP_LIMIT F))) (EXP_LIMIT F);
          k = f_rint F (f_mul F v (INV_LN2 F));
          r = f_sub F v (f_mul F k (LN2_HI F));
          r = f_sub F r (f_mul F k (LN2_LO F))
      in f_ldexp F (horner_scalar F r (EXP_COEFFICIENTS F)) (f_int F k))) xs"

definition log_loop :: "'f float_ops \<Rightarrow> 'f list \<Rightarrow> 'f list" where
  "log_loop F xs = map (\<lambda>x.
     (let (mantissa, exponent) = f_frexp F (if f_less F (f_zero F) x then x else f_one F);
          low = f_less F mantissa (sqrt_half F);
          mantissa = (if low then f_mul F mantissa (f_two F) else mantissa);
          exponent = (if low then exponent - 1 else exponent);
          e = f_of_int F exponent;
          s = f_div F (f_sub F mantissa (f_one F)) (f_add F mantissa (f_one F));
          total = f_mul F (f_mul F (f_two F) s) (horner_scalar F (f_mul F s s) (ATANH_COEFFICIENTS F));
          total = f_add F total (f_mul F e (LN2_LO F));
          total = f_add F total (f_mul F e (LN2_HI F))
      in if f_equal F x (f_zero F) then f_neg F (f_inf F)
         else if f_less F x (f_zero F) then f_nan F else total)) xs"

section \<open>The array operations\<close>

text \<open>Each step of the array code is one operation over whole arrays; a scalar operand is broadcast.\<close>

abbreviation scaled :: "'f float_ops \<Rightarrow> 'f list \<Rightarrow> 'f \<Rightarrow> 'f list" where
  "scaled F xs c \<equiv> map (\<lambda>x. f_mul F x c) xs"

definition where3 :: "bool list \<Rightarrow> 'f list \<Rightarrow> 'f list \<Rightarrow> 'f list" where
  "where3 cs xs ys = map2 (\<lambda>c (x, y). if c then x else y) cs (zip xs ys)"

definition horner :: "'f float_ops \<Rightarrow> 'f list \<Rightarrow> 'f list \<Rightarrow> 'f list" where
  "horner F r coefficients =
     foldl (\<lambda>total c. map (\<lambda>t. f_add F t c) (map2 (f_mul F) total r))
       (replicate (length r) (last coefficients)) (rev (butlast coefficients))"

definition reduce_half_pi :: "'f float_ops \<Rightarrow> 'f list \<Rightarrow> 'f list \<times> 'f list" where
  "reduce_half_pi F x =
     (let k = map (f_rint F) (scaled F x (INV_HALF_PI F));
          r = map2 (f_sub F) x (scaled F k (HALF_PI_1 F));
          r = map2 (f_sub F) r (scaled F k (HALF_PI_2 F));
          r = map2 (f_sub F) r (scaled F k (HALF_PI_3 F))
      in (r, map2 (f_sub F) k (map (f_mul F (f_of_int F 4)) (map (f_floor F) (scaled F k (f_literal F ''0.25''))))))"

definition sin_cos_series :: "'f float_ops \<Rightarrow> 'f list \<Rightarrow> 'f list \<times> 'f list" where
  "sin_cos_series F r =
     (let r2 = map2 (f_mul F) r r
      in (map2 (f_mul F) r (horner F r2 (SIN_COEFFICIENTS F)), horner F r2 (COS_COEFFICIENTS F)))"

definition at_quadrant :: "'f float_ops \<Rightarrow> 'f list \<Rightarrow> 'f list \<Rightarrow> 'f list \<Rightarrow> 'f list \<Rightarrow> 'f list \<Rightarrow> 'f list" where
  "at_quadrant F quadrant q0 q1 q2 q3 =
     where3 (map (\<lambda>q. f_equal F q (f_zero F)) quadrant) q0
       (where3 (map (\<lambda>q. f_equal F q (f_one F)) quadrant) q1
         (where3 (map (\<lambda>q. f_equal F q (f_two F)) quadrant) q2 q3))"

definition sin_array :: "'f float_ops \<Rightarrow> 'f list \<Rightarrow> 'f list" where
  "sin_array F x =
     (let (r, quadrant) = reduce_half_pi F x; (s, c) = sin_cos_series F r
      in at_quadrant F quadrant s c (map (f_neg F) s) (map (f_neg F) c))"

definition cos_array :: "'f float_ops \<Rightarrow> 'f list \<Rightarrow> 'f list" where
  "cos_array F x =
     (let (r, quadrant) = reduce_half_pi F x; (s, c) = sin_cos_series F r
      in at_quadrant F quadrant c (map (f_neg F) s) (map (f_neg F) c) s)"

definition exp_array :: "'f float_ops \<Rightarrow> 'f list \<Rightarrow> 'f list" where
  "exp_array F x =
     (let v = map (\<lambda>x. py_min F (py_max F x (f_neg F (EXP_LIMIT F))) (EXP_LIMIT F)) x;
          k = map (f_rint F) (scaled F v (INV_LN2 F));
          r = map2 (f_sub F) v (scaled F k (LN2_HI F));
          r = map2 (f_sub F) r (scaled F k (LN2_LO F));
          series = horner F r (EXP_COEFFICIENTS F)
      in map2 (f_ldexp F) series (map (f_int F) k))"

definition log_mantissa :: "'f float_ops \<Rightarrow> ('f \<times> int) list \<Rightarrow> 'f list \<times> 'f list" where
  "log_mantissa F split =
     (let mantissa = map fst split;
          low = map (\<lambda>m. f_less F m (sqrt_half F)) mantissa
      in (where3 low (scaled F mantissa (f_two F)) mantissa,
          map (f_of_int F) (map2 (\<lambda>l e. if l then e - 1 else e) low (map snd split))))"

definition log_series :: "'f float_ops \<Rightarrow> 'f list \<Rightarrow> 'f list \<Rightarrow> 'f list" where
  "log_series F mantissa e =
     (let s = map2 (f_div F) (map (\<lambda>m. f_sub F m (f_one F)) mantissa) (map (\<lambda>m. f_add F m (f_one F)) mantissa);
          series = horner F (map2 (f_mul F) s s) (ATANH_COEFFICIENTS F);
          total = map2 (f_mul F) (map (f_mul F (f_two F)) s) series;
          total = map2 (f_add F) total (scaled F e (LN2_LO F))
      in map2 (f_add F) total (scaled F e (LN2_HI F)))"

definition log_array :: "'f float_ops \<Rightarrow> 'f list \<Rightarrow> 'f list" where
  "log_array F x =
     (let split = map (f_own_frexp F) (where3 (map (f_less F (f_zero F)) x) x (replicate (length x) (f_one F)));
          (mantissa, e) = log_mantissa F split;
          total = log_series F mantissa e;
          total = where3 (map (\<lambda>x. f_equal F x (f_zero F)) x) (replicate (length x) (f_neg F (f_inf F))) total
      in where3 (map (\<lambda>x. f_less F x (f_zero F)) x) (replicate (length x) (f_nan F)) total)"

text \<open>The functions: a large host array takes the loop.\<close>

definition exact_sin :: "'f float_ops \<Rightarrow> bool \<Rightarrow> 'f list \<Rightarrow> 'f list" where
  "exact_sin F xp_is_np x = (if on_host_loop xp_is_np (length x) then trig_loop F False x else sin_array F x)"

definition exact_cos :: "'f float_ops \<Rightarrow> bool \<Rightarrow> 'f list \<Rightarrow> 'f list" where
  "exact_cos F xp_is_np x = (if on_host_loop xp_is_np (length x) then trig_loop F True x else cos_array F x)"

definition exact_exp :: "'f float_ops \<Rightarrow> bool \<Rightarrow> 'f list \<Rightarrow> 'f list" where
  "exact_exp F xp_is_np x = (if on_host_loop xp_is_np (length x) then exp_loop F x else exp_array F x)"

definition exact_log :: "'f float_ops \<Rightarrow> bool \<Rightarrow> 'f list \<Rightarrow> 'f list" where
  "exact_log F xp_is_np x = (if on_host_loop xp_is_np (length x) then log_loop F x else log_array F x)"

definition exact_pow :: "'f float_ops \<Rightarrow> bool \<Rightarrow> 'f list \<Rightarrow> 'f list \<Rightarrow> 'f list" where
  "exact_pow F xp_is_np x y = exact_exp F xp_is_np (map2 (f_mul F) y (exact_log F xp_is_np x))"

definition expm1 :: "'f float_ops \<Rightarrow> bool \<Rightarrow> 'f list \<Rightarrow> 'f list" where
  "expm1 F xp_is_np x =
     (let series = map2 (f_mul F) x
            (horner F x (map (\<lambda>n. f_div F (f_one F) (f_of_int F (fact (n + 1)))) [0..<14]))
      in where3 (map (\<lambda>v. f_less F (f_abs F v) (EXPM1_SERIES_LIMIT F)) x) series
           (map (\<lambda>v. f_sub F v (f_one F)) (exact_exp F xp_is_np x)))"

definition exact_tanh :: "'f float_ops \<Rightarrow> bool \<Rightarrow> 'f list \<Rightarrow> 'f list" where
  "exact_tanh F xp_is_np x =
     (let doubled = map (\<lambda>v. f_mul F (f_neg F (f_two F)) (f_abs F v)) x;
          magnitude = map2 (f_div F) (map (f_neg F) (expm1 F xp_is_np doubled))
            (map (f_add F (f_one F)) (exact_exp F xp_is_np doubled))
      in where3 (map (\<lambda>v. f_less F v (f_zero F)) x) (map (f_neg F) magnitude) magnitude)"
definition divide_by_real :: "'f float_ops \<Rightarrow> ('f \<times> 'f) list \<Rightarrow> 'f list \<Rightarrow> ('f \<times> 'f) list" where
  "divide_by_real F z d = map2 (\<lambda>(re, im) d. (f_div F re d, f_div F im d)) z d"

text \<open>\<open>searchsorted(knots, at, side="right")\<close>: the number of knots at most \<open>at\<close>.\<close>

definition searchsorted_right :: "'f float_ops \<Rightarrow> 'f list \<Rightarrow> 'f \<Rightarrow> nat" where
  "searchsorted_right F knots v = length (takeWhile (\<lambda>k. \<not> f_less F v k) knots)"

definition interp :: "'f float_ops \<Rightarrow> 'f list \<Rightarrow> 'f list \<Rightarrow> 'f list \<Rightarrow> 'f list res" where
  "interp F x knots heights =
     (if knots = [] \<or> length heights < length knots then Inl IndexError
      else
        (let last = length knots - 1 in
         if last = 0 then Inr (replicate (length x) (heights ! 0))
         else Inr (map (\<lambda>v.
           (let j = min (searchsorted_right F knots v - 1) (last - 1);
                slope = f_div F (f_sub F (heights ! (j + 1)) (heights ! j)) (f_sub F (knots ! (j + 1)) (knots ! j));
                inside = f_add F (f_mul F slope (f_sub F v (knots ! j))) (heights ! j);
                inside = (if f_less F v (knots ! 0) then heights ! 0 else inside)
            in if \<not> f_less F v (knots ! last) then heights ! last else inside)) x)))"

definition linspace :: "'f float_ops \<Rightarrow> 'f \<Rightarrow> 'f \<Rightarrow> int \<Rightarrow> bool \<Rightarrow> 'f list" where
  "linspace F start stop num endpoint =
     (let intervals = (if endpoint then max (num - 1) 1 else max num 1);
          fraction = map (\<lambda>i. f_div F (f_of_int F (int i)) (f_of_int F intervals)) [0..<nat num];
          points = map (\<lambda>t. f_add F start (f_mul F (f_sub F stop start) t)) fraction
      in if endpoint \<and> num > 1 then points[length points - 1 := stop] else points)"

definition logspace :: "'f float_ops \<Rightarrow> bool \<Rightarrow> 'f \<Rightarrow> 'f \<Rightarrow> int \<Rightarrow> 'f \<Rightarrow> 'f list" where
  "logspace F xp_is_np start stop num base =
     exact_pow F xp_is_np (replicate (nat num) base) (linspace F start stop num True)"

section \<open>The loops compute what the array operations compute\<close>

lemmas elementwise = zip_map1 zip_map2 zip_same_conv_map comp_def where3_def case_prod_unfold

lemma horner_fold:
  "foldl (\<lambda>total c. map (\<lambda>t. f_add F t c) (map2 (f_mul F) total r)) (map g r) cs =
     map (\<lambda>x. foldl (\<lambda>total c. f_add F (f_mul F total x) c) (g x) cs) r"
  by (induction cs arbitrary: g) (simp_all add: elementwise)

lemma horner_elementwise: "cs \<noteq> [] \<Longrightarrow> horner F r cs = map (\<lambda>x. horner_scalar F x cs) r"
proof -
  assume "cs \<noteq> []"
  have "rev (butlast cs) = map ((!) cs) (rev [0..<length cs - 1])"
    by (rule nth_equalityI) (auto simp: rev_nth nth_butlast)
  then have scalar: "horner_scalar F x cs = foldl (\<lambda>total c. f_add F (f_mul F total x) c) (last cs) (rev (butlast cs))" for x
    by (simp add: horner_scalar_def foldl_map)
  have "replicate (length r) (last cs) = map (\<lambda>_. last cs) r"
    by (simp add: map_replicate_const)
  then show ?thesis
    unfolding horner_def scalar by (simp only: horner_fold)
qed

lemma coefficients_nonempty:
  "SIN_COEFFICIENTS F \<noteq> []" "COS_COEFFICIENTS F \<noteq> []" "EXP_COEFFICIENTS F \<noteq> []" "ATANH_COEFFICIENTS F \<noteq> []"
  by (simp_all add: SIN_COEFFICIENTS_def COS_COEFFICIENTS_def EXP_COEFFICIENTS_def ATANH_COEFFICIENTS_def)

lemmas horner_series = coefficients_nonempty [THEN horner_elementwise]

lemma map_const_replicate: "replicate (length xs) c = map (\<lambda>_. c) xs"
  by (simp add: map_replicate_const)

text \<open>One element of the argument reduction, the series and the choice by quadrant.\<close>

definition reduced :: "'f float_ops \<Rightarrow> 'f \<Rightarrow> 'f" where
  "reduced F x =
     (let k = f_rint F (f_mul F x (INV_HALF_PI F))
      in f_sub F (f_sub F (f_sub F x (f_mul F k (HALF_PI_1 F))) (f_mul F k (HALF_PI_2 F))) (f_mul F k (HALF_PI_3 F)))"

definition quadrant_of :: "'f float_ops \<Rightarrow> 'f \<Rightarrow> 'f" where
  "quadrant_of F x =
     (let k = f_rint F (f_mul F x (INV_HALF_PI F))
      in f_sub F k (f_mul F (f_of_int F 4) (f_floor F (f_mul F k (f_literal F ''0.25'')))))"

definition sin_part :: "'f float_ops \<Rightarrow> 'f \<Rightarrow> 'f" where
  "sin_part F r = f_mul F r (horner_scalar F (f_mul F r r) (SIN_COEFFICIENTS F))"

definition cos_part :: "'f float_ops \<Rightarrow> 'f \<Rightarrow> 'f" where
  "cos_part F r = horner_scalar F (f_mul F r r) (COS_COEFFICIENTS F)"

definition pick :: "'f float_ops \<Rightarrow> 'f \<Rightarrow> 'f \<Rightarrow> 'f \<Rightarrow> 'f \<Rightarrow> 'f \<Rightarrow> 'f" where
  "pick F q a b c d =
     (if f_equal F q (f_zero F) then a else if f_equal F q (f_one F) then b else if f_equal F q (f_two F) then c else d)"

lemma reduce_half_pi_elementwise: "reduce_half_pi F x = (map (reduced F) x, map (quadrant_of F) x)"
  by (simp add: reduce_half_pi_def Let_def reduced_def quadrant_of_def elementwise)

lemma sin_cos_series_elementwise: "sin_cos_series F r = (map (sin_part F) r, map (cos_part F) r)"
  by (simp add: sin_cos_series_def Let_def sin_part_def cos_part_def horner_series elementwise)

lemma at_quadrant_elementwise:
  "at_quadrant F (map q x) (map a x) (map b x) (map c x) (map d x) = map (\<lambda>v. pick F (q v) (a v) (b v) (c v) (d v)) x"
  by (simp add: at_quadrant_def pick_def elementwise)

lemma trig_loop_element:
  "trig_loop F cosine x = map (\<lambda>v. let s = sin_part F (reduced F v); c = cos_part F (reduced F v) in
     if cosine then pick F (quadrant_of F v) c (f_neg F s) (f_neg F c) s
     else pick F (quadrant_of F v) s c (f_neg F s) (f_neg F c)) x"
  unfolding trig_loop_def reduced_def quadrant_of_def sin_part_def cos_part_def pick_def Let_def ..

lemma trig_loop_arrays: "trig_loop F cosine x = (if cosine then cos_array F x else sin_array F x)"
  unfolding trig_loop_element cos_array_def sin_array_def reduce_half_pi_elementwise sin_cos_series_elementwise
    Let_def split_conv map_map at_quadrant_elementwise
  by (simp add: comp_def)

definition clipped :: "'f float_ops \<Rightarrow> 'f \<Rightarrow> 'f" where
  "clipped F x = py_min F (py_max F x (f_neg F (EXP_LIMIT F))) (EXP_LIMIT F)"

lemma exp_loop_array: "exp_loop F x = exp_array F x"
  unfolding exp_loop_def exp_array_def clipped_def [symmetric] Let_def
  by (simp add: horner_series elementwise)

definition log_of_parts :: "'f float_ops \<Rightarrow> 'f \<Rightarrow> 'f \<Rightarrow> 'f" where
  "log_of_parts F mantissa e =
     (let s = f_div F (f_sub F mantissa (f_one F)) (f_add F mantissa (f_one F));
          total = f_mul F (f_mul F (f_two F) s) (horner_scalar F (f_mul F s s) (ATANH_COEFFICIENTS F))
      in f_add F (f_add F total (f_mul F e (LN2_LO F))) (f_mul F e (LN2_HI F)))"

definition log_scaled :: "'f float_ops \<Rightarrow> 'f \<times> int \<Rightarrow> 'f \<times> 'f" where
  "log_scaled F p =
     (if f_less F (fst p) (sqrt_half F) then (f_mul F (fst p) (f_two F), f_of_int F (snd p - 1))
      else (fst p, f_of_int F (snd p)))"

lemma log_loop_element:
  "log_loop F x = map (\<lambda>v.
     if f_equal F v (f_zero F) then f_neg F (f_inf F)
     else if f_less F v (f_zero F) then f_nan F
     else (case log_scaled F (f_frexp F (if f_less F (f_zero F) v then v else f_one F)) of (m, e) \<Rightarrow> log_of_parts F m e)) x"
  by (simp add: log_loop_def log_of_parts_def log_scaled_def Let_def case_prod_unfold)

lemma log_array_element:
  "log_array F x = map (\<lambda>v.
     if f_less F v (f_zero F) then f_nan F
     else if f_equal F v (f_zero F) then f_neg F (f_inf F)
     else (case log_scaled F (f_own_frexp F (if f_less F (f_zero F) v then v else f_one F)) of (m, e) \<Rightarrow> log_of_parts F m e)) x"
proof -
  define parts where "parts v = f_own_frexp F (if f_less F (f_zero F) v then v else f_one F)" for v
  have split: "map (f_own_frexp F) (where3 (map (f_less F (f_zero F)) x) x (replicate (length x) (f_one F))) = map parts x"
    by (simp add: parts_def elementwise map_const_replicate)
  have mantissa: "log_mantissa F (map parts x) =
      (map (\<lambda>v. fst (log_scaled F (parts v))) x, map (\<lambda>v. snd (log_scaled F (parts v))) x)"
    by (simp add: log_mantissa_def Let_def log_scaled_def elementwise)
  have series: "log_series F (map m x) (map e x) = map (\<lambda>v. log_of_parts F (m v) (e v)) x" for m e
    by (simp add: log_series_def Let_def log_of_parts_def horner_series elementwise)
  show ?thesis
    unfolding log_array_def split Let_def mantissa split_conv series parts_def [symmetric]
    by (simp add: elementwise map_const_replicate)
qed

text \<open>
  The two forms test a zero and a negative argument in opposite orders; no number is both.
\<close>

lemma log_loop_array:
  assumes "\<And>v. f_own_frexp F v = f_frexp F v" "\<And>v. f_less F v (f_zero F) \<Longrightarrow> \<not> f_equal F v (f_zero F)"
  shows "log_loop F x = log_array F x"
  using assms by (auto simp: log_loop_element log_array_element)

text \<open>The elementary functions give the same bits on the host and on a device: whatever the float
  arithmetic is, the compiled loop a large host array takes answers what the array operations answer,
  for \<open>sin\<close>, \<open>cos\<close>, \<open>exp\<close>, \<open>expm1\<close>, \<open>tanh\<close>, and for \<open>log\<close> and \<open>pow\<close> where the module's \<open>frexp\<close> is the
  library's and no number is both negative and zero.\<close>

theorem elementary_same_on_host:
  fixes F :: "'f float_ops"
  assumes "\<And>v. f_own_frexp F v = f_frexp F v" "\<And>v. f_less F v (f_zero F) \<Longrightarrow> \<not> f_equal F v (f_zero F)"
  shows "exact_sin F xp_is_np x = exact_sin F False x \<and> exact_cos F xp_is_np x = exact_cos F False x \<and>
    exact_exp F xp_is_np x = exact_exp F False x \<and> expm1 F xp_is_np x = expm1 F False x \<and>
    exact_tanh F xp_is_np x = exact_tanh F False x \<and> exact_log F xp_is_np x = exact_log F False x \<and>
    exact_pow F xp_is_np x y = exact_pow F False x y"
proof -
  have exp: "exact_exp F b v = exact_exp F False v" for b v
    by (simp add: exact_exp_def exp_loop_array on_host_loop_def)
  have log: "exact_log F b v = exact_log F False v" for b v
    by (simp add: exact_log_def log_loop_array [OF assms] on_host_loop_def)
  have em: "expm1 F b v = expm1 F False v" for b v
    by (simp add: expm1_def Let_def exp [of b])
  have pow: "exact_pow F b v y = exact_pow F False v y" for b v y
    by (simp add: exact_pow_def exp [of b] log [of b])
  have tanh: "exact_tanh F b v = exact_tanh F False v" for b v
    by (simp add: exact_tanh_def Let_def exp [of b] em [of b])
  show ?thesis
    using exp [of xp_is_np x] log [of xp_is_np x] em [of xp_is_np x] pow [of xp_is_np x y] tanh [of xp_is_np x]
    by (simp add: exact_sin_def exact_cos_def trig_loop_arrays on_host_loop_def)
qed
text \<open>A toy arithmetic on integers that meets the two hypotheses.\<close>

definition int_ops :: "int float_ops" where
  "int_ops = \<lparr>f_add = (+), f_sub = (-), f_mul = (*), f_div = (div), f_neg = uminus, f_abs = abs, f_rint = id,
     f_floor = id, f_sqrt = id, f_less = (<), f_equal = (=), f_ldexp = (\<lambda>x e. x * 2 ^ nat e), f_int = id,
     f_of_int = id, f_literal = (\<lambda>_. 1), f_inf = 0, f_nan = 0, f_frexp = (\<lambda>x. (x, 0)), f_own_frexp = (\<lambda>x. (x, 0))\<rparr>"

lemma elementary_same_on_host_witness:
  "exact_log int_ops True (replicate 65536 8) = exact_log int_ops False (replicate 65536 8) \<and>
   trig_loop int_ops False [0, 1] = sin_array int_ops [0, 1]"
proof -
  have "exact_log int_ops True (replicate 65536 8) = exact_log int_ops False (replicate 65536 8)"
    using elementary_same_on_host [of int_ops True "replicate 65536 8" "[]"] by (simp add: int_ops_def f_zero_def)
  then show ?thesis by (simp add: trig_loop_arrays)
qed

section \<open>frexp on the bits\<close>

text \<open>
  A float64 as its 64 bits: sign, an 11-bit exponent field biased by 1023, 52 fraction bits. \<open>value\<close> is
  the number a finite pattern denotes.
\<close>

unbundle bit_operations_syntax

definition MANTISSA_BITS :: nat where "MANTISSA_BITS = 52"
definition EXPONENT_MASK :: int where "EXPONENT_MASK = 0x7FF"
definition EXPONENT_HALF :: int where "EXPONENT_HALF = 1022"
definition SUBNORMAL_SHIFT :: int where "SUBNORMAL_SHIFT = 54"

definition exponent_field :: "64 word \<Rightarrow> nat" where
  "exponent_field b = unat (drop_bit 52 b AND 0x7FF)"

definition fraction_field :: "64 word \<Rightarrow> nat" where
  "fraction_field b = unat (take_bit 52 b)"

definition float_sign :: "64 word \<Rightarrow> real" where
  "float_sign b = (if bit b 63 then - 1 else 1)"

definition float_value :: "64 word \<Rightarrow> real" where
  "float_value b =
     (if exponent_field b = 0 then float_sign b * (real (fraction_field b) / 2 ^ 52) * 2 powi (- 1022)
      else float_sign b * (1 + real (fraction_field b) / 2 ^ 52) * 2 powi (int (exponent_field b) - 1023))"

definition is_finite :: "64 word \<Rightarrow> bool" where
  "is_finite b \<longleftrightarrow> exponent_field b \<noteq> 0x7FF"

text \<open>
  \<open>frexp\<close> of one element. \<open>scale\<close> is the multiplication by \<open>2**54\<close> a subnormal goes through. The shift of
  the \<open>int64\<close> view is arithmetic; the mask drops what it brings in above the exponent field.
\<close>

definition frexp_bits :: "(64 word \<Rightarrow> 64 word) \<Rightarrow> 64 word \<Rightarrow> 64 word \<times> int" where
  "frexp_bits scale b =
     (let special = (float_value b = 0 \<and> is_finite b) \<or> \<not> is_finite b;
          subnormal = \<not> special \<and> \<bar>float_value b\<bar> < 2 powi (- 1022);
          bits = (if subnormal then scale b else b);
          exponent = sint (signed_drop_bit MANTISSA_BITS bits AND word_of_int EXPONENT_MASK) - EXPONENT_HALF;
          exponent = (if subnormal then exponent - SUBNORMAL_SHIFT else exponent);
          mantissa = (bits AND NOT (push_bit MANTISSA_BITS (word_of_int EXPONENT_MASK)))
            OR push_bit MANTISSA_BITS (word_of_int EXPONENT_HALF)
      in if special then (b, 0) else (mantissa, exponent))"

lemma bit_exponent_mask: "bit (0x7FF :: 64 word) n \<longleftrightarrow> n < 11"
proof -
  have "(0x7FF :: 64 word) = mask 11" by (simp add: mask_eq_exp_minus_1)
  then show ?thesis by (auto simp only: bit_mask_iff) simp
qed

lemma bit_exponent_half: "bit (0x3FE :: 64 word) n \<longleftrightarrow> 1 \<le> n \<and> n < 10"
proof -
  have "(0x3FE :: 64 word) = push_bit 1 (mask 9)" by (simp add: mask_eq_exp_minus_1)
  then show ?thesis by (auto simp only: bit_mask_iff bit_push_bit_iff) auto
qed

lemmas word_bits = bit_or_iff bit_and_iff bit_not_iff bit_drop_bit_eq bit_push_bit_iff bit_take_bit_iff
  bit_exponent_mask bit_exponent_half comp_def possible_bit_word

lemma sint_exponent: "sint (signed_drop_bit 52 b AND (0x7FF :: 64 word)) = int (exponent_field b)"
proof -
  have mask: "(0x7FF :: 64 word) = mask 11" by (simp add: mask_eq_exp_minus_1)
  let ?w = "drop_bit 52 b AND (0x7FF :: 64 word)"
  have arith: "signed_drop_bit 52 b AND (0x7FF :: 64 word) = ?w"
    unfolding mask by (rule bit_word_eqI) (auto simp: bit_simps)
  have "?w = take_bit 11 (drop_bit 52 b)" unfolding mask by (simp only: take_bit_eq_mask)
  then have "uint ?w = take_bit 11 (uint (drop_bit 52 b))" by (simp only: unsigned_take_bit_eq)
  then have small: "0 \<le> uint ?w" "uint ?w < 2 ^ 11" by (simp_all only: take_bit_nonnegative take_bit_int_less_exp)
  have "- (2 ^ 63) \<le> (0::int)" "(2::int) ^ 11 \<le> 2 ^ 63" by simp_all
  with small have "- (2 ^ 63) \<le> uint ?w" "uint ?w < 2 ^ 63" by (blast intro: order_trans order_less_le_trans)+
  then have "signed_take_bit 63 (uint ?w) = uint ?w"
    by (rule signed_take_bit_int_eq_self)
  then show ?thesis unfolding arith exponent_field_def by (simp add: sint_uint)
qed

definition half_scaled :: "64 word \<Rightarrow> 64 word" where
  "half_scaled b = (b AND NOT (push_bit 52 0x7FF)) OR push_bit 52 0x3FE"

lemma half_scaled_fields:
  "exponent_field (half_scaled b) = 1022" "fraction_field (half_scaled b) = fraction_field b"
  "float_sign (half_scaled b) = float_sign b"
proof -
  have "drop_bit 52 (half_scaled b) AND 0x7FF = (0x3FE :: 64 word)"
    unfolding half_scaled_def by (rule bit_word_eqI) (auto simp only: word_bits, simp_all)
  then show "exponent_field (half_scaled b) = 1022" by (simp add: exponent_field_def)
  have "take_bit 52 (half_scaled b) = take_bit 52 b"
    unfolding half_scaled_def by (rule bit_word_eqI) (auto simp only: word_bits)
  then show "fraction_field (half_scaled b) = fraction_field b" by (simp add: fraction_field_def)
  show "float_sign (half_scaled b) = float_sign b"
    unfolding float_sign_def half_scaled_def by (simp add: bit_simps)
qed

lemma fraction_bounds: "real (fraction_field b) / 2 ^ 52 < 1"
proof -
  have "fraction_field b < 2 ^ 52"
    unfolding fraction_field_def unsigned_take_bit_eq by (rule take_bit_nat_less_exp)
  then have "real (fraction_field b) < real (2 ^ 52)" by (rule less_imp_of_nat_less)
  then have "real (fraction_field b) < 2 ^ 52" by (simp only: of_nat_power of_nat_numeral)
  then show ?thesis by (simp only: divide_less_eq_1_pos zero_less_power zero_less_numeral)
qed

lemma half_scaled_value:
  assumes "exponent_field b \<noteq> 0"
  shows "float_value (half_scaled b) * 2 powi (int (exponent_field b) - 1022) = float_value b"
    and "1 / 2 \<le> \<bar>float_value (half_scaled b)\<bar>" "\<bar>float_value (half_scaled b)\<bar> < 1"
proof -
  have half: "float_value (half_scaled b) = float_sign b * (1 + real (fraction_field b) / 2 ^ 52) / 2"
    by (simp add: float_value_def half_scaled_fields)
  have "(2::real) powi (int (exponent_field b) - 1022) = 2 * 2 powi (int (exponent_field b) - 1023)"
    using power_int_add_1 [of "2::real" "int (exponent_field b) - 1023"] by simp
  with assms half show "float_value (half_scaled b) * 2 powi (int (exponent_field b) - 1022) = float_value b"
    by (simp add: float_value_def)
  show "1 / 2 \<le> \<bar>float_value (half_scaled b)\<bar>" "\<bar>float_value (half_scaled b)\<bar> < 1"
    using fraction_bounds [of b] by (auto simp: half float_sign_def abs_mult)
qed

lemma normal_large:
  assumes "exponent_field b \<noteq> 0"
  shows "2 powi (- 1022) \<le> \<bar>float_value b\<bar>"
proof -
  have "(2::real) powi (- 1022) \<le> 2 powi (int (exponent_field b) - 1023)"
    using assms by (intro power_int_increasing) auto
  also have "\<dots> \<le> (1 + real (fraction_field b) / 2 ^ 52) * 2 powi (int (exponent_field b) - 1023)"
    by (simp add: mult_le_cancel_right1 distrib_right)
  finally show ?thesis
    using assms by (simp add: float_value_def float_sign_def abs_mult)
qed

lemma subnormal_small: "exponent_field b = 0 \<Longrightarrow> \<bar>float_value b\<bar> < 2 powi (- 1022)"
  using fraction_bounds [of b] by (simp add: float_value_def float_sign_def abs_mult)



end
