(* ===== verification/Request_Gate.thy ===== *)
theory Request_Gate
  imports Prelude
begin

text \<open>
  What a submission may ask the judge for (\<open>harness/requests_api.py\<close>, \<open>with_task_grid\<close> of
  \<open>harness/service.py\<close>): the capabilities a setup allows, what the agent tools of a task offer, the gate
  that refuses a request, and the precisions a cast may name. Requests are relayout's, a package outside
  the repository: only what the code reads of them is modelled, an operation's action and its cast target.
\<close>

section \<open>Requests\<close>

text \<open>\<open>relayout.ops.Action\<close>: the members the code names.\<close>

datatype action =
    CAST | FORMAT | BLOCK | UNBLOCK | SPLIT | UNSPLIT | PERMUTE | PAD | UNPAD | SHUFFLE | LINEAR_SHUFFLE
  | ZIP | UNZIP | DISTRIBUTE | REPLICATE | PLACE

type_synonym precision = string

record operation =
  op_action :: action
  op_array :: string
  op_to :: precision

record request =
  startup_load :: "string list"
  startup_grid :: "string list option"
  operations :: "operation list"

definition distributed :: "request \<Rightarrow> bool" where
  "distributed r \<longleftrightarrow> startup_grid r \<noteq> None"

definition asks_nothing :: "request \<Rightarrow> bool" where
  "asks_nothing r \<longleftrightarrow> startup_load r = [] \<and> startup_grid r = None \<and> operations r = []"

text \<open>\<open>Requests.of\<close>: the single-node request of libraries, casts and sparse formats.\<close>

definition request_of :: "string list \<Rightarrow> (string, precision) dict \<Rightarrow> (string, string) dict \<Rightarrow> request" where
  "request_of libraries precision sparse =
     \<lparr>startup_load = libraries, startup_grid = None,
      operations =
        map (\<lambda>(name, p). \<lparr>op_action = CAST, op_array = name, op_to = p\<rparr>) precision @
        map (\<lambda>(name, label). \<lparr>op_action = FORMAT, op_array = name, op_to = label\<rparr>) sparse\<rparr>"

definition SINGLE_NODE_LAYOUT_ACTIONS :: "action list" where
  "SINGLE_NODE_LAYOUT_ACTIONS = [BLOCK, UNBLOCK, SPLIT, UNSPLIT, PERMUTE, PAD, UNPAD, SHUFFLE, LINEAR_SHUFFLE]"

definition REGROUP_ACTIONS :: "action list" where
  "REGROUP_ACTIONS = [ZIP, UNZIP]"

definition DISTRIBUTED_ACTIONS :: "action list" where
  "DISTRIBUTED_ACTIONS = SINGLE_NODE_LAYOUT_ACTIONS @ [DISTRIBUTE, REPLICATE]"

text \<open>\<open>isinstance(op, DigitOperation)\<close>: every digit operation, \<open>Distribute\<close> included.\<close>

definition digit_operation :: "operation \<Rightarrow> bool" where
  "digit_operation op \<longleftrightarrow> op_action op \<in> set (SINGLE_NODE_LAYOUT_ACTIONS @ [DISTRIBUTE])"

section \<open>Capabilities and offers\<close>

datatype capability = C_LOAD | C_CAST | C_LAYOUT | C_SPARSE_FORMAT | C_PLACE | C_DISTRIBUTE

datatype grid_chooser = AGENT | TASK

record request_actions =
  ra_load :: bool
  ra_distributed :: bool
  ra_grid :: bool
  ra_place :: bool
  ra_casts :: "precision list"
  ra_layouts :: bool
  ra_formats :: bool

definition offered_startup :: "request_actions \<Rightarrow> string list" where
  "offered_startup a =
     (if ra_load a then [''load''] else []) @ (if ra_distributed a \<and> ra_grid a then [''grid''] else [])"

text \<open>\<open>schema_order\<close> is the order of relayout's \<open>Action\<close>.\<close>

definition offered_operations :: "action list \<Rightarrow> request_actions \<Rightarrow> action list" where
  "offered_operations schema_order a =
     (let groups =
        [([CAST], ra_casts a \<noteq> []), ([FORMAT], ra_formats a),
         (SINGLE_NODE_LAYOUT_ACTIONS @ REGROUP_ACTIONS, ra_layouts a),
         (DISTRIBUTED_ACTIONS, ra_distributed a), ([PLACE], ra_place a)];
          offered = concat (map fst (filter snd groups))
      in filter (\<lambda>action. action \<in> set offered) schema_order)"

definition wire :: "action list \<Rightarrow> (action \<Rightarrow> string) \<Rightarrow> request_actions \<Rightarrow> (string, string list) dict" where
  "wire schema_order text a =
     [(''startup'', offered_startup a), (''operations'', map text (offered_operations schema_order a)),
      (''cast_to'', ra_casts a)]"

record allowances =
  allow :: "capability set"
  precisions :: "precision list"
  grid_by :: grid_chooser

definition allows :: "allowances \<Rightarrow> capability \<Rightarrow> bool" where
  "allows A c \<longleftrightarrow> c \<in> allow A"

definition actions :: "allowances \<Rightarrow> bool \<Rightarrow> bool \<Rightarrow> bool \<Rightarrow> bool \<Rightarrow> request_actions" where
  "actions A dist castable layable sparse =
     \<lparr>ra_load = allows A C_LOAD,
      ra_distributed = dist \<and> allows A C_DISTRIBUTE,
      ra_grid = (grid_by A = AGENT),
      ra_place = dist \<and> allows A C_PLACE,
      ra_casts = (if castable \<and> allows A C_CAST then precisions A else []),
      ra_layouts = layable \<and> allows A C_LAYOUT,
      ra_formats = sparse \<and> allows A C_SPARSE_FORMAT\<rparr>"

section \<open>The gate\<close>

datatype refusal_reason =
    No_library | No_distribution | No_placement | No_cast | Cast_outside precision | No_layout | No_format
  | Drop_grid

definition uses :: "request \<Rightarrow> action list \<Rightarrow> bool" where
  "uses r acts \<longleftrightarrow> list_ex (\<lambda>op. op_action op \<in> set acts) (operations r)"

definition laid :: "request \<Rightarrow> bool" where
  "laid r \<longleftrightarrow> list_ex (\<lambda>op. op_action op \<in> {ZIP, UNZIP} \<or>
     (digit_operation op \<and> op_action op \<noteq> DISTRIBUTE \<and> \<not> distributed r)) (operations r)"

definition request_refusal :: "allowances \<Rightarrow> request \<Rightarrow> refusal_reason option" where
  "request_refusal A r =
     (let casts = filter (\<lambda>op. op_action op = CAST) (operations r) in
      if startup_load r \<noteq> [] \<and> \<not> allows A C_LOAD then Some No_library
      else if (distributed r \<or> uses r [DISTRIBUTE, REPLICATE]) \<and> \<not> allows A C_DISTRIBUTE then Some No_distribution
      else if uses r [PLACE] \<and> \<not> allows A C_PLACE then Some No_placement
      else if casts \<noteq> [] \<and> \<not> allows A C_CAST then Some No_cast
      else (case find (\<lambda>op. op_to op \<notin> set (precisions A)) casts of
              Some op \<Rightarrow> Some (Cast_outside (op_to op))
            | None \<Rightarrow>
                if laid r \<and> \<not> allows A C_LAYOUT then Some No_layout
                else if uses r [FORMAT] \<and> \<not> allows A C_SPARSE_FORMAT then Some No_format
                else None))"

text \<open>\<open>with_task_grid\<close>: a distributed grade of a setup that sets the grid takes the task's.\<close>

definition with_task_grid :: "allowances \<Rightarrow> bool \<Rightarrow> string list option \<Rightarrow> request \<Rightarrow> refusal_reason + request" where
  "with_task_grid A task_distributed default_grid r =
     (if \<not> task_distributed \<or> grid_by A \<noteq> TASK then Inr r
      else if distributed r then Inl Drop_grid
      else Inr (r\<lparr>startup_grid := default_grid\<rparr>))"

text \<open>The route: the task's grid first, then the refusals of the setup.\<close>

definition request_gate :: "allowances \<Rightarrow> bool \<Rightarrow> string list option \<Rightarrow> request \<Rightarrow> refusal_reason option" where
  "request_gate A task_distributed default_grid r =
     (case with_task_grid A task_distributed default_grid r of
        Inl reason \<Rightarrow> Some reason
      | Inr r' \<Rightarrow> request_refusal A r')"

section \<open>What is offered is what is allowed\<close>

definition all_actions :: "action list \<Rightarrow> bool" where
  "all_actions schema_order \<longleftrightarrow> (\<forall>action. action \<in> set schema_order)"

text \<open>A request within an offer: every member it uses is one the tools show.\<close>

definition within_offer :: "action list \<Rightarrow> request_actions \<Rightarrow> request \<Rightarrow> bool" where
  "within_offer schema_order a r \<longleftrightarrow>
     (startup_load r \<noteq> [] \<longrightarrow> ''load'' \<in> set (offered_startup a)) \<and>
     (distributed r \<longrightarrow> ''grid'' \<in> set (offered_startup a)) \<and>
     list_all (\<lambda>op. op_action op \<in> set (offered_operations schema_order a) \<and>
       (op_action op = CAST \<longrightarrow> op_to op \<in> set (ra_casts a))) (operations r)"

lemma in_switched_groups:
  "x \<in> set (concat (map fst (filter snd gs))) \<longleftrightarrow> list_ex (\<lambda>(xs, on). on \<and> x \<in> set xs) gs"
  by (induction gs) auto

lemma offered_operations_iff:
  "all_actions order \<Longrightarrow> action \<in> set (offered_operations order a) \<longleftrightarrow>
     action = CAST \<and> ra_casts a \<noteq> [] \<or> action = FORMAT \<and> ra_formats a \<or>
     action \<in> set SINGLE_NODE_LAYOUT_ACTIONS \<and> (ra_layouts a \<or> ra_distributed a) \<or>
     action \<in> {ZIP, UNZIP} \<and> ra_layouts a \<or>
     action \<in> {DISTRIBUTE, REPLICATE} \<and> ra_distributed a \<or> action = PLACE \<and> ra_place a"
  unfolding offered_operations_def Let_def in_switched_groups
  by (cases action)
    (simp_all add: all_actions_def DISTRIBUTED_ACTIONS_def REGROUP_ACTIONS_def SINGLE_NODE_LAYOUT_ACTIONS_def)

lemma startup_iff:
  "''load'' \<in> set (offered_startup a) \<longleftrightarrow> ra_load a"
  "''grid'' \<in> set (offered_startup a) \<longleftrightarrow> ra_distributed a \<and> ra_grid a"
  by (simp_all add: offered_startup_def)

lemma uses_iff: "uses r acts \<longleftrightarrow> (\<exists>op \<in> set (operations r). op_action op \<in> set acts)"
  by (simp add: uses_def list_ex_iff)

lemma laid_iff:
  "laid r \<longleftrightarrow> (\<exists>op \<in> set (operations r). op_action op \<in> {ZIP, UNZIP} \<or>
     op_action op \<in> set SINGLE_NODE_LAYOUT_ACTIONS \<and> \<not> distributed r)"
proof -
  have "digit_operation op \<and> op_action op \<noteq> DISTRIBUTE \<longleftrightarrow> op_action op \<in> set SINGLE_NODE_LAYOUT_ACTIONS" for op
    by (cases "op_action op") (simp_all add: digit_operation_def SINGLE_NODE_LAYOUT_ACTIONS_def)
  then show ?thesis
    unfolding laid_def list_ex_iff by blast
qed

lemma within_offerD:
  assumes "within_offer order a r" "all_actions order" "op \<in> set (operations r)"
  shows "op_action op \<in> set (offered_operations order a)" "op_action op = CAST \<Longrightarrow> op_to op \<in> set (ra_casts a)"
  using assms by (auto simp: within_offer_def list_all_iff)

text \<open>The refusals, one by one.\<close>

lemma refuse_unless: "(if c then Some x else rest) = None \<longleftrightarrow> \<not> c \<and> rest = None"
  by simp

lemma refuse_found: "(case found of Some y \<Rightarrow> Some (f y) | None \<Rightarrow> rest) = None \<longleftrightarrow> found = None \<and> rest = None"
  by (simp split: option.split)

lemma refusal_None_iff:
  "request_refusal A r = None \<longleftrightarrow>
     (startup_load r \<noteq> [] \<longrightarrow> allows A C_LOAD) \<and>
     (distributed r \<or> uses r [DISTRIBUTE, REPLICATE] \<longrightarrow> allows A C_DISTRIBUTE) \<and>
     (uses r [PLACE] \<longrightarrow> allows A C_PLACE) \<and>
     (\<forall>op \<in> set (operations r). op_action op = CAST \<longrightarrow> allows A C_CAST \<and> op_to op \<in> set (precisions A)) \<and>
     (laid r \<longrightarrow> allows A C_LAYOUT) \<and> (uses r [FORMAT] \<longrightarrow> allows A C_SPARSE_FORMAT)"
proof -
  have cast: "find (\<lambda>op. op_to op \<notin> set (precisions A)) (filter (\<lambda>op. op_action op = CAST) (operations r)) = None \<longleftrightarrow>
      (\<forall>op \<in> set (operations r). op_action op = CAST \<longrightarrow> op_to op \<in> set (precisions A))"
    by (auto simp: find_None_iff)
  have none: "filter (\<lambda>op. op_action op = CAST) (operations r) \<noteq> [] \<longleftrightarrow> (\<exists>op \<in> set (operations r). op_action op = CAST)"
    by (auto simp: filter_empty_conv)
  have both: "(\<forall>op \<in> set (operations r). op_action op = CAST \<longrightarrow> allows A C_CAST \<and> op_to op \<in> set (precisions A)) \<longleftrightarrow>
      ((\<exists>op \<in> set (operations r). op_action op = CAST) \<longrightarrow> allows A C_CAST) \<and>
      (\<forall>op \<in> set (operations r). op_action op = CAST \<longrightarrow> op_to op \<in> set (precisions A))"
    by blast
  show ?thesis
    unfolding request_refusal_def Let_def none both cast [symmetric]
    unfolding refuse_unless refuse_found by blast
qed

text \<open>A task of which everything the setup allows can be offered.\<close>

definition gridded :: "allowances \<Rightarrow> bool \<Rightarrow> request \<Rightarrow> bool" where
  "gridded A task_distributed r \<longleftrightarrow> distributed r \<or> (task_distributed \<and> grid_by A = TASK)"

lemma gate_within_offer:
  assumes order: "all_actions order"
    and offer: "within_offer order (actions A dist castable layable sparse) r"
    and grid: "dist \<Longrightarrow> grid_by A = TASK \<Longrightarrow> default_grid \<noteq> None \<and> \<not> distributed r"
    and layout: "\<exists>op \<in> set (operations r). op_action op \<in> set SINGLE_NODE_LAYOUT_ACTIONS \<Longrightarrow>
      gridded A dist r \<or> layable \<and> allows A C_LAYOUT"
    and task: "dist \<Longrightarrow> grid_by A = TASK \<Longrightarrow> allows A C_DISTRIBUTE"
  shows "request_gate A dist default_grid r = None"
proof -
  let ?a = "actions A dist castable layable sparse"
  note offered = within_offerD [OF offer order, unfolded offered_operations_iff [OF order]]
  obtain r' where r': "with_task_grid A dist default_grid r = Inr r'" "operations r' = operations r"
      "startup_load r' = startup_load r" "distributed r' \<longleftrightarrow> gridded A dist r"
    using grid by (cases "dist \<and> grid_by A = TASK")
      (auto simp: with_task_grid_def distributed_def gridded_def)
  have "request_refusal A r' = None"
    unfolding refusal_None_iff
  proof (intro conjI impI)
    show "allows A C_LOAD" if "startup_load r' \<noteq> []"
      using offer that r'(3) by (simp add: within_offer_def startup_iff actions_def)
    show "allows A C_DISTRIBUTE" if "distributed r' \<or> uses r' [DISTRIBUTE, REPLICATE]"
      using that
    proof
      assume "distributed r'"
      with r'(4) consider "distributed r" | "dist" "grid_by A = TASK" by (auto simp: gridded_def)
      then show ?thesis
        using offer task by cases (auto simp: within_offer_def startup_iff actions_def)
    next
      assume "uses r' [DISTRIBUTE, REPLICATE]"
      then obtain op where "op \<in> set (operations r)" "op_action op = DISTRIBUTE \<or> op_action op = REPLICATE"
        by (auto simp: uses_iff r'(2))
      with offered(1) [of op] show ?thesis
        by (auto simp: actions_def SINGLE_NODE_LAYOUT_ACTIONS_def)
    qed
    show "allows A C_PLACE" if "uses r' [PLACE]"
    proof -
      from that obtain op where "op \<in> set (operations r)" "op_action op = PLACE" by (auto simp: uses_iff r'(2))
      with offered(1) [of op] show ?thesis by (auto simp: actions_def SINGLE_NODE_LAYOUT_ACTIONS_def)
    qed
    show "allows A C_SPARSE_FORMAT" if "uses r' [FORMAT]"
    proof -
      from that obtain op where "op \<in> set (operations r)" "op_action op = FORMAT" by (auto simp: uses_iff r'(2))
      with offered(1) [of op] show ?thesis by (auto simp: actions_def SINGLE_NODE_LAYOUT_ACTIONS_def)
    qed
    show "allows A C_LAYOUT" if "laid r'"
    proof -
      from that obtain op where op: "op \<in> set (operations r)"
          "op_action op \<in> {ZIP, UNZIP} \<or> op_action op \<in> set SINGLE_NODE_LAYOUT_ACTIONS \<and> \<not> gridded A dist r"
        unfolding laid_iff r'(2,4) by blast
      from op(2) show ?thesis
      proof
        assume "op_action op \<in> {ZIP, UNZIP}"
        with offered(1) [OF op(1)] show ?thesis by (auto simp: actions_def SINGLE_NODE_LAYOUT_ACTIONS_def)
      next
        assume "op_action op \<in> set SINGLE_NODE_LAYOUT_ACTIONS \<and> \<not> gridded A dist r"
        with layout op(1) show ?thesis by blast
      qed
    qed
    show "\<forall>op \<in> set (operations r'). op_action op = CAST \<longrightarrow> allows A C_CAST \<and> op_to op \<in> set (precisions A)"
    proof (intro ballI impI)
      fix op
      assume "op \<in> set (operations r')" "op_action op = CAST"
      with offered [of op] r'(2) show "allows A C_CAST \<and> op_to op \<in> set (precisions A)"
        by (auto simp: actions_def split: if_splits)
    qed
  qed
  with r'(1) show ?thesis by (simp add: request_gate_def)
qed


definition member_order :: "action list" where
  "member_order = [CAST, FORMAT, BLOCK, UNBLOCK, SPLIT, UNSPLIT, PERMUTE, PAD, UNPAD, SHUFFLE, LINEAR_SHUFFLE,
     ZIP, UNZIP, DISTRIBUTE, REPLICATE, PLACE]"

lemma all_member_order: "all_actions member_order"
  unfolding all_actions_def
proof
  fix a
  show "a \<in> set member_order" by (cases a) (simp_all add: member_order_def)
qed

definition scaling_setup :: allowances where
  "scaling_setup = \<lparr>allow = {C_LOAD, C_DISTRIBUTE}, precisions = [], grid_by = AGENT\<rparr>"

definition scaling_request :: request where
  "scaling_request = \<lparr>startup_load = [''openblas''], startup_grid = Some [''P''],
     operations = [\<lparr>op_action = SPLIT, op_array = ''A'', op_to = []\<rparr>, \<lparr>op_action = DISTRIBUTE, op_array = ''A'', op_to = []\<rparr>]\<rparr>"


text \<open>And what the gate accepts is offered: on a distributed task with dense floating and sparse arrays
  whose grid the agent sets, an accepted request names only members \<open>actions\<close> offers. The offer and the
  gate state one set.\<close>

theorem accepted_is_offered:
  assumes "all_actions order" "grid_by A = AGENT" "request_gate A True default_grid r = None"
  shows "within_offer order (actions A True True True True) r"
proof -
  have ok: "request_refusal A r = None"
    using assms(2,3) by (simp add: request_gate_def with_task_grid_def)
  note parts = ok [unfolded refusal_None_iff]
  have "op_action op \<in> set (offered_operations order (actions A True True True True)) \<and>
      (op_action op = CAST \<longrightarrow> op_to op \<in> set (ra_casts (actions A True True True True)))"
    if op: "op \<in> set (operations r)" for op
  proof -
    have laid: "op_action op \<in> set SINGLE_NODE_LAYOUT_ACTIONS \<Longrightarrow> allows A C_LAYOUT \<or> allows A C_DISTRIBUTE"
      "op_action op \<in> {ZIP, UNZIP} \<Longrightarrow> allows A C_LAYOUT"
      using parts op unfolding laid_iff by blast+
    have used: "op_action op \<in> set acts \<Longrightarrow> uses r acts" for acts
      using op by (auto simp: uses_iff)
    show ?thesis
      unfolding offered_operations_iff [OF assms(1)]
      using parts op laid used [of "[DISTRIBUTE, REPLICATE]"] used [of "[PLACE]"] used [of "[FORMAT]"] assms(2)
      by (cases "op_action op") (auto simp: actions_def SINGLE_NODE_LAYOUT_ACTIONS_def)
  qed
  then show ?thesis
    using parts assms(2) by (simp add: within_offer_def list_all_iff startup_iff) (simp add: actions_def)
qed

lemma accepted_is_offered_witness:
  "within_offer member_order (actions scaling_setup True True True True) scaling_request"
  by (rule accepted_is_offered [OF all_member_order])
    (simp_all add: scaling_setup_def scaling_request_def request_gate_def with_task_grid_def refusal_None_iff uses_def
      laid_def digit_operation_def distributed_def allows_def)

end
