(* ===== verification/Owed.thy ===== *)
theory Owed
  imports Prelude Complex_Main
begin

text \<open>
  Which runs a setup still owes (\<open>results/owed.py\<close>, with \<open>judge_shards\<close> of \<open>merge_results.py\<close>,
  \<open>kernel_stem\<close> of \<open>kernel_key.py\<close> and \<open>slot_of\<close> of \<open>recording.py\<close>): what a job delivered, what a final
  grade found changed, how the last episode ended, the classes of the owed runs, and the
  run listings.
\<close>

section \<open>Runs and their lines\<close>

record run =
  r_kernel :: string
  r_slot :: int

definition run_line :: "run \<Rightarrow> string" where
  "run_line r = (if r_slot r = 1 then r_kernel r else r_kernel r @ CHR '' '' # int_text (r_slot r))"

definition parse_run :: "string \<Rightarrow> run res" where
  "parse_run line =
     (case py_partition (CHR '' '') (py_strip line) of
        (name, slot) \<Rightarrow>
          (case slot of
             None \<Rightarrow> Inr \<lparr>r_kernel = name, r_slot = 1\<rparr>
           | Some s \<Rightarrow>
               if s = [] then Inr \<lparr>r_kernel = name, r_slot = 1\<rparr>
               else bindE (py_int s) (\<lambda>n. Inr \<lparr>r_kernel = name, r_slot = n\<rparr>)))"

definition kernel_stem :: "string \<Rightarrow> string" where
  "kernel_stem key = rev (takeWhile (\<lambda>c. c \<noteq> CHR ''/'') (rev key))"

text \<open>\<open>ProblemLine\<close> as far as the module reads it.\<close>

record problem =
  p_kernel :: string
  p_slot :: "int option"

definition problem_run :: "problem \<Rightarrow> run" where
  "problem_run p =
     \<lparr>r_kernel = kernel_stem (p_kernel p),
      r_slot = (case p_slot p of Some s \<Rightarrow> if s = 0 then 1 else s | None \<Rightarrow> 1)\<rparr>"

section \<open>What a job recorded\<close>

text \<open>A results DB: its \<open>grades\<close>, \<open>episodes\<close> and \<open>disqualifications\<close> tables, as far as the queries read them.\<close>

record grade =
  g_id :: int
  g_episode :: int
  g_kernel :: string
  g_kind :: string
  g_ts_ms :: int
  g_speedup :: rat
  g_reason :: string
  g_of_grade :: "int option"

record episode =
  e_id :: int
  e_label :: string
  e_setup :: string
  e_slot :: int

record database =
  db_grades :: "grade list"
  db_episodes :: "episode list"
  db_disqualified :: "int list"

text \<open>An episode record (\<open>tokens.json\<close>) with its file's mtime in milliseconds and whether the driver's
  \<open>cancelled\<close> marker lies beside it.\<close>

record episode_record =
  er_kernel :: "string option"
  er_episode_id :: string
  er_returncode :: "int option"
  er_final_start :: "int option"

record record_file =
  rf_record :: "episode_record option"
  rf_mtime_ms :: int
  rf_cancelled :: bool

text \<open>A job directory: its name, its shards in rank order, its records, and what it was launched with.\<close>

record job_dir =
  j_name :: string
  j_shards :: "database list"
  j_records :: "record_file list"
  j_env :: "string list option"
  j_files :: "string \<Rightarrow> problem list option"

text \<open>\<open>Job\<close>: a job directory and the setup it recorded.\<close>

record job =
  job_path :: job_dir
  job_identity :: string

definition SUBMIT_KINDS :: "string list" where
  "SUBMIT_KINDS = [''submit'', ''promoted'', ''harvested'', ''probe'']"

definition ADHOC_EPISODE_ID :: string where "ADHOC_EPISODE_ID = ''adhoc''"
definition TASK_CHANGED_PREFIX :: string where "TASK_CHANGED_PREFIX = ''task: ''"
definition RERUN_PREFIXES :: "string list" where "RERUN_PREFIXES = [''infra: '', ''budget: '', TASK_CHANGED_PREFIX]"
definition HARNESS_FAULT_REASON :: string where "HARNESS_FAULT_REASON = ''score_error''"

text \<open>SQL's \<open>like 'prefix%'\<close> of a prefix without wildcards: case-insensitive for ASCII letters.\<close>

definition lower :: "char \<Rightarrow> char" where
  "lower c = (let n = (of_char c :: nat) in if 65 \<le> n \<and> n \<le> 90 then char_of (n + 32) else c)"

definition like_prefix :: "string \<Rightarrow> string \<Rightarrow> bool" where
  "like_prefix prefix s \<longleftrightarrow> starts_with_text (map lower s) (map lower prefix)"

definition episode_of :: "database \<Rightarrow> grade \<Rightarrow> episode list" where
  "episode_of db g = filter (\<lambda>e. e_id e = g_episode g) (db_episodes db)"

text \<open>The \<open>where\<close> clause of \<open>delivered_at\<close>, and the rows of one shard: one per kernel and slot, with the
  newest time stamp.\<close>

definition counts :: "database \<Rightarrow> grade \<Rightarrow> episode \<Rightarrow> bool" where
  "counts db g e \<longleftrightarrow>
     e_label e \<noteq> ADHOC_EPISODE_ID \<and> g_kind g \<in> set SUBMIT_KINDS \<and>
     (g_speedup g \<noteq> 0 \<or>
      g_reason g \<noteq> [] \<and> g_reason g \<noteq> HARNESS_FAULT_REASON \<and>
      list_all (\<lambda>p. \<not> like_prefix p (g_reason g)) RERUN_PREFIXES) \<and>
     g_id g \<notin> set (db_disqualified db)"

definition counted_rows :: "database \<Rightarrow> (run \<times> int) list" where
  "counted_rows db =
     concat (map (\<lambda>g. map (\<lambda>e. (\<lparr>r_kernel = g_kernel g, r_slot = e_slot e\<rparr>, g_ts_ms g))
       (filter (counts db g) (episode_of db g))) (db_grades db))"

definition max_into :: "(run, int) dict \<Rightarrow> run \<times> int \<Rightarrow> (run, int) dict" where
  "max_into d row = (case row of (r, ts) \<Rightarrow>
     dict_set r (case map_of d r of Some old \<Rightarrow> max old ts | None \<Rightarrow> ts) d)"

definition shard_delivered :: "database \<Rightarrow> (run, int) dict" where
  "shard_delivered db = foldl max_into [] (counted_rows db)"

text \<open>\<open>delivered_at\<close>: the rows of every shard in a dict comprehension, so a later shard's row of a run
  replaces an earlier one's.\<close>

definition delivered_at :: "job_dir \<Rightarrow> (run, int) dict" where
  "delivered_at j = foldl (\<lambda>d (r, ts). dict_set r ts d) [] (concat (map shard_delivered (j_shards j)))"

definition delivered :: "job_dir \<Rightarrow> run set" where
  "delivered j = set (keys (delivered_at j))"

text \<open>\<open>task_changed\<close>: the final grades of every DB, joined to the submission they re-timed.\<close>

definition changed_rows :: "database \<Rightarrow> (string \<times> run \<times> int) list" where
  "changed_rows db =
     concat (map (\<lambda>f.
       if g_kind f = ''final'' \<and> like_prefix TASK_CHANGED_PREFIX (g_reason f) then
         concat (map (\<lambda>g. map (\<lambda>e. (e_setup e, \<lparr>r_kernel = g_kernel g, r_slot = e_slot e\<rparr>, g_ts_ms g))
           (filter (\<lambda>e. e_label e \<noteq> ADHOC_EPISODE_ID) (episode_of db g)))
           (filter (\<lambda>g. Some (g_id g) = g_of_grade f) (db_grades db)))
       else []) (db_grades db))"

definition task_changed :: "database list \<Rightarrow> string \<Rightarrow> (run, int) dict" where
  "task_changed dbs setup =
     foldl (\<lambda>d (found, r, ts).
       if found = setup then dict_set r (max (case map_of d r of Some old \<Rightarrow> old | None \<Rightarrow> 0) ts) d else d)
       [] (concat (map changed_rows dbs))"

section \<open>How a run ended\<close>

datatype owed_class = BUDGET | INFRA | TASK

definition BUDGET_RETURNCODES :: "int list" where "BUDGET_RETURNCODES = [124, 125]"

text \<open>\<open>slot_of\<close>: the \<open>.s<slot>\<close> an episode label ends in, after \<open>.n<node>.p<problem>.w<worker>\<close>.\<close>

definition tagged :: "char \<Rightarrow> string \<Rightarrow> bool" where
  "tagged c piece \<longleftrightarrow> piece \<noteq> [] \<and> hd piece = c \<and> tl piece \<noteq> [] \<and> list_all py_digit (tl piece)"

definition slot_of :: "string \<Rightarrow> int" where
  "slot_of episode_id =
     (case rev (split_on (CHR ''.'') episode_id) of
        s # w # p # n # setup \<Rightarrow>
          if tagged (CHR ''s'') s \<and> tagged (CHR ''w'') w \<and> tagged (CHR ''p'') p \<and> tagged (CHR ''n'') n \<and>
             setup \<noteq> [] \<and> setup \<noteq> [[]] \<and> CHR 0x0A \<notin> set (concat setup)
          then int (nat_text (tl s)) else 1
      | _ \<Rightarrow> 1)"

definition ended_in_budget :: "record_file \<Rightarrow> episode_record \<Rightarrow> bool" where
  "ended_in_budget f r \<longleftrightarrow>
     (case er_returncode r of Some rc \<Rightarrow> rc \<in> set BUDGET_RETURNCODES | None \<Rightarrow> False) \<and> \<not> rf_cancelled f"

definition latest_step :: "(run, int \<times> owed_class) dict \<Rightarrow> record_file \<Rightarrow> (run, int \<times> owed_class) dict" where
  "latest_step latest f =
     (case rf_record f of
        None \<Rightarrow> latest
      | Some r \<Rightarrow>
          (let name = (case er_kernel r of Some k \<Rightarrow> kernel_stem k | None \<Rightarrow> []) in
           if name = [] then latest
           else
             (let run = \<lparr>r_kernel = name, r_slot = slot_of (er_episode_id r)\<rparr>;
                  order = (case er_final_start r of Some t \<Rightarrow> if t = 0 then rf_mtime_ms f else t | None \<Rightarrow> rf_mtime_ms f);
                  cls = (if ended_in_budget f r then BUDGET else INFRA)
              in case map_of latest run of
                   Some (seen, _) \<Rightarrow> if seen \<le> order then dict_set run (order, cls) latest else latest
                 | None \<Rightarrow> dict_set run (order, cls) latest)))"

definition latest_classes :: "job_dir list \<Rightarrow> (run, owed_class) dict" where
  "latest_classes jobs =
     map (\<lambda>(run, entry). (run, snd entry)) (foldl latest_step [] (concat (map j_records jobs)))"

section \<open>The owed runs\<close>

text \<open>\<open>read_env\<close>: the \<open>KEY=VALUE\<close> lines, values unquoted, the last one of a key winning.\<close>

definition quote :: "char \<Rightarrow> bool" where
  "quote c \<longleftrightarrow> c = CHR 0x22 \<or> c = CHR 0x27"

definition env_entry :: "(string, string) dict \<Rightarrow> string \<Rightarrow> (string, string) dict" where
  "env_entry env line =
     (case py_partition (CHR ''='') line of
        (key, Some v) \<Rightarrow>
          if key \<noteq> [] \<and> \<not> starts_with_text (dropWhile py_space key) ''#''
          then dict_set (py_strip key) (strip_when quote (py_strip v)) env else env
      | (key, None) \<Rightarrow> env)"

definition read_env :: "string list \<Rightarrow> (string, string) dict" where
  "read_env lines = foldl env_entry [] lines"

text \<open>\<open>PurePath(text).name\<close>: the last path component that is not empty and not \<open>.\<close>.\<close>

definition path_name :: "string \<Rightarrow> string" where
  "path_name p =
     (case rev (filter (\<lambda>piece. piece \<noteq> [] \<and> piece \<noteq> ''.'') (split_on (CHR ''/'') p)) of
        piece # _ \<Rightarrow> piece | [] \<Rightarrow> [])"

text \<open>\<open>launch_problems\<close>: the problems file beside the launch env (\<open>j_files\<close> has the files staged there).\<close>

definition launch_problems :: "job_dir \<Rightarrow> problem list option" where
  "launch_problems j =
     (case j_env j of
        None \<Rightarrow> None
      | Some env \<Rightarrow>
          j_files j (path_name (case map_of (read_env env) ''PROBLEMS_FILE'' of Some v \<Rightarrow> v | None \<Rightarrow> [])))"

definition designed_runs :: "job list \<Rightarrow> string list \<Rightarrow> run list" where
  "designed_runs jobs tag_kernels =
     (let slots = 1 # concat (map (\<lambda>j. case launch_problems (job_path j) of
            Some ps \<Rightarrow> map (\<lambda>p. r_slot (problem_run p)) ps | None \<Rightarrow> []) jobs)
      in concat (map (\<lambda>k. map (\<lambda>slot. \<lparr>r_kernel = k, r_slot = slot\<rparr>) (sorted_set slots)) tag_kernels))"

definition done_at :: "job_dir list \<Rightarrow> (run, int) dict" where
  "done_at jobs = foldl max_into [] (concat (map delivered_at jobs))"

text \<open>The body of \<open>owed\<close>'s loop: the class of one run, if it is owed.\<close>

definition owed_class_of ::
    "(run, int) dict \<Rightarrow> (run, int) dict \<Rightarrow> (run, owed_class) dict \<Rightarrow> run \<Rightarrow> owed_class option" where
  "owed_class_of changed finished classes run =
     (let on_time = (case map_of changed run of
            Some ts \<Rightarrow> (case map_of finished run of Some d \<Rightarrow> d | None \<Rightarrow> ts) \<le> ts | None \<Rightarrow> False)
      in if on_time then Some TASK
         else if map_of finished run = None
         then Some (case map_of classes run of Some c \<Rightarrow> c | None \<Rightarrow> INFRA)
         else None)"

definition owed :: "job list \<Rightarrow> run list \<Rightarrow> database list \<Rightarrow> (run, owed_class) dict" where
  "owed jobs runs regrades =
     (let dirs = map job_path jobs;
          finished = done_at dirs;
          changed = (case jobs of [] \<Rightarrow> []
            | j # _ \<Rightarrow> task_changed (concat (map j_shards dirs) @ regrades) (job_identity j));
          classes = latest_classes dirs
      in foldl (\<lambda>out run. case owed_class_of changed finished classes run of
           Some c \<Rightarrow> dict_set run c out | None \<Rightarrow> out) [] runs)"

definition selected :: "string \<Rightarrow> string list \<Rightarrow> bool" where
  "selected name prefixes \<longleftrightarrow>
     prefixes = [] \<or> list_ex (\<lambda>p. name = p \<or> starts_with_text name (p @ ''-'')) prefixes"

text \<open>\<open>write_listing\<close>: the listing of an output directory; a setup that owes nothing has none.\<close>

definition write_listing :: "(string \<rightharpoonup> string list) \<Rightarrow> string \<Rightarrow> run list \<Rightarrow> (string \<rightharpoonup> string list)" where
  "write_listing out name runs =
     (if runs \<noteq> [] then out(name @ ''.txt'' \<mapsto> map run_line runs) else out(name @ ''.txt'' := None))"

text \<open>\<open>collect_jobs\<close>: the numeric job directories of every root in name order, by the one setup each recorded.\<close>

definition job_setup :: "job_dir \<Rightarrow> string res" where
  "job_setup j =
     (let setups = sorted_set (filter (\<lambda>s. s \<noteq> []) (concat (map (\<lambda>db. map e_setup (db_episodes db)) (j_shards j))))
      in if length setups > 1 then Inl (ValueError ''several setups'')
         else if setups = [] \<and> j_shards j \<noteq> [] then Inl (ValueError ''no setup'')
         else Inr (case setups of s # _ \<Rightarrow> s | [] \<Rightarrow> []))"

definition collect_job_step ::
    "string list \<Rightarrow> (string, job list) dict \<times> string list \<Rightarrow> job_dir \<Rightarrow> ((string, job list) dict \<times> string list) res" where
  "collect_job_step excluded found j =
     (if j_name j \<in> set excluded then Inr found
      else bindE (job_setup j) (\<lambda>setup.
        if setup \<noteq> [] then
          Inr (dict_set setup ((case map_of (fst found) setup of Some js \<Rightarrow> js | None \<Rightarrow> []) @
            [\<lparr>job_path = j, job_identity = setup\<rparr>]) (fst found), snd found)
        else Inr (fst found, snd found @ [j_name j])))"

definition numeric :: "string \<Rightarrow> bool" where
  "numeric s \<longleftrightarrow> s \<noteq> [] \<and> list_all py_digit s"

definition collect_jobs ::
    "job_dir list list \<Rightarrow> string list \<Rightarrow> ((string, job list) dict \<times> string list) res" where
  "collect_jobs roots excluded =
     foldE (collect_job_step excluded) ([], [])
       (concat (map (\<lambda>root. sort_key j_name (filter (\<lambda>j. numeric (j_name j)) root)) roots))"

text \<open>\<open>cmd_collect\<close>: the listings of the selected setups, the jobs of one in the order of their ids.\<close>

definition collect_setup ::
    "string list \<Rightarrow> database list \<Rightarrow> owed_class option \<Rightarrow> (string, job list) dict \<Rightarrow> (string \<rightharpoonup> string list) \<Rightarrow> string \<Rightarrow>
     (string \<rightharpoonup> string list)" where
  "collect_setup tag_kernels regrades only by_identity out name =
     (let jobs = sort_key (\<lambda>j. nat_text (j_name (job_path j)))
            (case map_of by_identity name of Some js \<Rightarrow> js | None \<Rightarrow> []);
          classes = owed jobs (designed_runs jobs tag_kernels) regrades
      in write_listing out name (map fst (filter (\<lambda>(run, c). only = None \<or> only = Some c) classes)))"

definition cmd_collect ::
    "job_dir list list \<Rightarrow> string list \<Rightarrow> string list \<Rightarrow> database list \<Rightarrow> string list \<Rightarrow> owed_class option \<Rightarrow>
     (string \<rightharpoonup> string list) \<Rightarrow> (string \<rightharpoonup> string list) res" where
  "cmd_collect roots excluded tag_kernels regrades setups only out =
     bindE (collect_jobs roots excluded) (\<lambda>(by_identity, empty).
       Inr (foldl (collect_setup tag_kernels regrades only by_identity) out
         (sorted_set (filter (\<lambda>n. selected n setups) (keys by_identity)))))"

section \<open>What the folds compute\<close>

lemma map_of_max_into:
  "map_of (max_into d (r', t)) r =
     (if r = r' then Some (case map_of d r of Some old \<Rightarrow> max old t | None \<Rightarrow> t) else map_of d r)"
  by (simp add: max_into_def update_conv')

lemma finite_image_pairs: "finite {t. (r, t) \<in> set rows}"
  by (rule finite_subset [of _ "snd ` set rows"]) (force intro: finite_imageI)+

lemma map_of_foldl_max_into:
  "map_of (foldl max_into d rows) r =
     (let ts = set_option (map_of d r) \<union> {t. (r, t) \<in> set rows} in if ts = {} then None else Some (Max ts))"
proof (induction rows arbitrary: d)
  case Nil
  then show ?case by (cases "map_of d r") auto
next
  case (Cons row rows)
  obtain r' t' where row: "row = (r', t')" by (cases row)
  show ?case
  proof (cases "r' = r")
    case False
    then show ?thesis by (simp add: Cons.IH row map_of_max_into)
  next
    case True
    have rows_eq: "{t. (r, t) \<in> set ((r, t') # rows)} = insert t' {t. (r, t) \<in> set rows}" by auto
    show ?thesis
    proof (cases "map_of d r")
      case None
      then show ?thesis using True by (simp add: Cons.IH row map_of_max_into rows_eq del: list.set)
    next
      case (Some old)
      show ?thesis using True Some finite_image_pairs [of r rows]
        by (cases "{t. (r, t) \<in> set rows} = {}")
           (simp_all add: Cons.IH row map_of_max_into rows_eq max.assoc max.left_commute max.commute
             insert_commute del: list.set)
    qed
  qed
qed

lemma distinct_foldl_max_into: "distinct (keys d) \<Longrightarrow> distinct (keys (foldl max_into d rows))"
  by (induction rows arbitrary: d) (auto simp: max_into_def keys_def distinct_update)

lemma map_of_foldl_set:
  "map_of (foldl (\<lambda>d (r, t). dict_set r t d) d rows) r =
     (case map_of (rev rows) r of Some t \<Rightarrow> Some t | None \<Rightarrow> map_of d r)"
  by (induction rows arbitrary: d) (auto simp: update_conv' map_add_def split: option.splits)

lemma distinct_foldl_set: "distinct (keys d) \<Longrightarrow> distinct (keys (foldl (\<lambda>d (r, t). dict_set r t d) d rows))"
  by (induction rows arbitrary: d) (auto simp: keys_def distinct_update)

lemma map_of_foldl_class:
  "map_of (foldl (\<lambda>out x. case f x of Some c \<Rightarrow> dict_set x c out | None \<Rightarrow> out) d xs) r =
     (if r \<in> set xs then (case f r of Some c \<Rightarrow> Some c | None \<Rightarrow> map_of d r) else map_of d r)"
  by (induction xs arbitrary: d) (auto simp: update_conv' split: option.splits)

section \<open>What is owed, in terms of the recorded rows\<close>

text \<open>The time stamps a shard counts for a run; a job counts the last of its shards that has any.\<close>

definition shard_times :: "database \<Rightarrow> run \<Rightarrow> int set" where
  "shard_times db r = {t. (r, t) \<in> set (counted_rows db)}"

definition job_times :: "job_dir \<Rightarrow> run \<Rightarrow> int set" where
  "job_times j r =
     (case filter (\<lambda>db. shard_times db r \<noteq> {}) (rev (j_shards j)) of
        db # _ \<Rightarrow> shard_times db r | [] \<Rightarrow> {})"

definition delivery_times :: "job list \<Rightarrow> run \<Rightarrow> int set" where
  "delivery_times jobs r = (\<Union>j \<in> set jobs. job_times (job_path j) r)"

text \<open>The time stamps of the submissions a final grade found changed, in the shards and the regrades.\<close>

definition changed_times :: "job list \<Rightarrow> database list \<Rightarrow> run \<Rightarrow> int set" where
  "changed_times jobs regrades r =
     (case jobs of [] \<Rightarrow> {}
      | j # _ \<Rightarrow> {t. \<exists>db \<in> (\<Union>j \<in> set jobs. set (j_shards (job_path j))) \<union> set regrades.
                       (job_identity j, r, t) \<in> set (changed_rows db)})"

lemma map_of_rev_distinct: "distinct (keys d) \<Longrightarrow> map_of (rev d) = map_of d"
  unfolding keys_def by (rule map_of_inject_set [THEN iffD2]) (simp_all add: rev_map [symmetric])

lemma finite_shard_times [simp]: "finite (shard_times db r)"
  unfolding shard_times_def by (rule finite_image_pairs)

lemma finite_job_times [simp]: "finite (job_times j r)"
  by (simp add: job_times_def split: list.splits)

lemma map_of_shard_delivered:
  "map_of (shard_delivered db) r = (if shard_times db r = {} then None else Some (Max (shard_times db r)))"
  by (simp add: shard_delivered_def map_of_foldl_max_into shard_times_def Let_def)

lemma map_of_rev_shard:
  "map_of (rev (shard_delivered db)) r =
     (if shard_times db r = {} then None else Some (Max (shard_times db r)))"
proof -
  have "distinct (keys (shard_delivered db))"
    unfolding shard_delivered_def by (rule distinct_foldl_max_into) (simp add: keys_def)
  then show ?thesis by (simp add: map_of_rev_distinct map_of_shard_delivered)
qed

lemma map_of_shards:
  "map_of (concat (map (\<lambda>db. rev (shard_delivered db)) dbs)) r =
     (case filter (\<lambda>db. shard_times db r \<noteq> {}) dbs of db # _ \<Rightarrow> Some (Max (shard_times db r)) | [] \<Rightarrow> None)"
  by (induction dbs) (simp_all add: map_add_def map_of_rev_shard split: option.splits list.splits)

lemma map_of_delivered_at:
  "map_of (delivered_at j) r = (if job_times j r = {} then None else Some (Max (job_times j r)))"
proof -
  have rev_shards: "rev (concat (map shard_delivered dbs)) = concat (map (\<lambda>db. rev (shard_delivered db)) (rev dbs))"
    for dbs
    by (induction dbs) simp_all
  show ?thesis
  proof (cases "filter (\<lambda>db. shard_times db r \<noteq> {}) (rev (j_shards j))")
    case Nil
    then show ?thesis
      by (simp only: delivered_at_def map_of_foldl_set job_times_def rev_shards map_of_shards) simp
  next
    case (Cons db dbs)
    have "shard_times db r \<noteq> {}"
      using Cons_eq_filterD [OF Cons [symmetric]] by blast
    with Cons show ?thesis
      by (simp only: delivered_at_def map_of_foldl_set job_times_def rev_shards map_of_shards) simp
  qed
qed

lemma Max_of_Maxs:
  fixes T :: "'a \<Rightarrow> int set"
  assumes "finite A" and "\<forall>a \<in> A. finite (T a)" and "(\<Union>a \<in> A. T a) \<noteq> {}"
  shows "Max {Max (T a) | a. a \<in> A \<and> T a \<noteq> {}} = Max (\<Union>a \<in> A. T a)"
proof (rule Max_eqI)
  show "finite {Max (T a) | a. a \<in> A \<and> T a \<noteq> {}}" using assms(1) by simp
  have fin: "finite (\<Union>a \<in> A. T a)" using assms by blast
  then have "Max (\<Union>a \<in> A. T a) \<in> (\<Union>a \<in> A. T a)" using assms(3) by (rule Max_in)
  then obtain a where a: "a \<in> A" "Max (\<Union>a \<in> A. T a) \<in> T a" by blast
  have "Max (T a) = Max (\<Union>a \<in> A. T a)"
    using a fin assms(2) by (intro Max_eqI) (auto intro!: Max_ge)
  with a show "Max (\<Union>a \<in> A. T a) \<in> {Max (T a) | a. a \<in> A \<and> T a \<noteq> {}}" by force
  show "y \<le> Max (\<Union>a \<in> A. T a)" if "y \<in> {Max (T a) | a. a \<in> A \<and> T a \<noteq> {}}" for y
    using that fin assms(2) by (auto intro!: Max_mono)
qed

lemma map_of_done_at:
  "map_of (done_at (map job_path jobs)) r =
     (if delivery_times jobs r = {} then None else Some (Max (delivery_times jobs r)))"
proof -
  have rows: "(r, t) \<in> set (delivered_at j) \<longleftrightarrow> job_times j r \<noteq> {} \<and> t = Max (job_times j r)" for j t
  proof -
    have "distinct (map fst (delivered_at j))"
      using distinct_foldl_set [of "[]"] by (simp add: delivered_at_def keys_def)
    then have "(r, t) \<in> set (delivered_at j) \<longleftrightarrow> map_of (delivered_at j) r = Some t" by simp
    then show ?thesis by (auto simp: map_of_delivered_at)
  qed
  have "{t. (r, t) \<in> set (concat (map delivered_at (map job_path jobs)))} =
      {Max (job_times (job_path j) r) | j. j \<in> set jobs \<and> job_times (job_path j) r \<noteq> {}}"
    by (auto simp: rows)
  moreover have "{Max (job_times (job_path j) r) | j. j \<in> set jobs \<and> job_times (job_path j) r \<noteq> {}} = {} \<longleftrightarrow>
      delivery_times jobs r = {}"
    by (auto simp: delivery_times_def)
  ultimately show ?thesis
    using Max_of_Maxs [of "set jobs" "\<lambda>j. job_times (job_path j) r"]
    by (auto simp: done_at_def map_of_foldl_max_into delivery_times_def Let_def)
qed

lemma map_of_foldl_changed:
  "map_of (foldl (\<lambda>d (found, r, ts).
       if found = setup then dict_set r (max (case map_of d r of Some old \<Rightarrow> old | None \<Rightarrow> 0) ts) d else d) d rows) r =
     (let ts = {t. (setup, r, t) \<in> set rows}
      in if ts = {} then map_of d r
         else Some (Max (insert (case map_of d r of Some old \<Rightarrow> old | None \<Rightarrow> 0) ts)))"
proof (induction rows arbitrary: d)
  case Nil
  then show ?case by simp
next
  case (Cons row rows)
  obtain found r' t' where row: "row = (found, r', t')" by (cases row) auto
  have fin: "finite {t. (setup, r, t) \<in> set rows}"
    using finite_image_pairs [of "(setup, r)" "map (\<lambda>(s, q, t). ((s, q), t)) rows"]
    by (rule rev_finite_subset) force
  define T where "T = {t. (setup, r, t) \<in> set rows}"
  note IH = Cons.IH [unfolded Let_def, folded T_def]
  have finT: "finite T" using fin by (simp add: T_def)
  show ?case
  proof (cases "found = setup \<and> r' = r")
    case False
    then have "{t. (setup, r, t) \<in> set (row # rows)} = T"
      using row by (auto simp: T_def)
    then show ?thesis using False
      by (auto simp: IH row update_conv' Let_def simp del: list.set)
  next
    case True
    then have "{t. (setup, r, t) \<in> set (row # rows)} = insert t' T"
      using row by (auto simp: T_def)
    then show ?thesis
      using True finT
      by (cases "T = {}")
         (simp_all add: IH row update_conv' Let_def max.assoc max.left_commute max.commute insert_commute
           del: list.set)
  qed
qed

lemma map_of_task_changed:
  assumes "jobs = j # js"
  shows "map_of (task_changed (concat (map j_shards (map job_path jobs)) @ regrades) (job_identity j)) r =
     (if changed_times jobs regrades r = {} then None else Some (Max (insert 0 (changed_times jobs regrades r))))"
proof -
  have "{t. (job_identity j, r, t) \<in> set (concat (map changed_rows (concat (map j_shards (map job_path jobs)) @ regrades)))} =
      changed_times jobs regrades r"
    by (auto simp: changed_times_def assms)
  then show ?thesis by (simp only: task_changed_def map_of_foldl_changed Let_def) simp
qed

text \<open>C27. The owed runs and their classes are exactly what the recorded grades say: a run of the list is owed as
  \<open>task\<close> when a final grade found a submission of it changed and no counted delivery is newer than the newest such
  submission; otherwise it is owed when no job delivered it, as the class of its latest episode (\<open>infra\<close> when it has
  none); and it is not owed when a job delivered it. A job's delivery is dated by the last of its shards that counts one.\<close>

theorem owed_exact:
  "map_of (owed jobs runs regrades) r =
     (if r \<notin> set runs then None
      else if changed_times jobs regrades r \<noteq> {} \<and>
              delivery_times jobs r \<subseteq> {..Max (insert 0 (changed_times jobs regrades r))} then Some TASK
      else if delivery_times jobs r = {} then
        Some (case map_of (latest_classes (map job_path jobs)) r of Some c \<Rightarrow> c | None \<Rightarrow> INFRA)
      else None)"
proof -
  have fin: "finite (delivery_times jobs r)" by (simp add: delivery_times_def)
  have below: "delivery_times jobs r \<subseteq> {..m} \<longleftrightarrow> delivery_times jobs r = {} \<or> Max (delivery_times jobs r) \<le> m" for m
    using fin by (cases "delivery_times jobs r = {}") (auto simp: Max_le_iff)
  show ?thesis
  proof (cases jobs)
    case Nil
    then show ?thesis
      by (simp only: owed_def Let_def map_of_foldl_class)
         (simp add: owed_class_of_def Let_def changed_times_def delivery_times_def done_at_def)
  next
    case (Cons j js)
    then show ?thesis
      unfolding below
      using map_of_task_changed [OF Cons, of regrades r] map_of_done_at [of jobs r]
      by (simp only: owed_def Let_def map_of_foldl_class) (simp add: owed_class_of_def Let_def)
  qed
qed

section \<open>The class of the latest episode\<close>

text \<open>What \<open>latest_classes\<close> reads off one record file: the run, its place in the order and its class.\<close>

definition record_entry :: "record_file \<Rightarrow> (run \<times> int \<times> owed_class) option" where
  "record_entry f =
     (case rf_record f of
        None \<Rightarrow> None
      | Some r \<Rightarrow>
          (let name = (case er_kernel r of Some k \<Rightarrow> kernel_stem k | None \<Rightarrow> []);
               order = (case er_final_start r of Some t \<Rightarrow> if t = 0 then rf_mtime_ms f else t | None \<Rightarrow> rf_mtime_ms f)
           in if name = [] then None
              else Some (\<lparr>r_kernel = name, r_slot = slot_of (er_episode_id r)\<rparr>, order,
                if ended_in_budget f r then BUDGET else INFRA)))"

lemma latest_step_entry:
  "latest_step latest f =
     (case record_entry f of
        None \<Rightarrow> latest
      | Some (run, order, c) \<Rightarrow>
          (case map_of latest run of
             Some (seen, _) \<Rightarrow> if seen \<le> order then dict_set run (order, c) latest else latest
           | None \<Rightarrow> dict_set run (order, c) latest))"
  by (simp add: latest_step_def record_entry_def Let_def split: option.split)

text \<open>The entries of one run, in the order the record files are read.\<close>

definition entries_of :: "run \<Rightarrow> record_file list \<Rightarrow> (int \<times> owed_class) list" where
  "entries_of run files = map snd (filter (\<lambda>e. fst e = run) (List.map_filter record_entry files))"

definition newest_of :: "(int \<times> owed_class) list \<Rightarrow> (int \<times> owed_class) option" where
  "newest_of es =
     foldl (\<lambda>best e. case best of Some b \<Rightarrow> if fst b \<le> fst e then Some e else best | None \<Rightarrow> Some e) None es"

lemma map_of_latest_fold: "map_of (foldl latest_step [] files) run = newest_of (entries_of run files)"
proof (induction files rule: rev_induct)
  case Nil
  then show ?case by (simp add: entries_of_def newest_of_def List.map_filter_simps)
next
  case (snoc f files)
  have split_last: "entries_of run (files @ [f]) =
      entries_of run files @ (case record_entry f of Some (r, e) \<Rightarrow> if r = run then [e] else [] | None \<Rightarrow> [])"
    by (auto simp: entries_of_def List.map_filter_def split: option.splits)
  show ?case
    using snoc
    by (auto simp: latest_step_entry split_last newest_of_def update_conv' split: option.splits prod.splits)
qed

lemma newest_of_spec:
  "case newest_of es of
     None \<Rightarrow> es = []
   | Some e \<Rightarrow> \<exists>before after. es = before @ e # after \<and>
       list_all (\<lambda>b. fst b \<le> fst e) before \<and> list_all (\<lambda>a. fst a < fst e) after"
proof (induction es rule: rev_induct)
  case Nil
  then show ?case by (simp add: newest_of_def)
next
  case (snoc x es)
  have step: "newest_of (es @ [x]) =
      (case newest_of es of Some b \<Rightarrow> if fst b \<le> fst x then Some x else Some b | None \<Rightarrow> Some x)"
    by (simp add: newest_of_def split: option.split)
  show ?case
  proof (cases "newest_of es")
    case None
    with snoc have "es = []" by simp
    with step None have "newest_of (es @ [x]) = Some x" by simp
    moreover have "es @ [x] = [] @ x # []" using \<open>es = []\<close> by simp
    ultimately show ?thesis by (auto simp: exI [of _ "[]"])
  next
    case (Some b)
    then obtain before after where es: "es = before @ b # after"
      and before: "list_all (\<lambda>e. fst e \<le> fst b) before" and after: "list_all (\<lambda>e. fst e < fst b) after"
      using snoc by auto
    show ?thesis
    proof (cases "fst b \<le> fst x")
      case True
      then have "list_all (\<lambda>e. fst e \<le> fst x) es"
        using before after es by (auto simp: list_all_iff intro: order_trans less_imp_le)
      then show ?thesis using True Some by (auto simp: step intro: exI [of _ es] exI [of _ "[]"])
    next
      case False
      have last: "newest_of (es @ [x]) = Some b" using False Some by (simp add: step)
      have "es @ [x] = before @ b # (after @ [x])" and "list_all (\<lambda>e. fst e < fst b) (after @ [x])"
        using False es after by simp_all
      then show ?thesis using before unfolding last option.case by blast
    qed
  qed
qed

text \<open>The class of an undelivered run is the class of its latest episode: among the episode records of the
  run, in the order they are read, the recorded class is that of a record none after it reaches and none before it
  exceeds in time (the driver's final start, or the file's mtime when it recorded none); a run has no class exactly
  when no record names it.\<close>

theorem latest_class_newest:
  "case map_of (latest_classes dirs) run of
     None \<Rightarrow> entries_of run (concat (map j_records dirs)) = []
   | Some c \<Rightarrow> \<exists>before order after.
       entries_of run (concat (map j_records dirs)) = before @ (order, c) # after \<and>
       list_all (\<lambda>e. fst e \<le> order) before \<and> list_all (\<lambda>e. fst e < order) after"
proof -
  have strip: "map_of (map (\<lambda>(run, entry). (run, snd entry)) d) run = map_option snd (map_of d run)"
    for d :: "(run, int \<times> owed_class) dict"
    by (simp add: map_of_map)
  let ?es = "entries_of run (concat (map j_records dirs))"
  have class_is: "map_of (latest_classes dirs) run = map_option snd (newest_of ?es)"
    by (simp add: latest_classes_def strip map_of_latest_fold)
  show ?thesis
  proof (cases "newest_of ?es")
    case None
    then show ?thesis using newest_of_spec [of ?es] by (simp add: class_is)
  next
    case (Some e)
    then show ?thesis using newest_of_spec [of ?es] by (cases e) (auto simp: class_is)
  qed
qed

text \<open>A run graded in two shards is dated by the later shard, which need not hold its newest grade.\<close>

lemma delivery_date_not_newest:
  "delivered_at \<lparr>j_name = ''1'',
     j_shards =
       [\<lparr>db_grades = [\<lparr>g_id = 1, g_episode = 1, g_kernel = ''gemm'', g_kind = ''submit'', g_ts_ms = 20, g_speedup = 2,
           g_reason = [], g_of_grade = None\<rparr>],
         db_episodes = [\<lparr>e_id = 1, e_label = ''l'', e_setup = ''dc'', e_slot = 1\<rparr>], db_disqualified = []\<rparr>,
        \<lparr>db_grades = [\<lparr>g_id = 1, g_episode = 1, g_kernel = ''gemm'', g_kind = ''submit'', g_ts_ms = 10, g_speedup = 2,
           g_reason = [], g_of_grade = None\<rparr>],
         db_episodes = [\<lparr>e_id = 1, e_label = ''l'', e_setup = ''dc'', e_slot = 1\<rparr>], db_disqualified = []\<rparr>],
     j_records = [], j_env = None, j_files = (\<lambda>_. None)\<rparr> = [(\<lparr>r_kernel = ''gemm'', r_slot = 1\<rparr>, 10)]"
  by code_simp

end
