(* ===== verification/Owed_Rerun.thy ===== *)
theory Owed_Rerun
  imports Owed
begin

text \<open>
  Rerunning owed runs (\<open>cmd_run\<close> of \<open>results/owed.py\<close>): the runs a listing names, the problems they are, and
  the environment the rerun is launched with.
\<close>

section \<open>The rerun\<close>

definition rerun_problems :: "problem list \<Rightarrow> run set \<Rightarrow> problem list res" where
  "rerun_problems problems runs =
     (if runs \<subseteq> problem_run ` set problems then Inr (filter (\<lambda>p. problem_run p \<in> runs) problems)
      else Inl (ValueError ''holds no problem for''))"

text \<open>The values \<open>cmd_run\<close> pins over the launch env, and the env file it writes.\<close>

definition int_or :: "int \<Rightarrow> string option \<Rightarrow> int res" where
  "int_or fallback v = (case v of None \<Rightarrow> Inr fallback | Some s \<Rightarrow> if s = [] then Inr fallback else py_int s)"

definition ceil_div :: "int \<Rightarrow> int \<Rightarrow> int res" where
  "ceil_div a b = bindE (py_floordiv (- a) b) (\<lambda>q. Inr (- q))"

definition pinned_values ::
    "(string, string) dict \<Rightarrow> nat \<Rightarrow> string \<Rightarrow> int option \<Rightarrow> int option \<Rightarrow> (string, string) dict res" where
  "pinned_values env lines problems_name timeout_seconds max_tokens =
     bindE (int_or 40 (map_of env ''AGENTS_PER_NODE'')) (\<lambda>per_node.
     bindE (int_or 1 (map_of env ''AGENT_NODES'')) (\<lambda>nodes.
     bindE (ceil_div (int lines) per_node) (\<lambda>needed.
       Inr ([(''PROBLEMS_FILE'', problems_name), (''AGENT_NODES'', int_text (min nodes needed))] @
         (case timeout_seconds of Some s \<Rightarrow> if s \<noteq> 0 then [(''AGENT_TIMEOUT_SECONDS'', int_text s)] else [] | None \<Rightarrow> []) @
         (case max_tokens of Some m \<Rightarrow> if m \<noteq> 0 then [(''AGENT_MAX_TOKENS'', int_text m)] else [] | None \<Rightarrow> [])))))"

definition rerun_env :: "string list \<Rightarrow> (string, string) dict \<Rightarrow> string list" where
  "rerun_env env_lines pinned =
     filter (\<lambda>line. fst (py_partition (CHR ''='') line) \<notin> set (keys pinned)) env_lines @
     map (\<lambda>(k, v). k @ CHR ''='' # v) pinned"

text \<open>The runs \<open>cmd_run\<close> reads from a listing: its lines that are not blank.\<close>

definition listed_runs :: "string list \<Rightarrow> run list res" where
  "listed_runs lines =
     bindE (traverseE parse_run (filter (\<lambda>line. py_strip line \<noteq> []) lines)) (\<lambda>runs.
       if runs = [] then Inl (ValueError ''lists no run'') else Inr runs)"
section \<open>Listings are read back\<close>

text \<open>Kernel keys as the registry has them: not empty and without white space.\<close>

definition plain_key :: "string \<Rightarrow> bool" where
  "plain_key k \<longleftrightarrow> k \<noteq> [] \<and> list_all (\<lambda>c. \<not> py_space c) k"

lemma strip_plain_ends: "s \<noteq> [] \<Longrightarrow> \<not> py_space (hd s) \<Longrightarrow> \<not> py_space (last s) \<Longrightarrow> py_strip s = s"
  unfolding py_strip_def by (rule strip_when_id) simp

lemma plain_key_strip: "plain_key k \<Longrightarrow> py_strip k = k"
  by (rule strip_plain_ends) (auto simp: plain_key_def list_all_iff)

lemma plain_key_no_blank: "plain_key k \<Longrightarrow> CHR '' '' \<notin> set k"
  by (auto simp: plain_key_def list_all_iff py_space_def)

lemma int_text_ends: "int_text i \<noteq> []" "\<not> py_space (hd (int_text i))" "\<not> py_space (last (int_text i))"
  using decimal_digits [of "hd (decimal (nat i))" "nat i"] decimal_digits [of "last (decimal (nat i))" "nat i"]
    decimal_digits [of "last (decimal (nat (- i)))" "nat (- i)"]
  by (auto simp: int_text_def decimal_nonempty py_digit_plain) (auto simp: py_space_def)

lemma py_int_int_text: "py_int (int_text i) = Inr i"
proof (cases "i < 0")
  case True
  have "digit_runs False (decimal (nat (- i)))"
    using decimal_digits decimal_nonempty by (simp add: digit_runs_digits list_all_iff)
  moreover have "py_strip (int_text i) = int_text i" by (rule strip_plain_ends) (rule int_text_ends)+
  ultimately show ?thesis using True
    by (simp add: py_int_def int_text_def Let_def nat_text_decimal)
next
  case False
  then show ?thesis by (simp add: int_text_def py_int_decimal)
qed

lemma parse_run_line:
  assumes "plain_key (r_kernel r)"
  shows "parse_run (run_line r) = Inr r"
proof (cases "r_slot r = 1")
  case True
  then show ?thesis using assms
    by (simp add: parse_run_def run_line_def plain_key_strip plain_key_no_blank py_partition_none)
next
  case False
  have "py_strip (r_kernel r @ CHR '' '' # int_text (r_slot r)) = r_kernel r @ CHR '' '' # int_text (r_slot r)"
    using assms int_text_ends [of "r_slot r"]
    by (intro strip_plain_ends) (auto simp: plain_key_def list_all_iff)
  then show ?thesis using False assms int_text_ends(1) [of "r_slot r"]
    by (simp add: parse_run_def run_line_def plain_key_no_blank py_partition_at py_int_int_text)
qed

lemma run_line_not_blank: "plain_key (r_kernel r) \<Longrightarrow> py_strip (run_line r) \<noteq> []"
  using parse_run_line [of r] by (auto simp: parse_run_def plain_key_def)

text \<open>A listing \<open>owed collect\<close> writes is the list of runs \<open>owed run\<close> reads: for kernels with plain keys the
  file of a setup that owes something is read back as exactly its runs, in order, whatever their slots.\<close>

theorem listing_roundtrip:
  assumes "runs \<noteq> []" and "list_all (\<lambda>r. plain_key (r_kernel r)) runs"
  shows "map_option listed_runs (write_listing out name runs (name @ ''.txt'')) = Some (Inr runs)"
proof -
  have plain: "\<And>r. r \<in> set runs \<Longrightarrow> plain_key (r_kernel r)" using assms(2) by (simp add: list_all_iff)
  have "filter (\<lambda>line. py_strip line \<noteq> []) (map run_line runs) = map run_line runs"
    using plain run_line_not_blank by (simp add: filter_id_conv)
  moreover have "traverseE parse_run (map run_line runs) = Inr runs"
    using plain by (induction runs) (simp_all add: parse_run_line)
  ultimately show ?thesis using assms(1) by (simp add: write_listing_def listed_runs_def)
qed

theorem listing_roundtrip_witness:
  "map_option listed_runs (write_listing (\<lambda>_. None) ''dc-cpu''
       [\<lparr>r_kernel = ''gemm'', r_slot = 1\<rparr>, \<lparr>r_kernel = ''lu'', r_slot = 12\<rparr>] (''dc-cpu'' @ ''.txt'')) =
     Some (Inr [\<lparr>r_kernel = ''gemm'', r_slot = 1\<rparr>, \<lparr>r_kernel = ''lu'', r_slot = 12\<rparr>])"
  by (rule listing_roundtrip) (simp_all add: plain_key_def py_space_def)

section \<open>The environment of a rerun\<close>

definition env_keys_clean :: "(string, string) dict \<Rightarrow> bool" where
  "env_keys_clean pinned \<longleftrightarrow>
     list_all (\<lambda>(k, v). plain_key k \<and> CHR ''='' \<notin> set k \<and> hd k \<noteq> CHR ''#'' \<and>
       strip_when quote (py_strip v) = v) pinned"

lemma env_entry_pinned:
  assumes "env_keys_clean [(k, v)]"
  shows "env_entry env (k @ CHR ''='' # v) = dict_set k v env"
proof -
  have "dropWhile py_space k = k" using assms by (cases k) (auto simp: env_keys_clean_def plain_key_def)
  then show ?thesis using assms
    by (cases k)
       (auto simp: env_keys_clean_def env_entry_def py_partition_at plain_key_strip plain_key_def starts_with_text_def)
qed

lemma map_of_env_entry_other:
  "py_strip (fst (py_partition (CHR ''='') line)) \<noteq> k \<Longrightarrow> map_of (env_entry env line) k = map_of env k"
  by (auto simp: env_entry_def update_conv' split: option.split prod.split)

lemma map_of_env_entry_cong:
  "map_of env k = map_of env' k \<Longrightarrow> map_of (env_entry env line) k = map_of (env_entry env' line) k"
  by (auto simp: env_entry_def update_conv' split: option.split prod.split)

lemma map_of_env_filter:
  assumes "\<And>line. line \<in> set ls \<Longrightarrow> \<not> P line \<Longrightarrow> py_strip (fst (py_partition (CHR ''='') line)) \<noteq> k"
    and "map_of env k = map_of env' k"
  shows "map_of (foldl env_entry env (filter P ls)) k = map_of (foldl env_entry env' ls) k"
  using assms
proof (induction ls arbitrary: env env')
  case (Cons line ls)
  have ih: "map_of (foldl env_entry e (filter P ls)) k = map_of (foldl env_entry e' ls) k"
    if "map_of e k = map_of e' k" for e e'
    using that Cons.prems(1) by (intro Cons.IH) simp_all
  show ?case
  proof (cases "P line")
    case True
    then show ?thesis using ih [OF map_of_env_entry_cong [OF Cons.prems(2)]] by simp
  next
    case False
    then have "map_of env k = map_of (env_entry env' line) k"
      using Cons.prems by (simp add: map_of_env_entry_other)
    then show ?thesis using False ih by simp
  qed
qed simp

lemma foldl_env_pinned:
  "env_keys_clean pinned \<Longrightarrow>
     foldl env_entry env (map (\<lambda>(k, v). k @ CHR ''='' # v) pinned) = foldl (\<lambda>d (k, v). dict_set k v d) env pinned"
  by (induction pinned arbitrary: env) (auto simp: env_entry_pinned env_keys_clean_def)

text \<open>The env file a rerun is launched with says what it must: read back, a pinned key has the value the rerun
  pinned (the last, where one is pinned twice), whatever the launch env said of it, and every other key the value the
  launch env had.\<close>

theorem rerun_env_reads_back:
  assumes "env_keys_clean pinned"
  shows "map_of (read_env (rerun_env env_lines pinned)) k =
     (case map_of (rev pinned) k of Some v \<Rightarrow> Some v | None \<Rightarrow> map_of (read_env env_lines) k)"
proof -
  have fold_set: "map_of (foldl (\<lambda>d (k, v). dict_set k v d) env pinned) k =
      (case map_of (rev pinned) k of Some v \<Rightarrow> Some v | None \<Rightarrow> map_of env k)" for env :: "(string, string) dict"
    by (induction pinned arbitrary: env) (auto simp: update_conv' map_add_def split: option.splits)
  have other: "py_strip (fst (py_partition (CHR ''='') line)) \<noteq> k"
    if "map_of (rev pinned) k = None" and "\<not> fst (py_partition (CHR ''='') line) \<notin> set (keys pinned)" for line
  proof -
    from that(2) obtain v where "(fst (py_partition (CHR ''='') line), v) \<in> set pinned" by (auto simp: keys_def)
    moreover from this have "plain_key (fst (py_partition (CHR ''='') line))"
      using assms by (auto simp: env_keys_clean_def list_all_iff)
    ultimately show ?thesis using that(1) by (force simp: plain_key_strip map_of_eq_None_iff)
  qed
  show ?thesis
  proof (cases "map_of (rev pinned) k")
    case None
    let ?kept = "filter (\<lambda>line. fst (py_partition (CHR ''='') line) \<notin> set (keys pinned)) env_lines"
    have "map_of (foldl env_entry [] ?kept) k = map_of (foldl env_entry [] env_lines) k"
      by (rule map_of_env_filter) (rule other [OF None], simp_all)
    with None show ?thesis by (simp add: read_env_def rerun_env_def foldl_env_pinned [OF assms] fold_set)
  next
    case (Some v)
    then show ?thesis by (simp add: read_env_def rerun_env_def foldl_env_pinned [OF assms] fold_set)
  qed
qed

theorem rerun_env_reads_back_witness:
  "map_of (read_env (rerun_env [''SETUP=dc'', '' AGENT_NODES = 4''] [(''AGENT_NODES'', ''2'')])) ''AGENT_NODES'' =
     Some ''2'' \<and>
   map_of (read_env (rerun_env [''SETUP=dc'', '' AGENT_NODES = 4''] [(''AGENT_NODES'', ''2'')])) ''SETUP'' =
     map_of (read_env [''SETUP=dc'', '' AGENT_NODES = 4'']) ''SETUP''"
proof -
  have clean: "env_keys_clean [(''AGENT_NODES'', ''2'')]" by code_simp
  show ?thesis by (simp add: rerun_env_reads_back [OF clean])
qed

end
