(* ===== verification/Score_Rule.thy ===== *)
theory Score_Rule
  imports Prelude Complex_Main "HOL-Library.Multiset"
begin

text \<open>
  The numbers of a grade: the per-task score \<open>S_i\<close> (\<open>stats/score_rule.py\<close>), the means it and the suite
  aggregate use (\<open>stats/summary.py\<close>, \<open>harness/metric.py\<close>), and the grading protocols whose stamp a graded row
  carries (\<open>protocols.py\<close>). Python floats are real numbers here: rounding is not modelled. A value the code
  tests for being finite is a \<open>py_float\<close>.
\<close>

datatype py_float = Finite real | Pos_Inf | Neg_Inf | Not_A_Number

fun isfinite :: "py_float \<Rightarrow> bool" where
  "isfinite (Finite x) = True"
| "isfinite _ = False"

text \<open>\<open>x > y\<close> against a finite bound: false of a NaN.\<close>

fun float_above :: "py_float \<Rightarrow> real \<Rightarrow> bool" where
  "float_above (Finite x) y = (x > y)"
| "float_above Pos_Inf y = True"
| "float_above Neg_Inf y = False"
| "float_above Not_A_Number y = False"

section \<open>Means\<close>

text \<open>\<open>summary.geomean\<close> in its raising mode, the one the grading path uses.\<close>

definition summary_geomean :: "real list \<Rightarrow> real res" where
  "summary_geomean xs =
     (if xs = [] then Inl (ValueError ''the geometric mean of no values is undefined'')
      else if list_ex (\<lambda>x. \<not> x > 0) xs then Inl (ValueError ''every value must be finite and strictly positive'')
      else Inr (exp (sum_list (map ln xs) / real (length xs))))"

text \<open>\<open>score_rule.geomean\<close>, and \<open>metric.geomean\<close> over the positive entries.\<close>

definition geomean :: "real list \<Rightarrow> real res" where
  "geomean positive =
     (if length positive = 1 then Inr (hd positive)
      else if positive \<noteq> [] then summary_geomean positive else Inr 0)"

definition metric_geomean :: "real list \<Rightarrow> real res" where
  "metric_geomean xs = geomean (filter (\<lambda>x. x > 0) xs)"

definition hmean :: "real list \<Rightarrow> real" where
  "hmean xs =
     (let xs = filter (\<lambda>x. x > 0) xs
      in if xs \<noteq> [] then real (length xs) / sum_list (map (\<lambda>x. 1 / x) xs) else 0)"

text \<open>\<open>statistics.median\<close> and \<open>statistics.stdev\<close> of a non-empty sample (the sample deviation needs two).\<close>

definition median :: "real list \<Rightarrow> real" where
  "median xs =
     (let s = sort xs; n = length s
      in if n mod 2 = 1 then s ! (n div 2) else (s ! (n div 2 - 1) + s ! (n div 2)) / 2)"

definition stdev :: "real list \<Rightarrow> real" where
  "stdev xs =
     (let n = real (length xs); m = sum_list xs / n
      in sqrt (sum_list (map (\<lambda>x. (x - m)\<^sup>2) xs) / (n - 1)))"

definition gsd :: "real list \<Rightarrow> real" where
  "gsd ratios =
     (let logs = map ln (filter (\<lambda>r. r > 0) ratios)
      in if length logs > 1 then exp (stdev logs) else 1)"

text \<open>\<open>credit\<close>: the score of a task from its per-input credits.\<close>

record credit_result =
  cr_score :: real
  cr_geomean :: real
  cr_gsd :: real

definition credit :: "real list \<Rightarrow> bool \<Rightarrow> credit_result res" where
  "credit ratios solved =
     (let positive = filter (\<lambda>r. r > 0) ratios
      in bindE (geomean positive) (\<lambda>g.
           Inr \<lparr>cr_score = (if solved \<and> positive \<noteq> [] then g else 1), cr_geomean = g, cr_gsd = gsd positive\<rparr>))"

section \<open>Disclosure views\<close>

definition fast_p :: "(bool \<times> real) list \<Rightarrow> real list \<Rightarrow> (real, real) dict" where
  "fast_p results thresholds =
     (let n = length results
      in map (\<lambda>p. (p, if n \<noteq> 0 then real (length (filter (\<lambda>(correct, s). correct \<and> s \<ge> p) results)) / real n else 0))
           thresholds)"

definition max_memory :: "int list \<Rightarrow> real" where
  "max_memory peaks =
     (let xs = map real_of_int (filter (\<lambda>p. p > 0) peaks)
      in if xs \<noteq> [] then sum_list xs / real (length xs) else 0)"

definition norm_memory :: "(int \<times> int) list \<Rightarrow> real res" where
  "norm_memory pairs =
     metric_geomean (map (\<lambda>(c, b). real_of_int c / real_of_int b) (filter (\<lambda>(c, b). c > 0 \<and> b > 0) pairs))"

section \<open>Protocols\<close>

datatype statistic = Stat_Min | Stat_Mannwhitney | Stat_Median

datatype role = GRADE | PREVIEW | CALIBRATION | LIVE

record protocol =
  pr_stamp :: string
  pr_role :: role
  pr_statistic :: statistic
  pr_inputs :: "nat option"
  pr_repeat :: "nat option"
  pr_alpha :: real
  pr_calibrates :: string

definition TIMING_TESTS :: "(statistic, string) dict" where
  "TIMING_TESTS = [(Stat_Mannwhitney, ''mannwhitney_delta'')]"

definition timing_test :: "protocol \<Rightarrow> string option" where
  "timing_test p = map_of TIMING_TESTS (pr_statistic p)"

definition hidden :: "protocol \<Rightarrow> bool" where
  "hidden p \<longleftrightarrow> pr_role p \<noteq> PREVIEW"

definition AA_SUFFIX :: string where "AA_SUFFIX = ''-aa''"

definition aa :: "protocol \<Rightarrow> string" where
  "aa p = pr_stamp p @ AA_SUFFIX"

text \<open>\<open>protocol\<close>: the checks a new entry meets; \<open>tests\<close> are the timing tests that are registered.\<close>

definition checked_protocol ::
    "string list \<Rightarrow> string \<Rightarrow> role \<Rightarrow> statistic \<Rightarrow> nat option \<Rightarrow> nat option \<Rightarrow> real \<Rightarrow> protocol res" where
  "checked_protocol tests stamp role statistic inputs rep alpha =
     (let timed = (role = GRADE \<or> role = PREVIEW);
          positive = (\<lambda>x. case x of Some n \<Rightarrow> n > 0 | None \<Rightarrow> False)
      in if timed \<and> \<not> (positive inputs \<and> positive rep) then Inl (ValueError ''needs inputs > 0 and repeat > 0'')
         else if \<not> timed \<and> (inputs \<noteq> None \<or> rep \<noteq> None) then Inl (ValueError ''has no inputs or repeat'')
         else if \<not> (0 < alpha \<and> alpha < 1) then Inl (ValueError ''alpha must lie in (0, 1)'')
         else if (case map_of TIMING_TESTS statistic of Some t \<Rightarrow> t \<notin> set tests | None \<Rightarrow> False)
           then Inl (ValueError ''unknown timing test'')
         else Inr \<lparr>pr_stamp = stamp, pr_role = role, pr_statistic = statistic, pr_inputs = inputs, pr_repeat = rep,
                pr_alpha = alpha, pr_calibrates = []\<rparr>)"

definition register :: "(string, protocol) dict \<Rightarrow> protocol \<Rightarrow> (string, protocol) dict res" where
  "register table entry =
     (if map_of table (pr_stamp entry) \<noteq> None then Inl (ValueError ''is registered twice'')
      else Inr (dict_set (pr_stamp entry) entry table))"

definition grading_protocol ::
    "string list \<Rightarrow> (string, protocol) dict \<Rightarrow> string \<Rightarrow> role \<Rightarrow> statistic \<Rightarrow> nat \<Rightarrow> nat \<Rightarrow> real \<Rightarrow> (string, protocol) dict res" where
  "grading_protocol tests table stamp role statistic inputs rep alpha =
     bindE (checked_protocol tests stamp role statistic (Some inputs) (Some rep) alpha) (\<lambda>entry.
     bindE (register table entry) (\<lambda>table.
       if role = GRADE
       then register table (entry\<lparr>pr_stamp := aa entry, pr_role := CALIBRATION, pr_calibrates := stamp\<rparr>)
       else Inr table))"

definition live_reduction ::
    "string list \<Rightarrow> (string, protocol) dict \<Rightarrow> string \<Rightarrow> statistic \<Rightarrow> (string, protocol) dict res" where
  "live_reduction tests table stamp statistic =
     bindE (checked_protocol tests stamp LIVE statistic None None (1 / 10)) (register table)"

definition protocol_named :: "(string, protocol) dict \<Rightarrow> string \<Rightarrow> protocol res" where
  "protocol_named table stamp =
     (case map_of table stamp of Some p \<Rightarrow> Inr p | None \<Rightarrow> Inl (ValueError ''is not registered''))"

definition grade_protocols :: "(string, protocol) dict \<Rightarrow> string list" where
  "grade_protocols table = map fst (filter (\<lambda>(stamp, p). pr_role p = GRADE) table)"

definition calibration_stamps :: "(string, protocol) dict \<Rightarrow> string list" where
  "calibration_stamps table = map fst (filter (\<lambda>(stamp, p). pr_role p = CALIBRATION) table)"

definition credited_name :: "(string, protocol) dict \<Rightarrow> string \<Rightarrow> string res" where
  "credited_name table configured =
     (if configured \<notin> set (grade_protocols table) then Inl (ValueError ''is not a grade protocol'') else Inr configured)"

definition credited :: "(string, protocol) dict \<Rightarrow> string \<Rightarrow> protocol res" where
  "credited table configured =
     bindE (credited_name table configured) (dict_item KeyError table)"

definition preview :: "(string, protocol) dict \<Rightarrow> protocol res" where
  "preview table =
     (case filter (\<lambda>p. pr_role p = PREVIEW) (map snd table) of
        [p] \<Rightarrow> Inr p | _ \<Rightarrow> Inl (ValueError ''exactly one must have role preview''))"

definition final_timing_test :: "(string, protocol) dict \<Rightarrow> string \<Rightarrow> string res" where
  "final_timing_test table configured =
     bindE (credited table configured) (\<lambda>p.
       case timing_test p of None \<Rightarrow> Inl (ValueError ''declares no timing test'') | Some t \<Rightarrow> Inr t)"

text \<open>The registrations at the end of the module, in order.\<close>

definition grading_registrations :: "(string \<times> role \<times> nat \<times> nat) list" where
  "grading_registrations =
     [(''mw4x5'', GRADE, 4, 5), (''mw2x3'', PREVIEW, 2, 3), (''mw4x10'', GRADE, 4, 10), (''mw1x10'', GRADE, 1, 10),
      (''mw4x20'', GRADE, 4, 20), (''mw1x20'', GRADE, 1, 20)]"

definition live_registrations :: "(string \<times> statistic) list" where
  "live_registrations =
     [(''mw2x5'', Stat_Mannwhitney), (''mwd-v3'', Stat_Mannwhitney), (''mok-v1-varied'', Stat_Min), (''medk-v1-varied'', Stat_Median),
      (''mwd-v2'', Stat_Mannwhitney), (''mok-v1'', Stat_Min), (''medk-v1'', Stat_Median)]"

definition PROTOCOLS :: "string list \<Rightarrow> (string, protocol) dict res" where
  "PROTOCOLS tests =
     bindE (foldE (\<lambda>table (stamp, role, inputs, rep).
         grading_protocol tests table stamp role Stat_Mannwhitney inputs rep (1 / 10)) [] grading_registrations)
       (\<lambda>table. foldE (\<lambda>table (stamp, statistic). live_reduction tests table stamp statistic) table live_registrations)"

section \<open>The geometric mean\<close>

definition log_mean :: "real list \<Rightarrow> real" where
  "log_mean xs = sum_list (map ln xs) / real (length xs)"

lemma geomean_positive:
  assumes "xs \<noteq> []" and "\<And>x. x \<in> set xs \<Longrightarrow> 0 < x"
  shows "geomean xs = Inr (exp (log_mean xs))"
proof (cases "length xs = 1")
  case True
  then obtain x where "xs = [x]" by (cases xs) auto
  then show ?thesis using assms(2) by (simp add: geomean_def log_mean_def)
next
  case False
  then show ?thesis using assms by (auto simp: geomean_def summary_geomean_def log_mean_def list_ex_iff)
qed

lemma metric_geomean_total: "\<exists>g. metric_geomean xs = Inr g"
proof (cases "filter (\<lambda>x. x > 0) xs = []")
  case False
  then have "geomean (filter (\<lambda>x. x > 0) xs) = Inr (exp (log_mean (filter (\<lambda>x. x > 0) xs)))"
    by (rule geomean_positive) simp
  then show ?thesis by (simp add: metric_geomean_def)
qed (simp add: metric_geomean_def geomean_def)

lemma log_mean_bounds:
  assumes "xs \<noteq> []" and "\<And>x. x \<in> set xs \<Longrightarrow> lo \<le> ln x \<and> ln x \<le> hi"
  shows "lo \<le> log_mean xs \<and> log_mean xs \<le> hi"
proof -
  have "real (length xs) * lo \<le> sum_list (map ln xs) \<and> sum_list (map ln xs) \<le> real (length xs) * hi"
    using assms(2) by (induction xs) (auto simp: algebra_simps intro: add_mono)
  moreover have "0 < real (length xs)" using assms(1) by simp
  ultimately show ?thesis by (simp add: log_mean_def field_simps)
qed

lemma exp_log_mean_bounds:
  assumes "xs \<noteq> []" and pos: "\<And>x. x \<in> set xs \<Longrightarrow> 0 < x"
  shows "Min (set xs) \<le> exp (log_mean xs)" and "exp (log_mean xs) \<le> Max (set xs)"
proof -
  have ends: "0 < Min (set xs)" "0 < Max (set xs)" using assms by auto
  have "ln (Min (set xs)) \<le> log_mean xs \<and> log_mean xs \<le> ln (Max (set xs))"
    using assms(1) ends pos by (intro log_mean_bounds) (auto simp: ln_le_cancel_iff)
  then show "Min (set xs) \<le> exp (log_mean xs)" "exp (log_mean xs) \<le> Max (set xs)"
    using ends by (metis exp_le_cancel_iff exp_ln)+
qed

lemma exp_log_mean_power:
  assumes "xs \<noteq> []" and "\<And>x. x \<in> set xs \<Longrightarrow> 0 < x"
  shows "exp (log_mean xs) ^ length xs = prod_list xs"
proof -
  have "exp (sum_list (map ln xs)) = prod_list xs"
    using assms(2) by (induction xs) (auto simp: exp_add)
  then show ?thesis using assms(1)
    by (simp add: log_mean_def exp_of_nat_mult [symmetric])
qed

lemma log_mean_mset: "mset xs = mset ys \<Longrightarrow> log_mean xs = log_mean ys"
  by (simp add: log_mean_def sum_mset_sum_list [symmetric] mset_map size_mset [symmetric] del: size_mset)

lemma credit_total: "\<exists>c. credit ratios solved = Inr c"
  using metric_geomean_total [of ratios] by (auto simp: credit_def Let_def metric_geomean_def)


section \<open>The registered protocols\<close>

lemma PROTOCOLS_keys:
  "map_sum id keys (PROTOCOLS [''mannwhitney_delta'']) =
     Inr [''mw4x5'', ''mw4x5-aa'', ''mw2x3'', ''mw4x10'', ''mw4x10-aa'', ''mw1x10'', ''mw1x10-aa'', ''mw4x20'',
       ''mw4x20-aa'', ''mw1x20'', ''mw1x20-aa'', ''mw2x5'', ''mwd-v3'', ''mok-v1-varied'', ''medk-v1-varied'',
       ''mwd-v2'', ''mok-v1'', ''medk-v1'']"
  by (simp add: PROTOCOLS_def grading_registrations_def live_registrations_def grading_protocol_def live_reduction_def
      checked_protocol_def register_def TIMING_TESTS_def aa_def AA_SUFFIX_def keys_def)

end
