(* ===== verification/Registry.thy ===== *)
theory Registry
  imports Prelude
begin

text \<open>
  The ordered registry of one kind of named thing (\<open>registry.py\<close>): entries in slots, aliases, and the refusal of a
  name taken twice.
\<close>

record 'e kind =
  k_entries :: "(string, 'e) dict"
  k_orders :: "(string, nat option) dict"
  k_aliases :: "(string, string) dict"

definition empty_kind :: "'e kind" where
  "empty_kind = \<lparr>k_entries = [], k_orders = [], k_aliases = []\<rparr>"

definition alias_taken :: "'e kind \<Rightarrow> string \<Rightarrow> string list \<Rightarrow> string \<Rightarrow> bool" where
  "alias_taken K key names other \<longleftrightarrow>
     other \<in> set (keys (k_entries K)) \<or>
     (case map_of (k_aliases K) other of Some k \<Rightarrow> k | None \<Rightarrow> key) \<noteq> key \<or> other = key \<or> count_list names other > 1"

definition add_entry :: "'e kind \<Rightarrow> string \<Rightarrow> 'e \<Rightarrow> bool \<Rightarrow> string list \<Rightarrow> 'e kind res" where
  "add_entry K key entry slotted names =
     (if key \<in> set (keys (k_entries K)) \<or> key \<in> set (keys (k_aliases K)) then Inl (ValueError ''is registered twice'')
      else if list_ex (alias_taken K key names) names then Inl (ValueError ''is already a name or an alias'')
      else Inr \<lparr>k_entries = dict_set key entry (k_entries K),
                k_orders = dict_set key (if slotted then Some (length (filter (\<lambda>x. x \<noteq> None) (map snd (k_orders K)))) else None)
                  (k_orders K),
                k_aliases = foldl (\<lambda>d name. dict_set name key d) (k_aliases K) names\<rparr>)"

text \<open>\<open>keys\<close>: a stable sort by slot, an entry with no slot first.\<close>

definition slot_rank :: "'e kind \<Rightarrow> string \<Rightarrow> int" where
  "slot_rank K key = (case map_of (k_orders K) key of Some (Some n) \<Rightarrow> int n | _ \<Rightarrow> - 1)"

definition kind_keys :: "'e kind \<Rightarrow> string list" where
  "kind_keys K = sort_key (slot_rank K) (keys (k_entries K))"

definition canonical_key :: "'e kind \<Rightarrow> string \<Rightarrow> string" where
  "canonical_key K tag = (case map_of (k_aliases K) tag of Some key \<Rightarrow> key | None \<Rightarrow> tag)"

definition kind_item :: "'e kind \<Rightarrow> string \<Rightarrow> 'e res" where
  "kind_item K key = dict_item (\<lambda>_. KeyError key) (k_entries K) (canonical_key K key)"

definition kind_has :: "'e kind \<Rightarrow> string \<Rightarrow> bool" where
  "kind_has K key \<longleftrightarrow> canonical_key K key \<in> set (keys (k_entries K))"

definition kind_slot :: "'e kind \<Rightarrow> string \<Rightarrow> nat option res" where
  "kind_slot K key = dict_item KeyError (k_orders K) key"

text \<open>A registration is a call of \<open>add\<close>; a module registers one after another.\<close>

definition register_all :: "(string \<times> 'e \<times> bool \<times> string list) list \<Rightarrow> 'e kind res" where
  "register_all regs = foldE (\<lambda>K (key, entry, slotted, names). add_entry K key entry slotted names) empty_kind regs"

section \<open>The registry's invariant\<close>

definition kind_ok :: "'e kind \<Rightarrow> bool" where
  "kind_ok K \<longleftrightarrow>
     distinct (keys (k_entries K)) \<and> keys (k_orders K) = keys (k_entries K) \<and>
     set (keys (k_aliases K)) \<inter> set (keys (k_entries K)) = {} \<and>
     (\<forall>a k. map_of (k_aliases K) a = Some k \<longrightarrow> k \<in> set (keys (k_entries K)))"

lemma keys_dict_set_new: "key \<notin> set (keys d) \<Longrightarrow> keys (dict_set key v d) = keys d @ [key]"
  by (induction d) (auto simp: keys_def)

lemma map_of_alias_fold:
  "map_of (foldl (\<lambda>d name. dict_set name key d) d names) a = (if a \<in> set names then Some key else map_of d a)"
  by (induction names arbitrary: d) (auto simp: update_conv')

lemma keys_alias_fold:
  "set (keys (foldl (\<lambda>d name. dict_set name key d) d names)) = set (keys d) \<union> set names"
  by (induction names arbitrary: d) (auto simp: keys_def update_keys dom_update)

lemma add_entry_shape:
  assumes "add_entry K key entry slotted names = Inr K'"
  shows "key \<notin> set (keys (k_entries K))" "key \<notin> set (keys (k_aliases K))"
    "list_all (\<lambda>n. \<not> alias_taken K key names n) names"
    "k_entries K' = dict_set key entry (k_entries K)"
    "k_orders K' = dict_set key (if slotted then Some (length (filter (\<lambda>x. x \<noteq> None) (map snd (k_orders K)))) else None)
       (k_orders K)"
    "k_aliases K' = foldl (\<lambda>d name. dict_set name key d) (k_aliases K) names"
  using assms by (auto simp: add_entry_def list_all_iff list_ex_iff split: if_splits)

lemma add_entry_ok:
  assumes "kind_ok K" and "add_entry K key entry slotted names = Inr K'"
  shows "kind_ok K'"
proof -
  note shape = add_entry_shape [OF assms(2)]
  have keys: "keys (k_entries K') = keys (k_entries K) @ [key]" "keys (k_orders K') = keys (k_entries K) @ [key]"
    using shape assms(1) by (simp_all add: keys_dict_set_new kind_ok_def)
  have names: "n \<notin> set (keys (k_entries K))" "n \<noteq> key" if "n \<in> set names" for n
    using shape(3) that by (auto simp: list_all_iff alias_taken_def)
  show ?thesis
    using assms(1) names shape(1,2)
    by (auto simp: kind_ok_def keys shape(6) keys_alias_fold map_of_alias_fold split: if_splits)
qed

lemma register_all_ok:
  assumes "register_all regs = Inr K"
  shows "kind_ok K"
  using assms unfolding register_all_def
proof (rule foldE_invariant)
  show "kind_ok empty_kind" by (simp add: kind_ok_def empty_kind_def keys_def)
qed (auto intro: add_entry_ok)

lemma register_all_snoc:
  "register_all (regs @ [(key, entry, slotted, names)]) =
     bindE (register_all regs) (\<lambda>K. add_entry K key entry slotted names)"
  by (simp add: register_all_def foldE_append bindE_return)

lemma map_of_entries:
  "register_all regs = Inr K \<Longrightarrow> map_of (k_entries K) key = map_of (map (\<lambda>(key, entry, _). (key, entry)) regs) key"
proof (induction regs arbitrary: K key rule: rev_induct)
  case Nil
  then show ?case by (auto simp: register_all_def empty_kind_def)
next
  case (snoc reg regs)
  obtain key' entry slotted names where reg: "reg = (key', entry, slotted, names)" by (cases reg) auto
  with snoc.prems obtain K0 where K0: "register_all regs = Inr K0" "add_entry K0 key' entry slotted names = Inr K"
    by (auto simp: register_all_snoc bindE_Inr_iff)
  note shape = add_entry_shape [OF K0(2)]
  have "map_of (k_entries K0) key' = None"
    using shape(1) by (simp add: keys_def map_of_eq_None_iff)
  with snoc.IH [OF K0(1), of key'] snoc.IH [OF K0(1), of key] show ?case
    by (auto simp: shape(4) reg update_conv' map_add_def split: option.splits)
qed

lemma add_entry_keeps:
  assumes ok: "kind_ok K" and add: "add_entry K key entry slotted names = Inr K'" and "kind_item K name = Inr e"
  shows "kind_item K' name = Inr e"
proof -
  note shape = add_entry_shape [OF add]
  let ?c = "canonical_key K name"
  have c: "map_of (k_entries K) ?c = Some e"
    using assms(3) by (simp add: kind_item_def dict_item_def split: option.splits)
  then have in_K: "?c \<in> set (keys (k_entries K))" by (force simp: keys_def dest: map_of_SomeD)
  have not_new: "name \<notin> set names"
  proof
    assume "name \<in> set names"
    then have "\<not> alias_taken K key names name" using shape(3) by (simp add: list_all_iff)
    then have "name \<notin> set (keys (k_entries K))" and al: "map_of (k_aliases K) name = None \<or> map_of (k_aliases K) name = Some key"
      by (auto simp: alias_taken_def split: option.splits)
    with in_K have "map_of (k_aliases K) name = Some key" by (auto simp: canonical_key_def)
    with ok shape(1) show False by (auto simp: kind_ok_def)
  qed
  have "name \<noteq> key"
  proof
    assume "name = key"
    then have "map_of (k_aliases K) name = None" using shape(2) by (simp add: keys_def map_of_eq_None_iff)
    with in_K shape(1) \<open>name = key\<close> show False by (simp add: canonical_key_def)
  qed
  have "canonical_key K' name = ?c"
    using not_new by (simp add: canonical_key_def shape(6) map_of_alias_fold)
  moreover have "?c \<noteq> key" using in_K shape(1) by auto
  ultimately show ?thesis using c by (simp add: kind_item_def dict_item_def shape(4) update_conv')
qed

text \<open>A registry answers for every name it accepted: after any sequence of registrations that was not refused,
  each entry is found under its key and under each of its aliases, whatever was registered before or after it.\<close>

theorem registry_resolves:
  assumes "register_all regs = Inr K" and "(key, entry, slotted, names) \<in> set regs" and "name = key \<or> name \<in> set names"
  shows "kind_item K name = Inr entry"
  using assms(1,2)
proof (induction regs arbitrary: K rule: rev_induct)
  case (snoc reg regs)
  obtain key' entry' slotted' names' where reg: "reg = (key', entry', slotted', names')" by (cases reg) auto
  with snoc.prems obtain K0 where K0: "register_all regs = Inr K0" "add_entry K0 key' entry' slotted' names' = Inr K"
    by (auto simp: register_all_snoc bindE_Inr_iff)
  show ?case
  proof (cases "(key, entry, slotted, names) \<in> set regs")
    case True
    from add_entry_keeps [OF register_all_ok [OF K0(1)] K0(2) snoc.IH [OF K0(1) True]] show ?thesis .
  next
    case False
    then have last: "key' = key" "entry' = entry" "slotted' = slotted" "names' = names"
      using snoc.prems(2) reg by auto
    note shape = add_entry_shape [OF K0(2), unfolded last]
    have "key \<notin> set names" using shape(3) by (auto simp: list_all_iff alias_taken_def)
    moreover have "map_of (k_aliases K0) key = None" using shape(2) by (simp add: keys_def map_of_eq_None_iff)
    ultimately have "canonical_key K name = key"
      using assms(3) by (auto simp: canonical_key_def shape(6) map_of_alias_fold)
    then show ?thesis by (simp add: kind_item_def dict_item_def shape(4) update_conv')
  qed
qed simp

theorem registry_resolves_witness:
  "\<exists>K. register_all [(''mi300a'', 1 :: nat, True, [''beverin'', ''apu'']), (''gh200'', 2, True, [])] = Inr K \<and>
     kind_item K ''apu'' = Inr 1 \<and> kind_item K ''gh200'' = Inr 2"
proof -
  let ?regs = "[(''mi300a'', 1 :: nat, True, [''beverin'', ''apu'']), (''gh200'', 2, True, [])]"
  obtain K where K: "register_all ?regs = Inr K"
    by (simp add: register_all_def add_entry_def empty_kind_def alias_taken_def keys_def)
  have "kind_item K ''apu'' = Inr 1" by (rule registry_resolves [OF K, of "''mi300a''" 1 True "[''beverin'', ''apu'']"]) simp_all
  moreover have "kind_item K ''gh200'' = Inr 2" by (rule registry_resolves [OF K, of "''gh200''" 2 True "[]"]) simp_all
  ultimately show ?thesis using K by blast
qed

end
