(* ===== verification/Anticheat.thy ===== *)
theory Anticheat
  imports Grade_Records Registry
begin

text \<open>
  The anti-cheat gates (\<open>anticheat.py\<close>): the registered gates in their order, the check of each post-run gate, the
  loop that judges a finished grade, and what a judgement says. A re-run of the submission (the independent verify
  and the sanitizer leg) is outside the model: the context carries what it would answer. Wall-clock seconds are not
  modelled, only which gates ran.
\<close>

section \<open>Gates\<close>

datatype verdict = V_CONSTRUCTION | V_REJECT | V_FLAG | V_FINAL

definition IN_PLACE :: "verdict list" where "IN_PLACE = [V_CONSTRUCTION, V_FINAL]"

datatype effect = E_REJECT | E_FLAG | E_FAULT | E_UNGRADEABLE | E_NOTE

definition CREDITED_EFFECTS :: "effect list" where "CREDITED_EFFECTS = [E_FLAG, E_NOTE]"

type_synonym found = "effect \<times> string"

record sanitizer_verdict =
  sv_applied :: bool
  sv_memory_error :: string
  sv_note :: string

datatype residency = HOST | DEVICE | DISTRIBUTED

text \<open>What a check reads: the grade, where it ran, the configuration, and what a re-run would answer.\<close>

record gate_context =
  cx_score :: score
  cx_residency :: residency
  cx_gpu_graded :: bool
  cx_timing :: timing_config
  cx_record :: record_config
  cx_verify :: "verify_result res"
  cx_sanitize :: "sanitizer_verdict option res"

type_synonym check = "gate_context \<Rightarrow> found list res"

record gate =
  ga_verdict :: verdict
  ga_where :: "string list"
  ga_reruns :: bool
  ga_check :: "check option"

text \<open>\<open>Gate.__post_init__\<close> (the spelling of the symbol apart).\<close>

definition checked_gate :: "gate \<Rightarrow> gate res" where
  "checked_gate g =
     (if ga_where g = [] \<or> list_ex (\<lambda>w. w = []) (ga_where g) then Inl (ValueError ''where must name a path'')
      else if ga_check g = None \<and> ga_reruns g then Inl (ValueError ''reruns describes a check; the gate has none'')
      else if ga_check g \<noteq> None \<and> ga_verdict g \<in> set IN_PLACE then Inl (ValueError ''enforced in place, takes no check'')
      else Inr g)"

record finding =
  f_gate :: string
  f_effect :: effect
  f_text :: string

record judgement =
  j_findings :: "finding list"
  j_ran :: "string list"

definition judgement_ok :: "judgement \<Rightarrow> bool" where
  "judgement_ok j \<longleftrightarrow> list_all (\<lambda>f. f_effect f \<in> set CREDITED_EFFECTS) (j_findings j)"

definition has_effect :: "effect \<Rightarrow> judgement \<Rightarrow> bool" where
  "has_effect e j \<longleftrightarrow> list_ex (\<lambda>f. f_effect f = e) (j_findings j)"

abbreviation j_suspect :: "judgement \<Rightarrow> bool" where "j_suspect \<equiv> has_effect E_FLAG"
abbreviation j_harness_fault :: "judgement \<Rightarrow> bool" where "j_harness_fault \<equiv> has_effect E_FAULT"
abbreviation j_ungradeable :: "judgement \<Rightarrow> bool" where "j_ungradeable \<equiv> has_effect E_UNGRADEABLE"

definition effect_text :: "effect \<Rightarrow> judgement \<Rightarrow> string" where
  "effect_text e j =
     join_text ''; '' (map (\<lambda>f. f_gate f @ '': '' @ f_text f) (filter (\<lambda>f. f_effect f = e) (j_findings j)))"

definition j_flags :: "judgement \<Rightarrow> string" where "j_flags = effect_text E_FLAG"
definition j_notes :: "judgement \<Rightarrow> string" where "j_notes = effect_text E_NOTE"
definition j_reason :: "judgement \<Rightarrow> string" where "j_reason = effect_text E_REJECT"

section \<open>The checks\<close>

definition REP_VERIFY_DETAIL :: string where "REP_VERIFY_DETAIL = ''rep-verify''"

definition rep_variation :: check where
  "rep_variation cx =
     (let s = cx_score cx
      in Inr (if s_build_ok s \<and> \<not> s_public_correct s \<and> starts_with_text (s_detail s) REP_VERIFY_DETAIL
              then [(E_REJECT, s_detail s)] else []))"

definition size_class_sweep :: check where
  "size_class_sweep cx =
     (let s = cx_score cx
      in Inr (if s_build_ok s \<and> s_public_correct s \<and> \<not> s_hidden_correct s then [(E_REJECT, ''overfit'')] else []))"

definition device_runtime :: check where
  "device_runtime cx =
     (let runtime = s_device_runtime (cx_score cx)
      in Inr (if runtime \<noteq> [] then [(E_FLAG, ''gpu runtime mapped ('' @ runtime @ '')'')] else []))"

definition quiescence :: check where
  "quiescence cx =
     (let s = cx_score cx; cfg = cx_timing cx
      in Inr (if s_device_index s < 0 then []
              else if \<not> quiescent cfg (of_int (s_residual_ns s)) (of_int (s_native_ns s))
                then [(E_FLAG, ''device busy '' @ int_text (s_residual_ns s) @ '' ns after the clock stopped'')]
              else if \<not> clocks_agree cfg (of_int (s_event_ns s)) (of_int (s_host_ns s))
                then [(E_FLAG, ''host clock '' @ int_text (s_host_ns s) @ '' ns against event clock '' @
                         int_text (s_event_ns s) @ '' ns'')]
              else []))"

text \<open>\<open>task.device_plausibility_row\<close>.\<close>

definition device_plausibility_row :: "residency \<Rightarrow> bool \<Rightarrow> bool" where
  "device_plausibility_row residency gpu_graded \<longleftrightarrow> residency = DEVICE \<or> (residency = DISTRIBUTED \<and> gpu_graded)"

definition plausibility :: check where
  "plausibility cx =
     (let s = cx_score cx;
          found = implausibility (cx_record cx) (s_speedup s) (of_int (s_baseline_ns s)) (of_int (s_native_ns s)) None
            (s_floor_ns s) (device_plausibility_row (cx_residency cx) (cx_gpu_graded cx))
      in Inr (if found \<noteq> [] then [(E_FLAG, found)] else []))"

definition independent_verify :: check where
  "independent_verify cx =
     bindE (cx_verify cx) (\<lambda>v. Inr
       (if v_ungradeable v then [(E_UNGRADEABLE, v_reason v)]
        else if v_harness_fault v then [(E_FAULT, v_reason v)]
        else if v_ok v then [] else [(E_REJECT, if v_reason v \<noteq> [] then v_reason v else ''failed'')]))"

definition sanitizers :: check where
  "sanitizers cx =
     bindE (cx_sanitize cx) (\<lambda>verdict. Inr
       (case verdict of
          None \<Rightarrow> []
        | Some v \<Rightarrow>
            if sv_memory_error v \<noteq> [] then [(E_NOTE, sv_memory_error v)]
            else if sv_applied v then [] else [(E_NOTE, ''not applied: '' @ sv_note v)]))"

definition post_run :: "verdict \<Rightarrow> string list \<Rightarrow> bool \<Rightarrow> check \<Rightarrow> gate" where
  "post_run v ws reruns check = \<lparr>ga_verdict = v, ga_where = ws, ga_reruns = reruns, ga_check = Some check\<rparr>"

definition in_place :: "verdict \<Rightarrow> string list \<Rightarrow> gate" where
  "in_place v ws = \<lparr>ga_verdict = v, ga_where = ws, ga_reruns = False, ga_check = None\<rparr>"

definition gate_table :: "(string \<times> gate) list" where
  "gate_table =
     [(''isolated_agent'', in_place V_CONSTRUCTION
         [''agent/hpcagent_agent/driver/seal_worker.py'', ''hpcagent_bench/cluster/run_cluster.sh'',
          ''helpers/scripts/checks/check_no_hidden_in_image.py'', ''hpcagent_bench/harness/service.py'']),
      (''link_allowlist'', in_place V_REJECT [''hpcagent_bench/harness/sandbox.py'']),
      (''device_residency'', in_place V_REJECT [''hpcagent_bench/languages.py'', ''hpcagent_bench/harness/sandbox.py'']),
      (''sealed_child'', in_place V_CONSTRUCTION [''hpcagent_bench/seal.py'']),
      (''fresh_buffers'', in_place V_CONSTRUCTION
         [''hpcagent_bench/harness/native_call.py'', ''hpcagent_bench/harness/mpi_shard_driver.py'']),
      (''rep_variation'', post_run V_REJECT [''hpcagent_bench/harness/rep_variation.py''] False rep_variation),
      (''size_class_sweep'', post_run V_REJECT [''hpcagent_bench/harness/scoring.py'', ''hpcagent_bench/harness/hidden_tests''] False size_class_sweep),
      (''device_runtime'', post_run V_FLAG [''hpcagent_bench/harness/scoring.py''] False device_runtime),
      (''quiescence'', post_run V_FLAG [''hpcagent_bench/harness/timing.py''] False quiescence),
      (''plausibility'', post_run V_FLAG [''hpcagent_bench/harness/scoring.py''] False plausibility),
      (''independent_verify'', post_run V_REJECT [''hpcagent_bench/harness/scoring.py''] True independent_verify),
      (''sanitizers'', post_run V_REJECT [''hpcagent_bench/harness/sanitizers.py''] True sanitizers),
      (''final_grade'', in_place V_FINAL [''hpcagent_bench/harness/grade_under.py''])]"

definition ANTICHEAT :: "gate kind res" where
  "ANTICHEAT = bindE (traverseE (\<lambda>(key, g). bindE (checked_gate g) (\<lambda>g. Inr (key, g, True, []))) gate_table) register_all"

section \<open>The judge's loop\<close>

type_synonym judging = "bool \<times> finding list \<times> string list"

definition judge_step :: "gate_context \<Rightarrow> bool \<Rightarrow> judging \<Rightarrow> string \<times> gate \<Rightarrow> judging res" where
  "judge_step cx rerun state keyed =
     (case (state, keyed) of ((rejected, findings, checked), (key, g)) \<Rightarrow>
        (case ga_check g of
           None \<Rightarrow> Inr state
         | Some check \<Rightarrow>
             if ga_reruns g \<and> (rejected \<or> \<not> rerun) then Inr state
             else bindE (check cx) (\<lambda>found.
               let fs = map (\<lambda>(e, t). \<lparr>f_gate = key, f_effect = e, f_text = t\<rparr>) found
               in Inr (rejected \<or> list_ex (\<lambda>f. f_effect f \<notin> set CREDITED_EFFECTS) fs, findings @ fs, checked @ [key]))))"

definition judge_gates :: "(string \<times> gate) list \<Rightarrow> gate_context \<Rightarrow> bool \<Rightarrow> judgement res" where
  "judge_gates gates cx rerun =
     bindE (foldE (judge_step cx rerun) (\<not> (s_build_ok (cx_score cx) \<and> s_correct (cx_score cx)), [], []) gates)
       (\<lambda>(rejected, findings, checked). Inr \<lparr>j_findings = findings, j_ran = checked\<rparr>)"

definition judge :: "gate_context \<Rightarrow> bool \<Rightarrow> judgement res" where
  "judge cx rerun =
     bindE ANTICHEAT (\<lambda>K.
     bindE (traverseE (\<lambda>key. bindE (dict_item KeyError (k_entries K) key) (\<lambda>g. Inr (key, g))) (kind_keys K)) (\<lambda>gates.
       judge_gates gates cx rerun))"

section \<open>The registered gates, in order\<close>

lemma gate_table_registers:
  "ANTICHEAT = register_all (map (\<lambda>(key, g). (key, g, True, [])) gate_table)"
  by (simp add: ANTICHEAT_def gate_table_def checked_gate_def post_run_def in_place_def IN_PLACE_def)

lemma register_slotted:
  assumes "distinct (map fst gates)"
  shows "\<exists>K. register_all (map (\<lambda>(key, g). (key, g, True, [])) gates) = Inr K \<and> k_entries K = gates \<and>
    k_orders K = map (\<lambda>(i, key). (key, Some i)) (enumerate 0 (map fst gates)) \<and> k_aliases K = []"
  using assms
proof (induction gates rule: rev_induct)
  case Nil
  then show ?case by (simp add: register_all_def empty_kind_def)
next
  case (snoc kg gates)
  obtain key g where kg: "kg = (key, g)" by (cases kg)
  from snoc obtain K where K: "register_all (map (\<lambda>(key, g). (key, g, True, [])) gates) = Inr K" "k_entries K = gates"
    "k_orders K = map (\<lambda>(i, key). (key, Some i)) (enumerate 0 (map fst gates))" "k_aliases K = []"
    by auto
  have new: "key \<notin> fst ` set gates" using snoc.prems kg by auto
  have "map fst (k_orders K) = map fst gates" by (simp add: K(3) comp_def case_prod_unfold)
  then have orders_new: "key \<notin> fst ` set (k_orders K)" using new by (metis list.set_map)
  have "length (filter (\<lambda>x. x \<noteq> None) (map snd (k_orders K))) = length gates"
    by (simp add: K(3) comp_def case_prod_unfold filter_id_conv)
  then show ?case
    using new orders_new K
    by (simp add: kg register_all_snoc add_entry_def keys_def dict_set_new enumerate_append_eq)
qed

lemma kind_keys_slotted:
  assumes "distinct ks" "keys (k_entries K) = ks" "k_orders K = map (\<lambda>(i, key). (key, Some i)) (enumerate 0 ks)"
  shows "kind_keys K = ks"
proof -
  have "slot_rank K (ks ! i) = int i" if "i < length ks" for i
  proof -
    have "(ks ! i, Some i) \<in> set (k_orders K)" using that by (force simp: assms(3) in_set_enumerate_eq)
    moreover have "distinct (map fst (k_orders K))" using assms(1,3) by (simp add: comp_def case_prod_unfold)
    ultimately show ?thesis by (simp add: slot_rank_def)
  qed
  then have "map (slot_rank K) ks = map int [0..<length ks]"
    by (intro nth_equalityI) simp_all
  then have "sorted (map (slot_rank K) ks)" by (simp add: sorted_map)
  then show ?thesis unfolding kind_keys_def assms(2) by (simp add: sort_key_id_if_sorted)
qed

lemma judge_gate_table: "judge cx rerun = judge_gates gate_table cx rerun"
proof -
  have distinct: "distinct (map fst gate_table)" by (simp add: gate_table_def)
  obtain K where K: "ANTICHEAT = Inr K" "k_entries K = gate_table"
      "k_orders K = map (\<lambda>(i, key). (key, Some i)) (enumerate 0 (map fst gate_table))"
    using register_slotted [OF distinct] gate_table_registers by auto
  have "kind_keys K = map fst gate_table"
    by (rule kind_keys_slotted) (use distinct K in \<open>simp_all add: keys_def\<close>)
  moreover have "traverseE (\<lambda>key. bindE (dict_item KeyError gate_table key) (\<lambda>g. Inr (key, g))) (map fst gate_table) =
      Inr gate_table"
    by (simp add: gate_table_def dict_item_def)
  ultimately show ?thesis by (simp add: judge_def K(1,2))
qed

definition tag :: "string \<Rightarrow> found list \<Rightarrow> finding list" where
  "tag key found = map (\<lambda>(e, t). \<lparr>f_gate = key, f_effect = e, f_text = t\<rparr>) found"

text \<open>What the checks that do not re-run the submission find, and whether one of them rejects.\<close>

definition read_only_gates :: "(string \<times> check) list" where
  "read_only_gates =
     [(''rep_variation'', rep_variation), (''size_class_sweep'', size_class_sweep), (''device_runtime'', device_runtime),
      (''quiescence'', quiescence), (''plausibility'', plausibility)]"

definition found_of :: "check \<Rightarrow> gate_context \<Rightarrow> found list" where
  "found_of check cx = (case check cx of Inr found \<Rightarrow> found | Inl _ \<Rightarrow> [])"

lemma read_only_total:
  "rep_variation cx = Inr (found_of rep_variation cx)" "size_class_sweep cx = Inr (found_of size_class_sweep cx)"
  "device_runtime cx = Inr (found_of device_runtime cx)" "quiescence cx = Inr (found_of quiescence cx)"
  "plausibility cx = Inr (found_of plausibility cx)"
  by (simp_all add: found_of_def rep_variation_def size_class_sweep_def device_runtime_def quiescence_def
      plausibility_def Let_def)

definition early_findings :: "gate_context \<Rightarrow> finding list" where
  "early_findings cx = concat (map (\<lambda>(key, check). tag key (found_of check cx)) read_only_gates)"

definition bad :: "finding list \<Rightarrow> bool" where
  "bad fs \<longleftrightarrow> list_ex (\<lambda>f. f_effect f \<notin> set CREDITED_EFFECTS) fs"

definition rejected_early :: "gate_context \<Rightarrow> bool" where
  "rejected_early cx \<longleftrightarrow> \<not> (s_build_ok (cx_score cx) \<and> s_correct (cx_score cx)) \<or> bad (early_findings cx)"

lemma bad_append: "bad (xs @ ys) \<longleftrightarrow> bad xs \<or> bad ys" "bad [] = False"
  by (simp_all add: bad_def)

lemma judge_stages:
  "judge cx rerun =
     (if rejected_early cx \<or> \<not> rerun then Inr \<lparr>j_findings = early_findings cx, j_ran = map fst read_only_gates\<rparr>
      else bindE (independent_verify cx) (\<lambda>vs.
        if bad (tag ''independent_verify'' vs)
        then Inr \<lparr>j_findings = early_findings cx @ tag ''independent_verify'' vs,
                  j_ran = map fst read_only_gates @ [''independent_verify'']\<rparr>
        else bindE (sanitizers cx) (\<lambda>ss.
          Inr \<lparr>j_findings = early_findings cx @ tag ''independent_verify'' vs @ tag ''sanitizers'' ss,
               j_ran = map fst read_only_gates @ [''independent_verify'', ''sanitizers'']\<rparr>)))"
proof -
  have step: "judge_step cx rr (rej, fs, ks) (key, post_run v ws False check) =
      bindE (check cx) (\<lambda>found. Inr (rej \<or> bad (tag key found), fs @ tag key found, ks @ [key]))"
    and rerun_step: "judge_step cx rr (rej, fs, ks) (key, post_run v ws True check) =
      (if rej \<or> \<not> rr then Inr (rej, fs, ks)
       else bindE (check cx) (\<lambda>found. Inr (rej \<or> bad (tag key found), fs @ tag key found, ks @ [key])))"
    and skip: "judge_step cx rr st (key, in_place v ws) = Inr st"
    for rr rej fs ks key v ws check st
    by (simp_all add: judge_step_def post_run_def in_place_def tag_def bad_def Let_def split: prod.split)
  show ?thesis
    unfolding judge_gate_table judge_gates_def gate_table_def
    by (cases "independent_verify cx"; cases "sanitizers cx")
       (simp_all add: step rerun_step skip read_only_total early_findings_def rejected_early_def read_only_gates_def
         bad_append bindE_assoc)
qed

section \<open>What a judgement decides\<close>

definition flagged :: "finding list \<Rightarrow> bool" where
  "flagged fs \<longleftrightarrow> list_ex (\<lambda>f. f_effect f = E_FLAG) fs"

lemma flagged_append: "flagged (xs @ ys) \<longleftrightarrow> flagged xs \<or> flagged ys" "flagged [] = False"
  by (simp_all add: flagged_def)

lemma tag_effects:
  "bad (tag key found) \<longleftrightarrow> list_ex (\<lambda>x. fst x \<notin> set CREDITED_EFFECTS) found"
  "flagged (tag key found) \<longleftrightarrow> list_ex (\<lambda>x. fst x = E_FLAG) found"
  by (induction found) (auto simp: tag_def bad_def flagged_def)

lemma judgement_fields:
  "judgement_ok \<lparr>j_findings = fs, j_ran = ks\<rparr> \<longleftrightarrow> \<not> bad fs" "j_suspect \<lparr>j_findings = fs, j_ran = ks\<rparr> \<longleftrightarrow> flagged fs"
  by (simp_all add: judgement_ok_def bad_def has_effect_def flagged_def list_all_iff list_ex_iff)

definition rep_failed :: "score \<Rightarrow> bool" where
  "rep_failed s \<longleftrightarrow> s_build_ok s \<and> \<not> s_public_correct s \<and> starts_with_text (s_detail s) REP_VERIFY_DETAIL"

definition overfit :: "score \<Rightarrow> bool" where
  "overfit s \<longleftrightarrow> s_build_ok s \<and> s_public_correct s \<and> \<not> s_hidden_correct s"

lemma gates_bad:
  "bad (tag key (found_of rep_variation cx)) \<longleftrightarrow> rep_failed (cx_score cx)"
  "bad (tag key (found_of size_class_sweep cx)) \<longleftrightarrow> overfit (cx_score cx)"
  "\<not> bad (tag key (found_of device_runtime cx))" "\<not> bad (tag key (found_of quiescence cx))"
  "\<not> bad (tag key (found_of plausibility cx))"
  unfolding tag_effects
  by (simp_all add: found_of_def rep_variation_def size_class_sweep_def device_runtime_def quiescence_def
      plausibility_def Let_def CREDITED_EFFECTS_def rep_failed_def overfit_def)

lemma gates_flagged:
  "\<not> flagged (tag key (found_of rep_variation cx))" "\<not> flagged (tag key (found_of size_class_sweep cx))"
  "flagged (tag key (found_of device_runtime cx)) \<longleftrightarrow> s_device_runtime (cx_score cx) \<noteq> []"
  "flagged (tag key (found_of quiescence cx)) \<longleftrightarrow> unsynchronized_timing (cx_timing cx) (cx_score cx)"
  "flagged (tag key (found_of plausibility cx)) \<longleftrightarrow>
     implausibility (cx_record cx) (s_speedup (cx_score cx)) (of_int (s_baseline_ns (cx_score cx)))
       (of_int (s_native_ns (cx_score cx))) None (s_floor_ns (cx_score cx))
       (device_plausibility_row (cx_residency cx) (cx_gpu_graded cx)) \<noteq> []"
  unfolding tag_effects
  by (simp_all add: found_of_def rep_variation_def size_class_sweep_def device_runtime_def quiescence_def
      plausibility_def Let_def unsynchronized_timing_def probe_unsynchronized_def)

lemma early_bad: "bad (early_findings cx) \<longleftrightarrow> rep_failed (cx_score cx) \<or> overfit (cx_score cx)"
  by (simp add: early_findings_def read_only_gates_def bad_append gates_bad)

text \<open>The suspicion the scoring side computes for the same grade.\<close>

definition context_suspect :: "gate_context \<Rightarrow> bool" where
  "context_suspect cx =
     (let s = cx_score cx
      in suspect_timing (cx_timing cx) (cx_record cx) (s_speedup s) (of_int (s_baseline_ns s)) (of_int (s_native_ns s))
           None (s_floor_ns s) (s_device_runtime s) (Some s)
           (device_plausibility_row (cx_residency cx) (cx_gpu_graded cx)))"

lemma early_suspect: "flagged (early_findings cx) \<longleftrightarrow> context_suspect cx"
  by (simp add: early_findings_def read_only_gates_def flagged_append gates_flagged context_suspect_def Let_def
      suspect_timing_def)

text \<open>A grade is re-run only when nothing has rejected it yet: without \<open>rerun\<close>, for a grade that did not build or
  grade correct, and for one a read-only gate rejects, the judgement does not depend on what the independent verify or
  the sanitizers would say, and neither is among the gates that ran.\<close>

theorem rejected_never_rerun:
  assumes "\<not> rerun \<or> \<not> (s_build_ok (cx_score cx) \<and> s_correct (cx_score cx)) \<or> rep_failed (cx_score cx) \<or> overfit (cx_score cx)"
  shows "judge (cx\<lparr>cx_verify := v, cx_sanitize := sv\<rparr>) rerun = judge cx rerun \<and>
    (\<exists>j. judge cx rerun = Inr j \<and> ''independent_verify'' \<notin> set (j_ran j) \<and> ''sanitizers'' \<notin> set (j_ran j))"
proof -
  let ?cx = "cx\<lparr>cx_verify := v, cx_sanitize := sv\<rparr>"
  have "early_findings ?cx = early_findings cx"
    by (simp add: early_findings_def read_only_gates_def found_of_def rep_variation_def size_class_sweep_def
        device_runtime_def quiescence_def plausibility_def Let_def)
  moreover from this have "rejected_early ?cx = rejected_early cx" by (simp add: rejected_early_def)
  moreover have "rejected_early cx \<or> \<not> rerun" using assms by (auto simp: rejected_early_def early_bad)
  ultimately show ?thesis by (auto simp: judge_stages read_only_gates_def)
qed

text \<open>C13. What a finished grade is judged on: when the re-runs answer, a judgement passes exactly when no varied repeat
  failed, the held-out cases passed where the public one did, and, for a grade that is re-run, the independent verify
  was conclusive and agreed; and it marks the grade suspect exactly when the scoring side's \<open>suspect_timing\<close> does.\<close>

theorem judge_decides:
  assumes "cx_verify cx = Inr v" and "cx_sanitize cx = Inr sv"
  shows "\<exists>j. judge cx rerun = Inr j \<and>
    (judgement_ok j \<longleftrightarrow> \<not> rep_failed (cx_score cx) \<and> \<not> overfit (cx_score cx) \<and>
       (rerun \<and> s_build_ok (cx_score cx) \<and> s_correct (cx_score cx) \<longrightarrow>
          v_ok v \<and> \<not> v_ungradeable v \<and> \<not> v_harness_fault v)) \<and>
    (j_suspect j \<longleftrightarrow> context_suspect cx)"
proof -
  have verify: "independent_verify cx = Inr (found_of independent_verify cx)"
    and sanitize: "sanitizers cx = Inr (found_of sanitizers cx)"
    using assms by (simp_all add: independent_verify_def sanitizers_def found_of_def)
  have verify_bad: "bad (tag key (found_of independent_verify cx)) \<longleftrightarrow>
      \<not> (v_ok v \<and> \<not> v_ungradeable v \<and> \<not> v_harness_fault v)" for key
    unfolding tag_effects using assms by (simp add: found_of_def independent_verify_def CREDITED_EFFECTS_def)
  have quiet: "\<not> bad (tag key (found_of sanitizers cx))" "\<not> flagged (tag key (found_of sanitizers cx))"
    "\<not> flagged (tag key (found_of independent_verify cx))" for key
    unfolding tag_effects using assms
    by (simp_all add: found_of_def independent_verify_def sanitizers_def CREDITED_EFFECTS_def split: option.split)
  have early: "bad (early_findings cx) \<longleftrightarrow> rep_failed (cx_score cx) \<or> overfit (cx_score cx)" by (rule early_bad)
  show ?thesis
    unfolding judge_stages verify sanitize
    using early verify_bad quiet
    by (simp add: judgement_fields bad_append flagged_append early_suspect rejected_early_def)
       blast
qed

section \<open>A concrete grade\<close>

definition passing_score :: score where
  "passing_score =
     \<lparr>s_correct = True, s_max_rel_error = 0, s_native_ns = 2000, s_build_ok = True, s_detail = [], s_baseline_ns = 4000,
      s_speedup = Finite 2, s_baseline = ''c'', s_public_correct = True, s_hidden_correct = True, s_hidden_total = 3,
      s_timed_out = False, s_harness_fault = False, s_ungradeable = False, s_timing_reduction = Some ''mwd-v3'',
      s_floor_ns = 100, s_grading_protocol = None, s_baseline_policy = None, s_device_runtime = [], s_residual_ns = 0,
      s_host_ns = 0, s_event_ns = 0, s_device_index = - 1, s_cells = [], s_p_value = None\<rparr>"

definition agreeing_verify :: verify_result where
  "agreeing_verify =
     \<lparr>v_ok = True, v_determinism_ok = True, v_reverify_ok = True, v_dual_ok = True, v_dual_applied = False,
      v_reason = [], v_ungradeable = False, v_harness_fault = False\<rparr>"

definition host_context :: "score \<Rightarrow> gate_context" where
  "host_context s =
     \<lparr>cx_score = s, cx_residency = HOST, cx_gpu_graded = False,
      cx_timing = \<lparr>residual_ns = 0, residual_factor = 0, divergence_factor = 0, divergence_slack_ns = 0,
        timing_backend = Stat_Mannwhitney, mannwhitney_p = None, mannwhitney_repeats = None\<rparr>,
      cx_record = \<lparr>suspect_above_host = 1000, suspect_above_device = 5000, bandwidth_host = 400, bandwidth_device = 4000\<rparr>,
      cx_verify = Inr agreeing_verify, cx_sanitize = Inr None\<rparr>"

theorem judge_decides_witness:
  "\<exists>j. judge (host_context passing_score) True = Inr j \<and> judgement_ok j \<and> \<not> j_suspect j"
proof -
  have answers: "cx_verify (host_context passing_score) = Inr agreeing_verify"
    "cx_sanitize (host_context passing_score) = Inr None"
    by (simp_all add: host_context_def)
  from judge_decides [OF answers, of True] show ?thesis
    by (simp add: host_context_def passing_score_def agreeing_verify_def rep_failed_def overfit_def context_suspect_def
        Let_def suspect_timing_def unsynchronized_timing_def probe_unsynchronized_def implausibility_def
        implausible_speedup_def suspect_threshold_def device_plausibility_row_def)
qed

theorem rejected_never_rerun_witness:
  "judge (host_context (passing_score\<lparr>s_hidden_correct := False\<rparr>)\<lparr>cx_verify := Inl IndexError, cx_sanitize := Inl IndexError\<rparr>)
     True = judge (host_context (passing_score\<lparr>s_hidden_correct := False\<rparr>)) True"
  using rejected_never_rerun [of True "host_context (passing_score\<lparr>s_hidden_correct := False\<rparr>)" "Inl IndexError" "Inl IndexError"]
  by (simp add: host_context_def passing_score_def overfit_def)

end
