(* ===== verification/Scaling_Curve.thy ===== *)
theory Scaling_Curve
  imports Score_Rule Mpi_Sizing
begin

text \<open>
  Scaling curves of a distributed kernel: the raw runs of a rank-count sweep anchored at the reference's single-device
  time (\<open>harness/scoring.py\<close>: \<open>ScalingRuns\<close>, \<open>curve_point_ns\<close>, \<open>torch_anchored\<close>), the curve and its holes
  (\<open>harness/metric.py\<close>: \<open>scaling_score\<close>, \<open>law_curve\<close> and what they call), and the rows a grade records of it
  (\<open>recording.record_scaling\<close>, \<open>results_db.add_scaling\<close>). Times are whole nanoseconds, ratios real numbers; a sized
  problem is a dictionary over any values.
\<close>

section \<open>Runs\<close>

record 'v scaling_runs =
  sr_measured_ns :: "(int, int) dict"
  sr_single_rank_ns :: int
  sr_notes :: "string list"
  sr_mode :: scaling_law
  sr_work_exponent :: "int option"
  sr_work_ratio :: "(int, real) dict"
  sr_rank_notes :: "(int, string) dict"
  sr_shapes :: "(int, (string, 'v) dict) dict"
  sr_nodes :: "(int, int) dict"
  sr_label :: string

text \<open>\<open>curve_point_ns\<close>: the median of the repeats, an even count rounded half to even.\<close>

definition half_even :: "int \<Rightarrow> int" where
  "half_even n = (if even n then n div 2 else if even (n div 2) then n div 2 else n div 2 + 1)"

definition curve_point_ns :: "int list \<Rightarrow> int res" where
  "curve_point_ns samples =
     (let ordered = sort samples; mid = length ordered div 2
      in if length ordered mod 2 = 1 then Inr (ordered ! mid)
         else if ordered = [] then Inl IndexError
         else Inr (half_even (ordered ! (mid - 1) + ordered ! mid)))"

definition only :: "int set \<Rightarrow> (int, 'a) dict \<Rightarrow> (int, 'a) dict" where
  "only requested d = filter (\<lambda>(p, _). p \<in> requested) d"

definition ORPHANED :: string where
  "ORPHANED = ''measured, but the PyTorch single-GPU anchor is unavailable: no T_1, no efficiency''"

definition torch_anchored :: "'v scaling_runs \<Rightarrow> int set \<Rightarrow> int \<Rightarrow> 'v scaling_runs" where
  "torch_anchored runs requested torch_ns =
     (let rank_notes = only requested (sr_rank_notes runs)
      in if torch_ns \<le> 0 then
           \<lparr>sr_measured_ns = [], sr_single_rank_ns = 0,
            sr_notes = sr_notes runs @ [''PyTorch anchor unavailable; scaling curve undefined''],
            sr_mode = sr_mode runs, sr_work_exponent = sr_work_exponent runs, sr_work_ratio = [],
            sr_rank_notes = foldl (\<lambda>d p. dict_set p ORPHANED d) rank_notes
              (filter (\<lambda>p. p \<in> requested) (keys (sr_measured_ns runs))),
            sr_shapes = only requested (sr_shapes runs), sr_nodes = only requested (sr_nodes runs), sr_label = []\<rparr>
         else runs\<lparr>sr_single_rank_ns := torch_ns, sr_measured_ns := only requested (sr_measured_ns runs),
                sr_work_ratio := only requested (sr_work_ratio runs), sr_rank_notes := rank_notes,
                sr_shapes := only requested (sr_shapes runs), sr_nodes := only requested (sr_nodes runs)\<rparr>)"

section \<open>The curve\<close>

record 'v scaling_point =
  sp_ranks :: int
  sp_single_rank_ns :: int
  sp_ranked_ns :: int
  sp_achieved_speedup :: real
  sp_ideal_speedup :: real
  sp_efficiency :: real
  sp_mode :: scaling_law
  sp_work_ratio :: "real option"
  sp_nodes :: "int option"
  sp_shape :: "(string, 'v) dict"
  sp_note :: string

record 'v scaling_drop =
  sd_ranks :: int
  sd_note :: string
  sd_nodes :: "int option"
  sd_shape :: "(string, 'v) dict"

record 'v scaling_score =
  ss_kernel :: string
  ss_mode :: scaling_law
  ss_work_exponent :: "int option"
  ss_single_rank_ns :: int
  ss_points :: "'v scaling_point list"
  ss_mean_efficiency :: real
  ss_dropped :: "'v scaling_drop list"

definition ideal_speedup :: "int \<Rightarrow> scaling_law \<Rightarrow> real option \<Rightarrow> real res" where
  "ideal_speedup ranks mode realized =
     (let p = of_int (max 1 ranks)
      in if mode = Strong then Inr p
         else (case realized of
                 None \<Rightarrow> Inr 1
               | Some r \<Rightarrow> if r \<le> 0 then Inl (ValueError ''ideal_speedup needs a positive realized'') else Inr (p / r)))"

definition scaling_point :: "scaling_law \<Rightarrow> int \<Rightarrow> int \<Rightarrow> int \<Rightarrow> real option \<Rightarrow> 'v scaling_point res" where
  "scaling_point mode ranks single_rank_ns ranked_ns realized =
     (if single_rank_ns \<le> 0 \<or> ranked_ns \<le> 0 then Inl (ValueError ''scaling_point needs positive T_i(1) and T_i(P)'')
      else bindE (ideal_speedup ranks mode realized) (\<lambda>star.
        let sigma = of_int single_rank_ns / of_int ranked_ns
        in Inr \<lparr>sp_ranks = max 1 ranks, sp_single_rank_ns = single_rank_ns, sp_ranked_ns = ranked_ns,
                sp_achieved_speedup = sigma, sp_ideal_speedup = star, sp_efficiency = sigma / star, sp_mode = mode,
                sp_work_ratio = (if mode = Strong then None else realized), sp_nodes = None, sp_shape = [],
                sp_note = []\<rparr>))"

definition get_or :: "'a \<Rightarrow> (int, 'a) dict \<Rightarrow> int \<Rightarrow> 'a" where
  "get_or d m p = (case map_of m p of Some v \<Rightarrow> v | None \<Rightarrow> d)"

definition NO_SAMPLES_NOTE :: string where "NO_SAMPLES_NOTE = ''the run produced no timing samples''"

definition scaling_drops ::
    "(int, int) dict \<Rightarrow> (int, string) dict \<Rightarrow> (int, int) dict \<Rightarrow> (int, (string, 'v) dict) dict \<Rightarrow> 'v scaling_drop list" where
  "scaling_drops measured_ns rank_notes nodes shapes =
     map (\<lambda>p. \<lparr>sd_ranks = p,
            sd_note = (if get_or [] rank_notes p \<noteq> [] then get_or [] rank_notes p else NO_SAMPLES_NOTE),
            sd_nodes = map_of nodes p, sd_shape = get_or [] shapes p\<rparr>)
       (sorted_set (filter (\<lambda>p. get_or 0 measured_ns p \<le> 0) (keys rank_notes) @
                    map fst (filter (\<lambda>(p, t). t \<le> 0) measured_ns)))"

definition scaling_score ::
    "string \<Rightarrow> scaling_law \<Rightarrow> int \<Rightarrow> (int, int) dict \<Rightarrow> int option \<Rightarrow> (int, real) dict \<Rightarrow> (int, int) dict \<Rightarrow>
     (int, (string, 'v) dict) dict \<Rightarrow> (int, string) dict \<Rightarrow> 'v scaling_score option res" where
  "scaling_score name mode t1 measured_ns work_exponent ratios placed sized noted =
     (if t1 \<le> 0 then Inr None
      else bindE (traverseE (\<lambda>(p, tp). bindE (scaling_point mode p t1 tp (map_of ratios p)) (\<lambda>pt.
                    Inr (pt\<lparr>sp_nodes := map_of placed p, sp_shape := get_or [] sized p, sp_note := get_or [] noted p\<rparr>)))
                  (filter (\<lambda>(p, tp). tp > 0) (sort_key fst measured_ns))) (\<lambda>points.
        if points = [] then Inr None
        else bindE (metric_geomean (map sp_efficiency points)) (\<lambda>mean.
          Inr (Some \<lparr>ss_kernel = name, ss_mode = mode, ss_work_exponent = work_exponent, ss_single_rank_ns = t1,
                     ss_points = points, ss_mean_efficiency = mean,
                     ss_dropped = scaling_drops measured_ns noted placed sized\<rparr>))))"

section \<open>One law's curve\<close>

definition MIN_CURVE_POINTS :: nat where "MIN_CURVE_POINTS = 3"

definition law_text :: "scaling_law \<Rightarrow> string" where
  "law_text mode = (case mode of Strong \<Rightarrow> ''strong'' | Weak \<Rightarrow> ''weak'')"

text \<open>\<open>str\<close> of a list of integers.\<close>

definition list_text :: "int list \<Rightarrow> string" where
  "list_text xs = ''['' @ join_text '', '' (map int_text xs) @ '']''"

record disclosure =
  di_mode :: string
  di_single_rank_ns :: int
  di_measured_ns :: "(string, int) dict"
  di_work_ratio :: "(string, real) dict"
  di_notes :: "string list"

definition curve_disclosure :: "'v scaling_runs \<Rightarrow> string list \<Rightarrow> disclosure" where
  "curve_disclosure runs notes =
     \<lparr>di_mode = law_text (sr_mode runs), di_single_rank_ns = sr_single_rank_ns runs,
      di_measured_ns = map (\<lambda>(p, ns). (int_text p, ns)) (sort_key fst (sr_measured_ns runs)),
      di_work_ratio = map (\<lambda>(p, r). (int_text p, r)) (sort_key fst (sr_work_ratio runs)),
      di_notes = notes\<rparr>"

record 'v law_curve =
  lc_mode :: scaling_law
  lc_curve :: "'v scaling_score option"
  lc_notes :: "string list"
  lc_dropped :: "'v scaling_drop list"
  lc_disclosure :: disclosure
  lc_label :: string

definition law_key :: "'v law_curve \<Rightarrow> string" where
  "law_key law = (if lc_label law \<noteq> [] then law_text (lc_mode law) @ '' '' @ lc_label law else law_text (lc_mode law))"

definition invalidated :: "'v scaling_score \<Rightarrow> string \<Rightarrow> 'v scaling_drop list" where
  "invalidated curve reason =
     sort_key sd_ranks (ss_dropped curve @
       map (\<lambda>p. \<lparr>sd_ranks = sp_ranks p,
             sd_note = reason @ '' (measured T_i(P) = '' @ int_text (sp_ranked_ns p) @ '' ns)'',
             sd_nodes = sp_nodes p, sd_shape = sp_shape p\<rparr>) (ss_points curve))"

definition invalid_reason :: "'v scaling_runs \<Rightarrow> int list \<Rightarrow> string" where
  "invalid_reason runs requested =
     law_text (sr_mode runs) @ '' curve invalid: measured P='' @ list_text (sort (keys (sr_measured_ns runs))) @
     '' of requested '' @ list_text requested @ ''; a curve needs P=1 and at least '' @
     int_text (int MIN_CURVE_POINTS - 1) @ '' further points''"

definition law_curve :: "string \<Rightarrow> 'v scaling_runs \<Rightarrow> int list \<Rightarrow> 'v law_curve res" where
  "law_curve name runs requested =
     bindE (scaling_score name (sr_mode runs) (sr_single_rank_ns runs) (sr_measured_ns runs) (sr_work_exponent runs)
              (sr_work_ratio runs) (sr_nodes runs) (sr_shapes runs) (sr_rank_notes runs)) (\<lambda>curve.
     let dropped = (case curve of Some c \<Rightarrow> ss_dropped c
           | None \<Rightarrow> scaling_drops (sr_measured_ns runs) (sr_rank_notes runs) (sr_nodes runs) (sr_shapes runs));
         refused = (1 \<notin> set (keys (sr_measured_ns runs)) \<or> length (sr_measured_ns runs) < MIN_CURVE_POINTS);
         reason = invalid_reason runs requested;
         (notes, dropped, curve) =
           (case curve of
              Some c \<Rightarrow> if refused then (sr_notes runs @ [reason], invalidated c reason, None)
                else (sr_notes runs, dropped, Some c)
            | None \<Rightarrow> (sr_notes runs, dropped, None))
     in Inr \<lparr>lc_mode = sr_mode runs, lc_curve = curve, lc_notes = notes, lc_dropped = dropped,
             lc_disclosure = curve_disclosure runs notes, lc_label = sr_label runs\<rparr>)"

section \<open>What a grade records of a curve\<close>

datatype grade_status = S_GRADED | S_NO_CURVE | S_INCORRECT | S_REFUSED | S_ERROR

record point_row =
  pw_ranks :: int
  pw_nodes :: "int option"
  pw_ranked_ns :: "int option"
  pw_work_ratio :: "real option"
  pw_efficiency :: "real option"
  pw_note :: "string option"

record law_row =
  lw_mode :: scaling_law
  lw_input :: string
  lw_status :: grade_status
  lw_single_rank_ns :: "int option"

text \<open>The two tables, by grade, law and input.\<close>

type_synonym scaling_tables = "(int \<times> scaling_law \<times> string) \<rightharpoonup> law_row \<times> point_row list"

definition add_scaling :: "scaling_tables \<Rightarrow> int \<Rightarrow> law_row \<Rightarrow> point_row list \<Rightarrow> scaling_tables" where
  "add_scaling tables grade_id law points = tables((grade_id, lw_mode law, lw_input law) \<mapsto> (law, points))"

definition point_row_of :: "'v scaling_point \<Rightarrow> point_row" where
  "point_row_of p =
     \<lparr>pw_ranks = sp_ranks p, pw_nodes = sp_nodes p, pw_ranked_ns = Some (sp_ranked_ns p), pw_work_ratio = sp_work_ratio p,
      pw_efficiency = Some (sp_efficiency p), pw_note = (if sp_note p \<noteq> [] then Some (sp_note p) else None)\<rparr>"

definition hole_row_of :: "'v scaling_drop \<Rightarrow> point_row" where
  "hole_row_of h =
     \<lparr>pw_ranks = sd_ranks h, pw_nodes = sd_nodes h, pw_ranked_ns = None, pw_work_ratio = None, pw_efficiency = None,
      pw_note = Some (sd_note h)\<rparr>"

definition record_scaling ::
    "scaling_tables \<Rightarrow> int \<Rightarrow> 'v scaling_score option \<Rightarrow> scaling_law \<Rightarrow> 'v scaling_drop list option \<Rightarrow>
     grade_status option \<Rightarrow> string \<Rightarrow> (scaling_tables \<times> nat) res" where
  "record_scaling tables grade_id scaling mode dropped status label =
     (if (case scaling of Some s \<Rightarrow> ss_mode s \<noteq> mode | None \<Rightarrow> False)
      then Inl (ValueError ''the curve was graded under another law'')
      else
        (let holes = (case (dropped, scaling) of
               (None, Some s) \<Rightarrow> ss_dropped s | (Some ds, _) \<Rightarrow> ds | (None, None) \<Rightarrow> []);
             points = (case scaling of Some s \<Rightarrow> ss_points s | None \<Rightarrow> []);
             ranks = map sp_ranks points @ map sd_ranks holes
         in if \<not> distinct ranks then Inl (ValueError ''a rank count is both measured and dropped'')
            else
              (let rows = sort_key pw_ranks (map point_row_of points @ map hole_row_of holes);
                   law = \<lparr>lw_mode = mode, lw_input = label,
                     lw_status = (case status of Some s \<Rightarrow> s
                       | None \<Rightarrow> if scaling \<noteq> None then S_GRADED else S_NO_CURVE),
                     lw_single_rank_ns = map_option ss_single_rank_ns scaling\<rparr>
               in Inr (add_scaling tables grade_id law rows, length rows))))"

text \<open>\<open>recording.record\<close>'s loop over the laws of a grade.\<close>

definition record_laws :: "scaling_tables \<Rightarrow> int \<Rightarrow> 'v law_curve list \<Rightarrow> scaling_tables res" where
  "record_laws tables grade_id laws =
     foldE (\<lambda>tables law.
       if lc_curve law \<noteq> None \<or> lc_dropped law \<noteq> []
       then bindE (record_scaling tables grade_id (lc_curve law) (lc_mode law) (Some (lc_dropped law)) None (lc_label law))
              (\<lambda>(tables, _). Inr tables)
       else Inr tables) tables laws"

section \<open>Every rank is a point or a hole\<close>

lemma map_insort_key: "map f (insort_key f x xs) = insort (f x) (map f xs)"
  by (induction xs) simp_all

lemma map_sort_key: "map f (sort_key f xs) = sort (map f xs)"
  by (induction xs) (simp_all add: map_insort_key)

lemma sort_eq_sorted_set: "distinct xs \<Longrightarrow> set xs = set ys \<Longrightarrow> sort xs = sorted_set ys"
  by (rule sorted_distinct_set_unique) simp_all

lemma sort_sorted_set [simp]: "sort (sorted_set xs) = sorted_set xs"
  by (rule sorted_sort_id) simp

definition ratios_positive :: "(int, real) dict \<Rightarrow> bool" where
  "ratios_positive d \<longleftrightarrow> list_all (\<lambda>(p, r). 0 < r) d"

lemma ratios_positiveD: "ratios_positive d \<Longrightarrow> map_of d p = Some r \<Longrightarrow> 0 < r"
  by (auto simp: ratios_positive_def list_all_iff dest: map_of_SomeD)

lemma ideal_speedup_positive:
  assumes "\<And>r. realized = Some r \<Longrightarrow> 0 < r"
  shows "\<exists>star. ideal_speedup ranks mode realized = Inr star \<and> 0 < star"
  using assms by (cases realized) (auto simp: ideal_speedup_def Let_def)

text \<open>The points of a sweep: one per rank count timed above zero, in order.\<close>

lemma points_of_sweep:
  assumes "0 < t1" and "ratios_positive ratios" and "list_all (\<lambda>p. 0 < p) (keys measured)"
  shows "\<exists>points. traverseE (\<lambda>(p, tp). bindE (scaling_point mode p t1 tp (map_of ratios p)) (\<lambda>pt.
            Inr (pt\<lparr>sp_nodes := map_of placed p, sp_shape := get_or [] sized p, sp_note := get_or [] noted p\<rparr>)))
          (filter (\<lambda>(p, tp). tp > 0) (sort_key fst measured)) = Inr points \<and>
     map sp_ranks points = map fst (filter (\<lambda>(p, tp). tp > 0) (sort_key fst measured)) \<and>
     list_all (\<lambda>pt. 0 < sp_efficiency pt \<and> 0 < sp_ranked_ns pt) points"
proof -
  let ?f = "\<lambda>(p, tp). bindE (scaling_point mode p t1 tp (map_of ratios p)) (\<lambda>pt.
            Inr (pt\<lparr>sp_nodes := map_of placed p, sp_shape := get_or [] sized p, sp_note := get_or [] noted p\<rparr>))"
  have one: "\<exists>pt. ?f (p, tp) = Inr pt \<and> sp_ranks pt = p \<and> 0 < sp_efficiency pt \<and> 0 < sp_ranked_ns pt"
    if "0 < tp" "0 < p" for p tp
  proof -
    obtain star where "ideal_speedup p mode (map_of ratios p) = Inr star" "0 < star"
      using ideal_speedup_positive ratios_positiveD [OF assms(2)] by metis
    then show ?thesis using that assms(1) by (simp add: scaling_point_def Let_def)
  qed
  have "\<exists>points. traverseE ?f xs = Inr points \<and> map sp_ranks points = map fst xs \<and>
      list_all (\<lambda>pt. 0 < sp_efficiency pt \<and> 0 < sp_ranked_ns pt) points"
    if "list_all (\<lambda>(p, tp). 0 < tp \<and> 0 < p) xs" for xs
    using that
  proof (induction xs)
    case (Cons x xs)
    obtain p tp where x: "x = (p, tp)" by (cases x)
    with Cons.prems one obtain pt where "?f x = Inr pt" "sp_ranks pt = p" "0 < sp_efficiency pt" "0 < sp_ranked_ns pt"
      by auto
    moreover from Cons obtain points where "traverseE ?f xs = Inr points" "map sp_ranks points = map fst xs"
        "list_all (\<lambda>pt. 0 < sp_efficiency pt \<and> 0 < sp_ranked_ns pt) points" by auto
    ultimately show ?case using x by simp
  qed simp
  moreover have "list_all (\<lambda>(p, tp). 0 < tp \<and> 0 < p) (filter (\<lambda>(p, tp). tp > 0) (sort_key fst measured))"
    using assms(3) by (auto simp: list_all_iff keys_def)
  ultimately show ?thesis by blast
qed

lemma get_or_entry: "distinct (keys d) \<Longrightarrow> (p, v) \<in> set d \<Longrightarrow> get_or u d p = v"
  by (simp add: get_or_def keys_def)

lemma get_or_missing: "p \<notin> set (keys d) \<Longrightarrow> get_or u d p = u"
  by (simp add: get_or_def keys_def map_of_eq_None_iff [THEN iffD2])

definition measured_ranks :: "(int, int) dict \<Rightarrow> int list" where
  "measured_ranks d = map fst (filter (\<lambda>(p, t). t > 0) (sort_key fst d))"

lemma drops_complement:
  fixes noted :: "(int, string) dict" and placed :: "(int, int) dict" and sized :: "(int, (string, 'v) dict) dict"
  assumes "distinct (keys measured)"
  defines "holes \<equiv> map sd_ranks (scaling_drops measured noted placed sized)"
  shows "distinct (measured_ranks measured @ holes)"
    and "set (measured_ranks measured @ holes) = set (keys measured) \<union> set (keys noted)"
proof -
  have holes: "holes = sorted_set (filter (\<lambda>p. get_or 0 measured p \<le> 0) (keys noted) @
      map fst (filter (\<lambda>(p, t). t \<le> 0) measured))"
    by (simp add: holes_def scaling_drops_def comp_def)
  have distinct: "distinct (measured_ranks measured)"
  proof -
    have "distinct (map fst (sort_key fst measured))" using assms(1) by (simp add: keys_def map_sort_key)
    then show ?thesis unfolding measured_ranks_def by (rule distinct_map_filter)
  qed
  have in_measured: "p \<in> set (measured_ranks measured) \<longleftrightarrow> 0 < get_or 0 measured p" for p
  proof
    assume "p \<in> set (measured_ranks measured)"
    then obtain t where "(p, t) \<in> set measured" "0 < t" by (auto simp: measured_ranks_def)
    then show "0 < get_or 0 measured p" by (simp add: get_or_entry [OF assms(1)])
  next
    assume pos: "0 < get_or 0 measured p"
    then have "p \<in> set (keys measured)" using get_or_missing [of p measured 0] by force
    then obtain t where t: "(p, t) \<in> set measured" by (auto simp: keys_def)
    with pos have "0 < t" by (simp add: get_or_entry [OF assms(1)])
    with t show "p \<in> set (measured_ranks measured)" by (force simp: measured_ranks_def)
  qed
  have in_holes: "p \<in> set holes \<longleftrightarrow> get_or 0 measured p \<le> 0 \<and> (p \<in> set (keys measured) \<or> p \<in> set (keys noted))" for p
  proof -
    have "p \<in> fst ` {x \<in> set measured. case x of (p, t) \<Rightarrow> t \<le> 0} \<longleftrightarrow>
        get_or 0 measured p \<le> 0 \<and> p \<in> set (keys measured)"
      using get_or_entry [OF assms(1)] by (force simp: keys_def)
    then show ?thesis unfolding holes by auto
  qed
  show "distinct (measured_ranks measured @ holes)"
  proof (unfold distinct_append, intro conjI distinct)
    show "distinct holes" unfolding holes by simp
    show "set (measured_ranks measured) \<inter> set holes = {}"
      by (rule ccontr) (use in_measured in_holes in force)
  qed
  have "p \<in> set (measured_ranks measured @ holes) \<longleftrightarrow> p \<in> set (keys measured) \<union> set (keys noted)" for p
    using in_measured [of p] in_holes [of p] get_or_missing [of p measured 0] by force
  then show "set (measured_ranks measured @ holes) = set (keys measured) \<union> set (keys noted)" by blast
qed

definition noted_row :: "point_row \<Rightarrow> bool" where
  "noted_row row \<longleftrightarrow> (case pw_note row of Some n \<Rightarrow> n \<noteq> [] | None \<Rightarrow> False)"

text \<open>A row is a measurement on a curve that stands, or a hole that says why.\<close>

definition row_explained :: "bool \<Rightarrow> point_row \<Rightarrow> bool" where
  "row_explained curve row \<longleftrightarrow>
     (case pw_efficiency row of Some e \<Rightarrow> 0 < e \<and> curve | None \<Rightarrow> pw_ranked_ns row = None \<and> noted_row row)"

lemma drops_noted: "list_all (\<lambda>d. sd_note d \<noteq> []) (scaling_drops measured noted placed sized)"
  by (simp add: scaling_drops_def list_all_iff NO_SAMPLES_NOTE_def)

lemma record_scaling_rows:
  assumes "case scaling of Some s \<Rightarrow> ss_mode s = mode | None \<Rightarrow> True"
    and "distinct (map sp_ranks points @ map sd_ranks holes)"
    and "points = (case scaling of Some s \<Rightarrow> ss_points s | None \<Rightarrow> [])"
    and "list_all (\<lambda>pt. 0 < sp_efficiency pt) points" and "list_all (\<lambda>d. sd_note d \<noteq> []) holes"
  shows "\<exists>tables' law rows. record_scaling tables g scaling mode (Some holes) None label = Inr (tables', length rows) \<and>
     tables' (g, mode, label) = Some (law, rows) \<and>
     map pw_ranks rows = sort (map sp_ranks points @ map sd_ranks holes) \<and>
     list_all (row_explained (scaling \<noteq> None)) rows"
proof -
  let ?unsorted = "map point_row_of points @ map hole_row_of holes"
  let ?rows = "sort_key pw_ranks ?unsorted"
  let ?law = "\<lparr>lw_mode = mode, lw_input = label, lw_status = (if scaling \<noteq> None then S_GRADED else S_NO_CURVE),
     lw_single_rank_ns = map_option ss_single_rank_ns scaling\<rparr>"
  have "record_scaling tables g scaling mode (Some holes) None label = Inr (add_scaling tables g ?law ?rows, length ?rows)"
    using assms(1,2,3) by (cases scaling) (simp_all add: record_scaling_def Let_def)
  moreover have "add_scaling tables g ?law ?rows (g, mode, label) = Some (?law, ?rows)"
    by (simp add: add_scaling_def)
  moreover have "map pw_ranks ?rows = sort (map sp_ranks points @ map sd_ranks holes)"
    by (simp add: map_sort_key comp_def point_row_of_def hole_row_of_def)
  moreover have "list_all (row_explained (scaling \<noteq> None)) ?rows"
    using assms(3,4,5) by (cases scaling)
      (auto simp: list_all_iff row_explained_def noted_row_def point_row_of_def hole_row_of_def)
  ultimately show ?thesis by blast
qed

lemma law_curve_records:
  fixes R :: "'v scaling_runs"
  assumes "distinct (keys (sr_measured_ns R))" and "list_all (\<lambda>p. 0 < p) (keys (sr_measured_ns R))"
    and "ratios_positive (sr_work_ratio R)" and "0 < sr_single_rank_ns R \<or> sr_measured_ns R = []"
  shows "\<exists>L tables' law rows. law_curve name R asked = Inr L \<and>
     record_scaling tables g (lc_curve L) (lc_mode L) (Some (lc_dropped L)) None label = Inr (tables', length rows) \<and>
     tables' (g, sr_mode R, label) = Some (law, rows) \<and>
     map pw_ranks rows = sorted_set (keys (sr_measured_ns R) @ keys (sr_rank_notes R)) \<and>
     list_all (row_explained (lc_curve L \<noteq> None)) rows"
proof -
  define holes where "holes = scaling_drops (sr_measured_ns R) (sr_rank_notes R) (sr_nodes R) (sr_shapes R)"
  note complement = drops_complement [OF assms(1), of "sr_rank_notes R" "sr_nodes R" "sr_shapes R", folded holes_def]
  have noted: "list_all (\<lambda>d. sd_note d \<noteq> []) holes" unfolding holes_def by (rule drops_noted)
  have sorted: "sort (measured_ranks (sr_measured_ns R) @ map sd_ranks holes) =
      sorted_set (keys (sr_measured_ns R) @ keys (sr_rank_notes R))"
    using complement by (intro sort_eq_sorted_set) simp_all
  define score where "score = scaling_score name (sr_mode R) (sr_single_rank_ns R) (sr_measured_ns R) (sr_work_exponent R)
    (sr_work_ratio R) (sr_nodes R) (sr_shapes R) (sr_rank_notes R)"
  have "(score = Inr None \<and> measured_ranks (sr_measured_ns R) = []) \<or>
    (\<exists>c. score = Inr (Some c) \<and> ss_mode c = sr_mode R \<and> ss_dropped c = holes \<and>
       map sp_ranks (ss_points c) = measured_ranks (sr_measured_ns R) \<and> list_all (\<lambda>pt. 0 < sp_efficiency pt) (ss_points c))"
  proof (cases "0 < sr_single_rank_ns R")
    case False
    with assms(4) show ?thesis by (simp add: score_def scaling_score_def measured_ranks_def)
  next
    case True
    obtain points where points: "traverseE (\<lambda>(p, tp).
          bindE (scaling_point (sr_mode R) p (sr_single_rank_ns R) tp (map_of (sr_work_ratio R) p)) (\<lambda>pt.
            Inr (pt\<lparr>sp_nodes := map_of (sr_nodes R) p, sp_shape := get_or [] (sr_shapes R) p,
              sp_note := get_or [] (sr_rank_notes R) p\<rparr>)))
          (filter (\<lambda>(p, tp). tp > 0) (sort_key fst (sr_measured_ns R))) = Inr points"
        "map sp_ranks points = measured_ranks (sr_measured_ns R)"
        "list_all (\<lambda>pt. 0 < sp_efficiency pt \<and> 0 < sp_ranked_ns pt) points"
      using points_of_sweep [OF True assms(3,2)] unfolding measured_ranks_def by blast
    obtain mean where "metric_geomean (map sp_efficiency points) = Inr mean" using metric_geomean_total by blast
    with points True show ?thesis
      by (cases "points = []") (auto simp: score_def scaling_score_def holes_def list_all_iff)
  qed
  then consider (none) "score = Inr None" "measured_ranks (sr_measured_ns R) = []"
    | (curve) c where "score = Inr (Some c)" "ss_mode c = sr_mode R" "ss_dropped c = holes"
       "map sp_ranks (ss_points c) = measured_ranks (sr_measured_ns R)" "list_all (\<lambda>pt. 0 < sp_efficiency pt) (ss_points c)"
    by blast
  then show ?thesis
  proof cases
    case none
    obtain L where L: "law_curve name R asked = Inr L" "lc_curve L = None" "lc_mode L = sr_mode R" "lc_dropped L = holes"
      using none(1) by (simp add: law_curve_def score_def [symmetric] holes_def Let_def)
    have "distinct (map sp_ranks [] @ map sd_ranks holes)" using complement(1) by simp
    then show ?thesis
      using record_scaling_rows [where scaling = None and mode = "sr_mode R" and points = "[]" and holes = holes and
          tables = tables and g = g and label = label] L none(2) sorted noted by auto
  next
    case (curve c)
    show ?thesis
    proof (cases "1 \<notin> set (keys (sr_measured_ns R)) \<or> length (sr_measured_ns R) < MIN_CURVE_POINTS")
      case True
      let ?reason = "invalid_reason R asked"
      obtain L where L: "law_curve name R asked = Inr L" "lc_curve L = None" "lc_mode L = sr_mode R"
          "lc_dropped L = invalidated c ?reason"
        using curve(1) True by (simp add: law_curve_def score_def [symmetric] Let_def)
      have ranks: "map sd_ranks (invalidated c ?reason) = sort (map sd_ranks holes @ measured_ranks (sr_measured_ns R))"
        by (simp add: invalidated_def map_sort_key curve(3,4) [symmetric] comp_def)
      moreover have "sort (map sd_ranks holes @ measured_ranks (sr_measured_ns R)) =
          sorted_set (keys (sr_measured_ns R) @ keys (sr_rank_notes R))"
        using complement by (intro sort_eq_sorted_set) auto
      moreover have "list_all (\<lambda>d. sd_note d \<noteq> []) (invalidated c ?reason)"
        using noted by (auto simp: invalidated_def list_all_iff curve(3))
      ultimately show ?thesis
        using record_scaling_rows [where scaling = None and mode = "sr_mode R" and points = "[]" and
            holes = "invalidated c ?reason" and tables = tables and g = g and label = label] L by auto
    next
      case False
      then obtain L where L: "law_curve name R asked = Inr L" "lc_curve L = Some c" "lc_mode L = sr_mode R"
          "lc_dropped L = holes"
        using curve(1,3) by (simp add: law_curve_def score_def [symmetric] Let_def)
      have "distinct (map sp_ranks (ss_points c) @ map sd_ranks holes)" using complement(1) by (simp only: curve(4))
      then obtain tables' law rows where rows:
          "record_scaling tables g (Some c) (sr_mode R) (Some holes) None label = Inr (tables', length rows)"
          "tables' (g, sr_mode R, label) = Some (law, rows)"
          "map pw_ranks rows = sort (map sp_ranks (ss_points c) @ map sd_ranks holes)"
          "list_all (row_explained (Some c \<noteq> None)) rows"
        using record_scaling_rows [where scaling = "Some c" and mode = "sr_mode R" and points = "ss_points c" and
            holes = holes and tables = tables and g = g and label = label, unfolded option.case] curve(2,5) noted
        by blast
      have "map pw_ranks rows = sorted_set (keys (sr_measured_ns R) @ keys (sr_rank_notes R))"
        by (simp only: rows(3) curve(4) sorted)
      then show ?thesis using L rows(1,2,4)
        by (intro exI [of _ L] exI [of _ tables'] exI [of _ law] exI [of _ rows]) simp
    qed
  qed
qed

lemma keys_only: "keys (only requested d) = filter (\<lambda>p. p \<in> requested) (keys d)"
  unfolding only_def keys_def by (induction d) auto

lemma keys_orphaned: "set (keys (foldl (\<lambda>d p. dict_set p v d) d ps)) = set (keys d) \<union> set ps"
  by (induction ps arbitrary: d) (auto simp: keys_def update_keys dom_update)

lemma anchored_keys:
  "set (keys (sr_measured_ns (torch_anchored runs requested t)) @ keys (sr_rank_notes (torch_anchored runs requested t))) =
     set (filter (\<lambda>p. p \<in> requested) (keys (sr_measured_ns runs) @ keys (sr_rank_notes runs)))"
  by (auto simp: torch_anchored_def Let_def keys_only keys_orphaned) (auto simp: keys_def)

lemma anchored_ok:
  fixes requested :: "int set" and t :: int
  assumes "distinct (keys (sr_measured_ns runs))" and "list_all (\<lambda>p. 0 < p) (keys (sr_measured_ns runs))"
    and "ratios_positive (sr_work_ratio runs)"
  defines "R \<equiv> torch_anchored runs requested t"
  shows "distinct (keys (sr_measured_ns R))" and "list_all (\<lambda>p. 0 < p) (keys (sr_measured_ns R))"
    and "ratios_positive (sr_work_ratio R)" and "0 < sr_single_rank_ns R \<or> sr_measured_ns R = []"
    and "sr_mode R = sr_mode runs"
proof -
  have ks: "keys (sr_measured_ns R) = (if t \<le> 0 then [] else filter (\<lambda>p. p \<in> requested) (keys (sr_measured_ns runs)))"
    by (simp add: R_def torch_anchored_def Let_def keys_only) (simp add: keys_def)
  show "distinct (keys (sr_measured_ns R))" "list_all (\<lambda>p. 0 < p) (keys (sr_measured_ns R))"
    using assms(1,2) by (simp_all add: ks list_all_iff)
  show "ratios_positive (sr_work_ratio R)"
    using assms(3) by (auto simp: R_def torch_anchored_def Let_def ratios_positive_def only_def list_all_iff)
  show "0 < sr_single_rank_ns R \<or> sr_measured_ns R = []" "sr_mode R = sr_mode runs"
    by (simp_all add: R_def torch_anchored_def Let_def)
qed

text \<open>C20. A scaling curve hides nothing: whatever a sweep measured and whether or not the reference gave an anchor, the
  law's curve is computed without an error, a grade records it, and the recorded rows hold every requested rank count
  the sweep timed or noted exactly once, in order, each either a measured point of a curve that stands, with a positive
  efficiency, or a hole that says why it has no time.\<close>

theorem every_rank_recorded:
  assumes "distinct (keys (sr_measured_ns runs))" and "list_all (\<lambda>p. 0 < p) (keys (sr_measured_ns runs))"
    and "ratios_positive (sr_work_ratio runs)"
  shows "\<exists>L tables' law rows. law_curve name (torch_anchored runs requested torch_ns) asked = Inr L \<and>
     record_scaling tables g (lc_curve L) (lc_mode L) (Some (lc_dropped L)) None label = Inr (tables', length rows) \<and>
     tables' (g, sr_mode runs, label) = Some (law, rows) \<and>
     map pw_ranks rows = sorted_set (filter (\<lambda>p. p \<in> requested) (keys (sr_measured_ns runs) @ keys (sr_rank_notes runs))) \<and>
     list_all (row_explained (lc_curve L \<noteq> None)) rows"
proof -
  let ?R = "torch_anchored runs requested torch_ns"
  note ok = anchored_ok [OF assms, of requested torch_ns]
  have "sorted_set (keys (sr_measured_ns ?R) @ keys (sr_rank_notes ?R)) =
      sorted_set (filter (\<lambda>p. p \<in> requested) (keys (sr_measured_ns runs) @ keys (sr_rank_notes runs)))"
    by (rule sorted_distinct_set_unique) (simp_all only: sorted_sorted_set set_sorted_set anchored_keys)
  with law_curve_records [OF ok(1-4), of name asked tables g label] show ?thesis by (simp only: ok(5))
qed

definition sample_runs :: "int scaling_runs" where
  "sample_runs = \<lparr>sr_measured_ns = [(2, 6), (1, 10), (8, 2)], sr_single_rank_ns = 12, sr_notes = [], sr_mode = Weak,
     sr_work_exponent = Some 1, sr_work_ratio = [(2, 2)], sr_rank_notes = [(4, ''failed'')], sr_shapes = [], sr_nodes = [],
     sr_label = []\<rparr>"

theorem every_rank_recorded_witness:
  "\<exists>L tables' law rows. law_curve ''conv'' (torch_anchored sample_runs {1, 2, 4} 12) [1, 2, 4] = Inr L \<and>
     record_scaling Map.empty 7 (lc_curve L) (lc_mode L) (Some (lc_dropped L)) None [] = Inr (tables', length rows) \<and>
     tables' (7, Weak, []) = Some (law, rows) \<and> map pw_ranks rows = [1, 2, 4]"
proof -
  have "sorted_set (filter (\<lambda>p. p \<in> {1, 2, 4}) (keys (sr_measured_ns sample_runs) @ keys (sr_rank_notes sample_runs))) =
      [1, 2, 4]"
    by (simp add: sample_runs_def keys_def sorted_set_def)
  with every_rank_recorded [of sample_runs "''conv''" "{1, 2, 4}" 12 "[1, 2, 4]" Map.empty 7 "[]"]
  show ?thesis by (auto simp: sample_runs_def keys_def ratios_positive_def)
qed

text \<open>The count of points a curve needs counts rank counts timed at 0 ns, which are holes: this curve stands with the
  points of \<open>P = 1\<close> and \<open>P = 2\<close> alone.\<close>

lemma two_points_stand:
  "map_sum id (\<lambda>L. (map_option (map sp_ranks \<circ> ss_points) (lc_curve L), map sd_ranks (lc_dropped L)))
     (law_curve ''conv'' (torch_anchored (sample_runs\<lparr>sr_measured_ns := [(1, 10), (2, 6), (4, 0)]\<rparr>) {1, 2, 4} 12) [1, 2, 4]) =
   Inr (Some [1, 2], [4])"
  by (simp add: law_curve_def scaling_score_def torch_anchored_def only_def sample_runs_def scaling_point_def
      ideal_speedup_def metric_geomean_def geomean_def summary_geomean_def MIN_CURVE_POINTS_def scaling_drops_def
      get_or_def sorted_set_def keys_def Let_def)

end
