(* ===== verification/Results_Db.thy ===== *)
theory Results_Db
  imports Prelude Complex_Main
begin

text \<open>
  The results database (\<open>harness/results_db.py\<close>, \<open>harness/schema.sql\<close>): the tables of the schema with their
  defaults, checks, keys and references, SQLite's insert and upsert as the module uses them, and the writers of a
  grade. A table is the list of its rows by rowid; the \<open>id\<close> column of \<open>episodes\<close> and \<open>grades\<close> is the rowid, as
  an integer primary key is in SQLite. Values arrive in the type of their column (the tables are STRICT), so the
  conversions of a column's type are left out. A message of SQLite is kept as the phrase that tells its kind.
\<close>

section \<open>Values, columns and the schema\<close>

datatype sql =
    SNull
  | SInt int
  | SReal real
  | SInf bool
  | SText string

datatype sql_check =
    Unchecked
  | Among "sql list"
  | At_least int

record column =
  col_name :: string
  not_null :: bool
  col_default :: sql
  col_check :: sql_check

definition required :: "string \<Rightarrow> column" where
  "required n = \<lparr>col_name = n, not_null = True, col_default = SNull, col_check = Unchecked\<rparr>"

definition nullable :: "string \<Rightarrow> column" where
  "nullable n = \<lparr>col_name = n, not_null = False, col_default = SNull, col_check = Unchecked\<rparr>"

definition defaulted :: "string \<Rightarrow> sql \<Rightarrow> column" where
  "defaulted n v = \<lparr>col_name = n, not_null = True, col_default = v, col_check = Unchecked\<rparr>"

definition text_col :: "string \<Rightarrow> column" where
  "text_col n = defaulted n (SText [])"

definition count_col :: "string \<Rightarrow> column" where
  "count_col n = defaulted n (SInt 0)"

definition real_col :: "string \<Rightarrow> column" where
  "real_col n = defaulted n (SReal 0)"

definition one_of :: "string list \<Rightarrow> column \<Rightarrow> column" where
  "one_of vs c = c\<lparr>col_check := Among (map SText vs)\<rparr>"

definition flag :: "column \<Rightarrow> column" where
  "flag c = c\<lparr>col_check := Among [SInt 0, SInt 1]\<rparr>"

definition at_least :: "int \<Rightarrow> column \<Rightarrow> column" where
  "at_least n c = c\<lparr>col_check := At_least n\<rparr>"

text \<open>The tables of \<open>schema.sql\<close>, column by column.\<close>

definition setups_columns :: "column list" where
  "setups_columns =
     [required ''setup'', text_col ''study'', text_col ''model'', required ''language'',
      one_of [''cpu'', ''cpu-multinode'', ''gpu'', ''gpu-multinode''] (required ''device''), text_col ''packet'',
      required ''harness'', defaulted ''temperature'' (SReal 1), text_col ''tag_version'', nullable ''plugins'']"

definition episodes_columns :: "column list" where
  "episodes_columns =
     [required ''setup'', count_col ''job'', required ''label'', at_least 1 (defaulted ''slot'' (SInt 1)),
      text_col ''kernel'', text_col ''result'', nullable ''returncode'', count_col ''relaunches'',
      count_col ''final_attempt_start_ms'', count_col ''turns'', count_col ''wall_ms'', count_col ''api_ms'',
      count_col ''fresh_input_tokens'', count_col ''cached_input_tokens'', count_col ''output_tokens'',
      count_col ''thinking_tokens'', count_col ''billed_tokens'', count_col ''effective_tokens'',
      count_col ''crashed_billed_tokens'', count_col ''crashed_effective_tokens'']"

definition sources_columns :: "column list" where
  "sources_columns =
     [required ''hash'', required ''text'']"

definition grades_columns :: "column list" where
  "grades_columns =
     [required ''episode_id'', required ''kernel'', required ''ts_ms'',
      one_of [''score'', ''submit'', ''promoted'', ''harvested'', ''probe'', ''final'', ''regrade''] (required ''kind''),
      nullable ''of_grade_id'', at_least 0 (count_col ''call_index''), count_col ''tokens_so_far'',
      required ''preset'', required ''datatype'', required ''source_mode'', text_col ''baseline'',
      text_col ''grading_protocol'', text_col ''timing_reduction'', text_col ''baseline_policy'',
      one_of [''numba'', ''c'', ''c-autopar'', ''vendored'', ''best-of(numba,c)'', ''best-of(numba,c,c-autopar)'', ''torch-autotune'', ''''] (text_col ''denominator''),
      text_col ''score_rule'', text_col ''requested_build'', text_col ''requests'', text_col ''build_commands'',
      flag (nullable ''build_ok''), flag (nullable ''correct''), text_col ''status'', text_col ''reason'',
      real_col ''speedup'', real_col ''credited_speedup'', flag (nullable ''suspect''), text_col ''device_runtime'',
      real_col ''baseline_ns'', real_col ''native_ns'', nullable ''timing_residual_ns'', nullable ''timing_host_ns'',
      nullable ''timing_event_ns'', nullable ''device_index'', text_col ''detail'', text_col ''workspace_bytes'',
      text_col ''layout'', count_col ''convert_in_ns'', count_col ''convert_out_ns'', real_col ''size_scale'',
      text_col ''scale_axes'', text_col ''node'', text_col ''cpu'', text_col ''commit_sha'', required ''task_hash'',
      text_col ''library_hash'', text_col ''agent_root'', text_col ''agent_libs'', text_col ''phase'',
      text_col ''library'']"

definition grade_sources_columns :: "column list" where
  "grade_sources_columns =
     [required ''grade_id'', one_of [''host'', ''device''] (required ''part''), required ''language'',
      required ''hash'']"

definition grade_cells_columns :: "column list" where
  "grade_cells_columns =
     [required ''grade_id'', at_least 0 (required ''cell''), text_col ''label'', text_col ''shape'',
      flag (count_col ''timed''), flag (nullable ''correct''), flag (nullable ''suspect''),
      flag (nullable ''significant''), nullable ''p_value'', text_col ''baseline'', text_col ''baseline_candidates'',
      text_col ''race_leader'', one_of [''cache'', ''table'', ''default'', ''''] (text_col ''race_leader_source''),
      text_col ''race_cuts'', real_col ''baseline_ns'', real_col ''native_ns'', real_col ''ratio'',
      text_col ''residency'', text_col ''timer'', flag (count_col ''copies_excluded''), nullable ''residual_ns'',
      nullable ''host_event_delta_ns'', nullable ''device_index'', text_col ''status'', text_col ''reason'']"

definition grade_requests_columns :: "column list" where
  "grade_requests_columns =
     [required ''grade_id'', at_least 0 (required ''position''),
      one_of [''library'', ''grid'', ''cast'', ''format'', ''zip'', ''unzip'', ''block'', ''unblock'', ''split'', ''unsplit'', ''permute'', ''pad'', ''unpad'', ''shuffle'', ''linear_shuffle'', ''distribute'', ''replicate'', ''place''] (required ''kind''),
      text_col ''array'', text_col ''value'', text_col ''params'']"

definition scaling_grades_columns :: "column list" where
  "scaling_grades_columns =
     [required ''grade_id'', one_of [''weak'', ''strong''] (required ''mode''), text_col ''input'',
      required ''status'', count_col ''single_rank_ns'', text_col ''disclosure'', text_col ''notes'']"

definition scaling_points_columns :: "column list" where
  "scaling_points_columns =
     [required ''grade_id'', required ''mode'', text_col ''input'', at_least 1 (required ''ranks''),
      count_col ''nodes'', count_col ''ranked_ns'', nullable ''work_ratio'', real_col ''efficiency'',
      text_col ''note'']"

definition disqualifications_columns :: "column list" where
  "disqualifications_columns =
     [required ''grade_id'', required ''reason'', required ''ts_ms'']"

definition reference_scaling_points_columns :: "column list" where
  "reference_scaling_points_columns =
     [required ''source'', required ''kernel'', one_of [''weak'', ''strong''] (required ''mode''),
      at_least 1 (required ''ranks''), count_col ''repeat'', text_col ''params'', text_col ''arch'',
      text_col ''image'', text_col ''compile_mode'', count_col ''nodes'', nullable ''ranked_ns'',
      text_col ''samples'', nullable ''work_ratio'', text_col ''note'', nullable ''job'', text_col ''node'',
      text_col ''commit_sha'', required ''ts_ms'']"

definition canon_columns :: "column list" where
  "canon_columns =
     [required ''run'', required ''column'', required ''kernel'', required ''preset'', required ''datatype'',
      nullable ''median_ms'', flag (nullable ''validated''), text_col ''build'', text_col ''impl'',
      one_of [''ok'', ''crash'', ''timeout''] (required ''status''), text_col ''failure'', text_col ''error'',
      text_col ''node'', text_col ''cpu'', text_col ''gpu'',
      one_of [''native'', ''container''] (defaulted ''execution'' (SText ''native'')), count_col ''ts_ms'',
      nullable ''transform_time'', nullable ''codegen_time'', nullable ''compile_time'']"

definition baseline_timings_columns :: "column list" where
  "baseline_timings_columns =
     [required ''kernel'', required ''preset'', required ''datatype'', required ''shape'', required ''draw'',
      required ''validity'', required ''node'', required ''image'', required ''kinds'', text_col ''compiler'',
      required ''threads'', required ''repeat'', required ''warmup'', required ''best'', required ''samples'',
      text_col ''leader'', text_col ''leader_source'', text_col ''winner'', required ''ts_ms'']"

definition SCHEMA :: "(string \<times> column list) list" where
  "SCHEMA =
     [(''setups'', setups_columns),
      (''episodes'', episodes_columns),
      (''sources'', sources_columns),
      (''grades'', grades_columns),
      (''grade_sources'', grade_sources_columns),
      (''grade_cells'', grade_cells_columns),
      (''grade_requests'', grade_requests_columns),
      (''scaling_grades'', scaling_grades_columns),
      (''scaling_points'', scaling_points_columns),
      (''disqualifications'', disqualifications_columns),
      (''reference_scaling_points'', reference_scaling_points_columns),
      (''canon'', canon_columns),
      (''baseline_timings'', baseline_timings_columns)]"

definition TABLES :: "string list" where
  "TABLES = [''setups'', ''episodes'', ''sources'', ''grades'', ''grade_sources'', ''grade_cells'', ''grade_requests'',
     ''scaling_grades'', ''scaling_points'', ''disqualifications'', ''reference_scaling_points'', ''canon'',
     ''baseline_timings'']"

definition LAZY_TABLES :: "string list" where
  "LAZY_TABLES = [''baseline_timings'']"

definition GRADE_KEY :: "string list" where
  "GRADE_KEY = [''episode_id'', ''kernel'', ''ts_ms'', ''kind'', ''of_grade_id'']"

definition NATURAL_KEYS :: "(string \<times> string list) list" where
  "NATURAL_KEYS =
     [(''setups'', [''setup'']),
      (''episodes'', [''job'', ''label'']),
      (''sources'', [''hash'']),
      (''grades'', GRADE_KEY),
      (''grade_sources'', [''grade_id'', ''part'']),
      (''grade_cells'', [''grade_id'', ''cell'']),
      (''grade_requests'', [''grade_id'', ''position'']),
      (''scaling_grades'', [''grade_id'', ''mode'', ''input'']),
      (''scaling_points'', [''grade_id'', ''mode'', ''input'', ''ranks'']),
      (''disqualifications'', [''grade_id'']),
      (''reference_scaling_points'', [''source'', ''kernel'', ''mode'', ''ranks'', ''repeat'', ''ts_ms'']),
      (''canon'', [''run'', ''column'', ''kernel'', ''preset'', ''datatype'']),
      (''baseline_timings'', [''kernel'', ''preset'', ''datatype'', ''shape'', ''draw'', ''validity'', ''node'', ''image'', ''kinds'', ''compiler'', ''threads'', ''repeat'', ''warmup''])]"

definition columns_of :: "string \<Rightarrow> column list" where
  "columns_of table = (case map_of SCHEMA table of None \<Rightarrow> [] | Some cs \<Rightarrow> cs)"

definition natural_key :: "string \<Rightarrow> string list" where
  "natural_key table = (case map_of NATURAL_KEYS table of None \<Rightarrow> [] | Some k \<Rightarrow> k)"

text \<open>\<open>default_values(table)[name]\<close>; \<open>column_defaults\<close> is the same as SQL text, \<open>NULL\<close> where there is none.\<close>

definition default_value :: "string \<Rightarrow> string \<Rightarrow> sql" where
  "default_value table name =
     (case find (\<lambda>c. col_name c = name) (columns_of table) of None \<Rightarrow> SNull | Some c \<Rightarrow> col_default c)"

text \<open>The foreign keys: columns, the table they refer to and its columns.\<close>

definition FOREIGN_KEYS :: "(string \<times> (string list \<times> string \<times> string list) list) list" where
  "FOREIGN_KEYS =
     [(''episodes'', [([''setup''], ''setups'', [''setup''])]),
      (''grades'', [([''episode_id''], ''episodes'', [''id'']), ([''of_grade_id''], ''grades'', [''id''])]),
      (''grade_sources'', [([''grade_id''], ''grades'', [''id'']), ([''hash''], ''sources'', [''hash''])]),
      (''grade_cells'', [([''grade_id''], ''grades'', [''id''])]),
      (''grade_requests'', [([''grade_id''], ''grades'', [''id''])]),
      (''scaling_grades'', [([''grade_id''], ''grades'', [''id''])]),
      (''scaling_points'', [([''grade_id'', ''mode'', ''input''], ''scaling_grades'', [''grade_id'', ''mode'', ''input''])]),
      (''disqualifications'', [([''grade_id''], ''grades'', [''id''])])]"

section \<open>Rows and tables\<close>

type_synonym sql_row = "(string, sql) dict"
type_synonym sql_table = "(int \<times> sql_row) list"
type_synonym results = "string \<Rightarrow> sql_table"

definition empty_db :: results where
  "empty_db = (\<lambda>_. [])"

definition field :: "sql_row \<Rightarrow> string \<Rightarrow> sql" where
  "field r c = (case map_of r c of None \<Rightarrow> SNull | Some v \<Rightarrow> v)"

definition non_null :: "sql_row \<Rightarrow> sql_row" where
  "non_null values = filter (\<lambda>(_, v). v \<noteq> SNull) values"

text \<open>The row an INSERT of named values makes: a column not named takes its default.\<close>

definition completed :: "string \<Rightarrow> sql_row \<Rightarrow> sql_row" where
  "completed table values =
     map (\<lambda>c. (col_name c, case map_of values (col_name c) of None \<Rightarrow> col_default c | Some v \<Rightarrow> v)) (columns_of table)"

text \<open>A CHECK that is unknown (its column is NULL) passes.\<close>

definition check_ok :: "sql_check \<Rightarrow> sql \<Rightarrow> bool" where
  "check_ok k v =
     (case k of Unchecked \<Rightarrow> True | Among vs \<Rightarrow> v = SNull \<or> v \<in> set vs
        | At_least n \<Rightarrow> (case v of SInt i \<Rightarrow> n \<le> i | _ \<Rightarrow> True))"

definition column_ok :: "column \<Rightarrow> sql \<Rightarrow> bool" where
  "column_ok c v \<longleftrightarrow> (v \<noteq> SNull \<or> \<not> not_null c) \<and> check_ok (col_check c) v"

text \<open>The two CHECKs of \<open>grades\<close> over several columns; \<open>build_ok\<close> and \<open>correct\<close> may be NULL, which leaves the
  second one unknown.\<close>

definition grade_row_ok :: "sql_row \<Rightarrow> bool" where
  "grade_row_ok r \<longleftrightarrow>
     (field r ''kind'' \<in> {SText ''final'', SText ''regrade''}) = (field r ''of_grade_id'' \<noteq> SNull) \<and>
     (field r ''credited_speedup'' = SReal 0 \<or> field r ''build_ok'' \<noteq> SInt 0 \<and> field r ''correct'' \<noteq> SInt 0)"

definition row_ok :: "string \<Rightarrow> sql_row \<Rightarrow> bool" where
  "row_ok table r \<longleftrightarrow>
     list_all (\<lambda>c. column_ok c (field r (col_name c))) (columns_of table) \<and> (table = ''grades'' \<longrightarrow> grade_row_ok r)"

text \<open>A row's entry in its table's UNIQUE index: \<open>of_grade_id\<close> is COALESCEd to 0, and a NULL never equals another.\<close>

definition index_key :: "string \<Rightarrow> sql_row \<Rightarrow> sql list" where
  "index_key table r =
     map (\<lambda>c. if c = ''of_grade_id'' \<and> field r c = SNull then SInt 0 else field r c) (natural_key table)"

definition holder :: "results \<Rightarrow> string \<Rightarrow> sql_row \<Rightarrow> (int \<times> sql_row) option" where
  "holder db table r =
     (if SNull \<in> set (index_key table r) then None
      else find (\<lambda>(_, s). index_key table s = index_key table r) (db table))"

definition refers :: "results \<Rightarrow> sql_row \<Rightarrow> string list \<times> string \<times> string list \<Rightarrow> bool" where
  "refers db r = (\<lambda>(own, parent, cols). let vs = map (field r) own in SNull \<in> set vs \<or>
     list_ex (\<lambda>(rid, p). map (\<lambda>c. if c = ''id'' then SInt rid else field p c) cols = vs) (db parent))"

definition references_ok :: "results \<Rightarrow> string \<Rightarrow> sql_row \<Rightarrow> bool" where
  "references_ok db table r =
     list_all (refers db r) (case map_of FOREIGN_KEYS table of None \<Rightarrow> [] | Some fs \<Rightarrow> fs)"

definition next_rowid :: "sql_table \<Rightarrow> int" where
  "next_rowid rows = foldl (\<lambda>m (rid, _). max m rid) 0 rows + 1"

definition known_columns :: "string \<Rightarrow> sql_row \<Rightarrow> bool" where
  "known_columns table values \<longleftrightarrow> values \<noteq> [] \<and> set (map fst values) \<subseteq> set (map col_name (columns_of table))"

text \<open>The new row, once nothing holds its key.\<close>

definition append_row :: "results \<Rightarrow> string \<Rightarrow> sql_row \<Rightarrow> (results \<times> int) res" where
  "append_row db table r =
     (if references_ok db table r
      then Inr (db(table := db table @ [(next_rowid (db table), r)]), next_rowid (db table))
      else Inl (SqlError ''FOREIGN KEY''))"

definition insert_row :: "results \<Rightarrow> string \<Rightarrow> sql_row \<Rightarrow> (results \<times> int) res" where
  "insert_row db table values =
     (let vals = non_null values; r = completed table vals
      in if \<not> known_columns table vals then Inl (SqlError ''columns'')
         else if \<not> row_ok table r then Inl (SqlError ''NOT NULL or CHECK'')
         else case holder db table r of Some _ \<Rightarrow> Inl (SqlError ''UNIQUE'') | None \<Rightarrow> append_row db table r)"

text \<open>\<open>DO UPDATE\<close> with \<open>fill\<close>: a column of the statement outside the key and still at its default takes the new
  value; without \<open>fill\<close> the update changes nothing.\<close>

definition fill_row :: "string \<Rightarrow> sql_row \<Rightarrow> sql_row \<Rightarrow> sql_row" where
  "fill_row table vals stored =
     map (\<lambda>(c, v). (c, case map_of vals c of
         Some w \<Rightarrow> if c \<notin> set (natural_key table) \<and> v = default_value table c then w else v | None \<Rightarrow> v)) stored"

definition set_row :: "results \<Rightarrow> string \<Rightarrow> int \<Rightarrow> sql_row \<Rightarrow> results" where
  "set_row db table rid r = db(table := map (\<lambda>(i, s). (i, if i = rid then r else s)) (db table))"

definition upsert :: "results \<Rightarrow> string \<Rightarrow> sql_row \<Rightarrow> bool \<Rightarrow> (results \<times> int) res" where
  "upsert db table values fill =
     (let vals = non_null values; r = completed table vals
      in if \<not> known_columns table vals then Inl (SqlError ''columns'')
         else if \<not> row_ok table r then Inl (SqlError ''NOT NULL or CHECK'')
         else case holder db table r of
             Some (rid, stored) \<Rightarrow> Inr (if fill then set_row db table rid (fill_row table vals stored) else db, rid)
           | None \<Rightarrow> append_row db table r)"
section \<open>What a database keeps\<close>

text \<open>
  A well-formed table: rowids are positive and distinct, no two rows share a key, and a row has the columns of the
  schema with values their constraints allow.
\<close>

definition stored_ok :: "string \<Rightarrow> sql_row \<Rightarrow> bool" where
  "stored_ok table s \<longleftrightarrow> map fst s = map col_name (columns_of table) \<and> row_ok table s"

definition table_ok :: "string \<Rightarrow> sql_table \<Rightarrow> bool" where
  "table_ok table rows \<longleftrightarrow>
     distinct (map fst rows) \<and> list_all (\<lambda>(rid, s). 1 \<le> rid \<and> stored_ok table s) rows \<and>
     distinct (map (index_key table \<circ> snd) rows)"

definition results_ok :: "results \<Rightarrow> bool" where
  "results_ok db \<longleftrightarrow> (\<forall>table. table_ok table (db table))"

lemma tables_distinct_columns: "distinct (map col_name (columns_of table))"
proof -
  have "list_all (\<lambda>(_, cs). distinct (map col_name cs)) SCHEMA"
    by code_simp
  then show ?thesis
    by (auto simp: columns_of_def list_all_iff split: option.splits dest!: map_of_SomeD)
qed

lemma column_unique:
  "c \<in> set (columns_of table) \<Longrightarrow> d \<in> set (columns_of table) \<Longrightarrow> col_name c = col_name d \<Longrightarrow> c = d"
  using tables_distinct_columns [of table] by (auto simp: distinct_map inj_on_def)

lemma default_value_column: "c \<in> set (columns_of table) \<Longrightarrow> default_value table (col_name c) = col_default c"
  by (auto simp: default_value_def split: option.splits dest: column_unique dest!: find_SomeD simp: find_None_iff)

lemma natural_key_member: "k \<in> set (natural_key table) \<Longrightarrow> \<exists>ks. (table, ks) \<in> set NATURAL_KEYS \<and> k \<in> set ks"
  by (cases "map_of NATURAL_KEYS table") (auto simp: natural_key_def dest: map_of_SomeD)

lemma key_columns_required:
  assumes "k \<in> set (natural_key table)" "k \<noteq> ''of_grade_id''"
  obtains c where "c \<in> set (columns_of table)" "col_name c = k" "not_null c"
proof -
  have all: "\<forall>(t, ks) \<in> set NATURAL_KEYS. \<forall>k \<in> set ks. k = ''of_grade_id'' \<or>
      list_ex (\<lambda>c. col_name c = k \<and> not_null c) (columns_of t)"
    by code_simp
  obtain ks where "(table, ks) \<in> set NATURAL_KEYS" "k \<in> set ks"
    using assms(1) natural_key_member by blast
  with all assms(2) have "list_ex (\<lambda>c. col_name c = k \<and> not_null c) (columns_of table)"
    by blast
  then show ?thesis
    using that by (auto simp: list_ex_iff)
qed

lemma of_grade_key: "''of_grade_id'' \<in> set (natural_key table) \<longleftrightarrow> table = ''grades''"
proof
  have all: "\<forall>(t, ks) \<in> set NATURAL_KEYS. ''of_grade_id'' \<in> set ks \<longrightarrow> t = ''grades''"
    by code_simp
  assume "''of_grade_id'' \<in> set (natural_key table)"
  then obtain ks where "(table, ks) \<in> set NATURAL_KEYS" "''of_grade_id'' \<in> set ks"
    using natural_key_member by blast
  with all show "table = ''grades''"
    by blast
next
  have "''of_grade_id'' \<in> set (natural_key ''grades'')"
    by code_simp
  then show "table = ''grades'' \<Longrightarrow> ''of_grade_id'' \<in> set (natural_key table)"
    by simp
qed

lemma row_okD: "row_ok table r \<Longrightarrow> c \<in> set (columns_of table) \<Longrightarrow> column_ok c (field r (col_name c))"
  by (simp add: row_ok_def list_all_iff)

lemma index_key_no_null:
  assumes "row_ok table r"
  shows "SNull \<notin> set (index_key table r)"
proof
  assume "SNull \<in> set (index_key table r)"
  then obtain k where k: "k \<in> set (natural_key table)" "k \<noteq> ''of_grade_id''" "field r k = SNull"
    by (auto simp: index_key_def image_iff split: if_splits) (metis+)
  then obtain c where "c \<in> set (columns_of table)" "col_name c = k" "not_null c"
    by (elim key_columns_required)
  with row_okD [OF assms] k(3) show False
    by (auto simp: column_ok_def)
qed

lemma field_completed:
  assumes "c \<in> set (columns_of table)"
  shows "field (completed table vals) (col_name c) =
    (case map_of vals (col_name c) of None \<Rightarrow> col_default c | Some v \<Rightarrow> v)"
proof -
  let ?f = "\<lambda>c. case map_of vals (col_name c) of None \<Rightarrow> col_default c | Some v \<Rightarrow> v"
  have "(col_name c, ?f c) \<in> set (completed table vals)"
    using assms by (auto simp: completed_def)
  moreover have "distinct (map fst (completed table vals))"
    using tables_distinct_columns by (simp add: completed_def o_def)
  ultimately show ?thesis
    by (simp add: field_def)
qed

lemma completed_columns: "map fst (completed table vals) = map col_name (columns_of table)"
  by (simp add: completed_def)

lemma same_key_same_row:
  assumes "table_ok table rows" "x \<in> set rows" "y \<in> set rows" "index_key table (snd x) = index_key table (snd y)"
  shows "x = y"
  using assms by (auto simp: table_ok_def distinct_map inj_on_def)

lemma holder_Some:
  assumes "table_ok table (db table)" "row_ok table r"
  shows "holder db table r = Some (rid, s) \<longleftrightarrow> (rid, s) \<in> set (db table) \<and> index_key table s = index_key table r"
proof
  assume "holder db table r = Some (rid, s)"
  then show "(rid, s) \<in> set (db table) \<and> index_key table s = index_key table r"
    by (auto simp: holder_def dest!: find_SomeD split: if_splits)
next
  assume in_table: "(rid, s) \<in> set (db table) \<and> index_key table s = index_key table r"
  then obtain x where x: "find (\<lambda>(_, s). index_key table s = index_key table r) (db table) = Some x"
    by (cases "find (\<lambda>(_, s). index_key table s = index_key table r) (db table)") (auto simp: find_None_iff)
  then have "x = (rid, s)"
    using in_table by (intro same_key_same_row [OF assms(1)]) (auto dest!: find_SomeD)
  with x show "holder db table r = Some (rid, s)"
    using index_key_no_null [OF assms(2)] by (simp add: holder_def)
qed

lemma holder_None: "row_ok table r \<Longrightarrow> holder db table r = None \<longleftrightarrow>
    (\<forall>(rid, s) \<in> set (db table). index_key table s \<noteq> index_key table r)"
  using index_key_no_null by (fastforce simp: holder_def find_None_iff)

lemma rowid_bound:
  "a \<le> foldl (\<lambda>m (rid, _). max m rid) a rows \<and> (\<forall>x \<in> set rows. fst x \<le> foldl (\<lambda>m (rid, _). max m rid) (a :: int) rows)"
proof (induction rows arbitrary: a)
  case (Cons x rows)
  from Cons [of "max a (fst x)"] show ?case
    by (auto simp: split_beta)
qed simp

lemma next_rowid_above: "x \<in> set rows \<Longrightarrow> fst x < next_rowid rows"
  using rowid_bound [of 0 rows] by (fastforce simp: next_rowid_def)

lemma next_rowid_pos: "1 \<le> next_rowid rows"
  using rowid_bound [of 0 rows] by (simp add: next_rowid_def)
section \<open>Every write keeps the database well formed\<close>

lemma empty_db_ok: "results_ok empty_db"
  by (simp add: results_ok_def table_ok_def empty_db_def)

lemma append_rowD:
  assumes "append_row db table r = Inr (db', rid)"
  shows "db' = db(table := db table @ [(rid, r)])" "rid = next_rowid (db table)" "references_ok db table r"
  using assms by (auto simp: append_row_def split: if_splits)

lemma append_row_ok:
  assumes "results_ok db" "append_row db table r = Inr (db', rid)" "stored_ok table r" "holder db table r = None"
  shows "results_ok db'"
proof -
  note D = append_rowD [OF assms(2)]
  have ok: "table_ok table (db table)"
    using assms(1) by (simp add: results_ok_def)
  have "rid \<notin> fst ` set (db table)"
    using next_rowid_above [of _ "db table"] D(2) by force
  moreover have "index_key table r \<notin> (\<lambda>x. index_key table (snd x)) ` set (db table)"
    using assms(3,4) holder_None [of table r db] by (force simp: stored_ok_def)
  ultimately have "table_ok table (db table @ [(rid, r)])"
    using ok assms(3) D(2) next_rowid_pos [of "db table"] by (auto simp: table_ok_def o_def)
  with assms(1) D(1) show ?thesis
    by (simp add: results_ok_def)
qed

lemma set_row_ok:
  assumes "results_ok db" "(rid, s) \<in> set (db table)" "stored_ok table r" "index_key table r = index_key table s"
  shows "results_ok (set_row db table rid r)"
proof -
  let ?rows = "map (\<lambda>(i, s). (i, if i = rid then r else s)) (db table)"
  have ok: "table_ok table (db table)"
    using assms(1) by (simp add: results_ok_def)
  have "index_key table (snd (case x of (i, s) \<Rightarrow> (i, if i = rid then r else s))) = index_key table (snd x)"
    if "x \<in> set (db table)" for x
  proof -
    have "x = (rid, s)" if "fst x = rid"
      using that \<open>x \<in> set (db table)\<close> assms(2) ok by (auto simp: table_ok_def distinct_map inj_on_def)
    then show ?thesis
      using assms(4) by (cases x) auto
  qed
  then have "map (index_key table \<circ> snd) ?rows = map (index_key table \<circ> snd) (db table)"
    by simp
  moreover have "map fst ?rows = map fst (db table)"
    by (simp add: split_beta o_def)
  moreover have "list_all (\<lambda>(rid, s). 1 \<le> rid \<and> stored_ok table s) ?rows"
    using ok assms(3) by (auto simp: table_ok_def list_all_iff)
  ultimately have "table_ok table ?rows"
    using ok unfolding table_ok_def by metis
  with assms(1) show ?thesis
    by (simp add: results_ok_def set_row_def)
qed

lemma stored_field: "stored_ok table s \<Longrightarrow> c \<in> set (columns_of table) \<Longrightarrow> (col_name c, field s (col_name c)) \<in> set s"
proof -
  assume "stored_ok table s" "c \<in> set (columns_of table)"
  then have "col_name c \<in> fst ` set s"
    by (metis stored_ok_def image_eqI set_map)
  then show ?thesis
    by (auto simp: field_def split: option.splits dest: map_of_SomeD simp: map_of_eq_None_iff)
qed

lemma stored_value: "stored_ok table s \<Longrightarrow> (c, v) \<in> set s \<Longrightarrow> field s c = v"
  using tables_distinct_columns [of table] by (simp add: stored_ok_def field_def)

lemma map_of_map_row: "map_of (map (\<lambda>(c, v). (c, f c v)) s) c = map_option (f c) (map_of s c)"
  by (induction s) auto

lemma field_map_row: "c \<in> fst ` set s \<Longrightarrow> field (map (\<lambda>(c, v). (c, f c v)) s) c = f c (field s c)"
  by (auto simp: field_def map_of_map_row split: option.splits simp: map_of_eq_None_iff)

lemma stored_column: "stored_ok table s \<Longrightarrow> c \<in> fst ` set s \<longleftrightarrow> c \<in> col_name ` set (columns_of table)"
  by (metis stored_ok_def set_map)

lemma field_fill_row:
  assumes "stored_ok table s" "c \<in> col_name ` set (columns_of table)"
  shows "field (fill_row table vals s) c = (case map_of vals c of
     Some w \<Rightarrow> if c \<notin> set (natural_key table) \<and> field s c = default_value table c then w else field s c
   | None \<Rightarrow> field s c)"
  using assms stored_column [OF assms(1)] field_map_row [of c s] by (simp add: fill_row_def)

lemma natural_key_columns: "set (natural_key table) \<subseteq> col_name ` set (columns_of table)"
proof
  fix k assume k: "k \<in> set (natural_key table)"
  show "k \<in> col_name ` set (columns_of table)"
  proof (cases "k = ''of_grade_id''")
    case True
    have "list_ex (\<lambda>c. col_name c = ''of_grade_id'') (columns_of ''grades'')"
      by code_simp
    with True k show ?thesis
      using of_grade_key by (force simp: list_ex_iff)
  next
    case False
    with k show ?thesis
      by (elim key_columns_required) auto
  qed
qed

lemma index_key_cong:
  "(\<And>k. k \<in> set (natural_key table) \<Longrightarrow> field s k = field r k) \<Longrightarrow> index_key table s = index_key table r"
  unfolding index_key_def by (rule map_cong [OF refl]) metis

lemma non_null_map_of: "distinct (map fst row) \<Longrightarrow> map_of (non_null row) c = Some w \<Longrightarrow> (c, w) \<in> set row \<and> w \<noteq> SNull"
  by (auto simp: non_null_def dest!: map_of_SomeD)

lemma map_of_non_null:
  assumes "distinct (map fst row)"
  shows "map_of (non_null row) c = (case map_of row c of None \<Rightarrow> None | Some v \<Rightarrow> if v = SNull then None else Some v)"
proof (cases "map_of (non_null row) c")
  case (Some w)
  then show ?thesis
    using map_of_is_SomeI [OF assms, of c w] non_null_map_of [OF assms Some] by simp
next
  case None
  then have "map_of row c = Some v \<Longrightarrow> v = SNull" for v
    by (force simp: map_of_eq_None_iff non_null_def dest!: map_of_SomeD)
  with None show ?thesis
    by (auto split: option.split)
qed

lemma field_set: "field (dict_set c v row) k = (if k = c then v else field row k)"
  by (simp add: field_def AList.update_conv')

lemma stored_ok_fill:
  assumes "stored_ok table s" "row_ok table (completed table vals)" "table \<noteq> ''grades''"
  shows "stored_ok table (fill_row table vals s)" "index_key table (fill_row table vals s) = index_key table s"
proof -
  have "column_ok c (field (fill_row table vals s) (col_name c))" if c: "c \<in> set (columns_of table)" for c
  proof -
    have "column_ok c (field s (col_name c))" "column_ok c (field (completed table vals) (col_name c))"
      using row_okD [OF _ c] assms(1,2) by (auto simp: stored_ok_def)
    with c show ?thesis
      by (auto simp: field_fill_row [OF assms(1)] field_completed split: option.splits)
  qed
  moreover have "map fst (fill_row table vals s) = map fst s"
    by (simp add: fill_row_def split_beta o_def)
  ultimately show "stored_ok table (fill_row table vals s)"
    using assms(1,3) by (simp add: stored_ok_def row_ok_def list_all_iff)
  show "index_key table (fill_row table vals s) = index_key table s"
    using natural_key_columns [of table]
    by (intro index_key_cong) (auto simp: field_fill_row [OF assms(1)] split: option.splits)
qed

lemma stored_ok_completed: "row_ok table (completed table vals) \<Longrightarrow> stored_ok table (completed table vals)"
  by (simp add: stored_ok_def completed_columns)

lemma upsertD:
  assumes "upsert db table values fill = Inr (db', rid)"
  shows "known_columns table (non_null values)" "row_ok table (completed table (non_null values))"
    and "(\<exists>s. holder db table (completed table (non_null values)) = Some (rid, s) \<and>
            db' = (if fill then set_row db table rid (fill_row table (non_null values) s) else db)) \<or>
         holder db table (completed table (non_null values)) = None \<and>
            append_row db table (completed table (non_null values)) = Inr (db', rid)"
  using assms by (auto simp: upsert_def Let_def split: if_splits option.splits)

lemma holderD: "holder db table r = Some (rid, s) \<Longrightarrow> (rid, s) \<in> set (db table) \<and> index_key table s = index_key table r"
  by (auto simp: holder_def dest!: find_SomeD split: if_splits)

lemma stored_in: "results_ok db \<Longrightarrow> (rid, s) \<in> set (db table) \<Longrightarrow> stored_ok table s"
  by (auto simp: results_ok_def table_ok_def list_all_iff)

lemma upsert_ok:
  assumes "results_ok db" "upsert db table values fill = Inr (db', rid)" "fill \<Longrightarrow> table \<noteq> ''grades''"
  shows "results_ok db'"
  using upsertD(3) [OF assms(2)]
proof (elim disjE exE conjE)
  fix s assume h: "holder db table (completed table (non_null values)) = Some (rid, s)"
    and db': "db' = (if fill then set_row db table rid (fill_row table (non_null values) s) else db)"
  note in_table = conjunct1 [OF holderD [OF h]]
  show ?thesis
  proof (cases fill)
    case True
    note F = stored_ok_fill [OF stored_in [OF assms(1) in_table] upsertD(2) [OF assms(2)] assms(3) [OF True]]
    show ?thesis
      using set_row_ok [OF assms(1) in_table F] True db' by simp
  qed (use db' assms(1) in simp)
next
  assume "holder db table (completed table (non_null values)) = None"
    and "append_row db table (completed table (non_null values)) = Inr (db', rid)"
  then show ?thesis
    using append_row_ok [OF assms(1) _ stored_ok_completed [OF upsertD(2) [OF assms(2)]]] by blast
qed

lemma insert_rowD:
  assumes "insert_row db table values = Inr (db', rid)"
  shows "holder db table (completed table (non_null values)) = None" "row_ok table (completed table (non_null values))"
    "append_row db table (completed table (non_null values)) = Inr (db', rid)"
  using assms by (auto simp: insert_row_def Let_def split: if_splits option.splits)

lemma insert_row_ok: "results_ok db \<Longrightarrow> insert_row db table values = Inr (db', rid) \<Longrightarrow> results_ok db'"
  using insert_rowD append_row_ok stored_ok_completed by metis

end
