(* ===== verification/Results_Merge.thy ===== *)
theory Results_Merge
  imports Results_Db
begin

text \<open>
  Merging results files by natural key (\<open>merge_rows\<close>, \<open>merge_one\<close> and \<open>merge\<close> of \<open>harness/results_db.py\<close>). What
  SQLite does for the module is in \<open>Results_Db\<close>; a file is its version, its tables and their rows, and an error
  inside one file leaves the destination as the file found it (the transaction is rolled back).
\<close>

section \<open>One row\<close>

definition NEWEST_WINS :: "(string \<times> string) list" where
  "NEWEST_WINS = [(''canon'', ''ts_ms''), (''baseline_timings'', ''ts_ms'')]"

definition TIE_KEEPS_STORED :: "string list" where
  "TIE_KEEPS_STORED = [''baseline_timings'']"

record id_map =
  im_episodes :: "(int, int) dict"
  im_grades :: "(int, int) dict"

definition no_ids :: id_map where
  "no_ids = \<lparr>im_episodes = [], im_grades = []\<rparr>"

definition same_key :: "string \<Rightarrow> sql_row \<Rightarrow> sql_row \<Rightarrow> bool" where
  "same_key table row s \<longleftrightarrow> list_all (\<lambda>k. field s k = field row k) (natural_key table)"

definition stored_row :: "results \<Rightarrow> string \<Rightarrow> sql_row \<Rightarrow> (int \<times> sql_row) option" where
  "stored_row db table row = find (\<lambda>(_, s). same_key table row s) (db table)"

definition conflicts :: "string \<Rightarrow> sql_row \<Rightarrow> sql_row \<Rightarrow> string list" where
  "conflicts table stored row =
     map fst (filter (\<lambda>(name, v). v \<noteq> field stored name \<and>
       \<not> (table = ''episodes'' \<and> default_value table name \<in> {v, field stored name})) row)"

definition id_value :: "sql \<Rightarrow> int res" where
  "id_value v = (case v of SInt n \<Rightarrow> Inr n | _ \<Rightarrow> Inl (TypeError ''int()''))"

definition mapped_id :: "(int, int) dict \<Rightarrow> sql \<Rightarrow> sql res" where
  "mapped_id ids v =
     bindE (id_value v) (\<lambda>n. bindE (dict_item (\<lambda>_. KeyError ''id'') ids n) (\<lambda>m. Inr (SInt m)))"

definition remap_ids :: "string \<Rightarrow> id_map \<Rightarrow> sql_row \<Rightarrow> sql_row res" where
  "remap_ids table ids row =
     (if table = ''grades'' then
        bindE (mapped_id (im_episodes ids) (field row ''episode_id'')) (\<lambda>e.
        bindE (if field row ''of_grade_id'' = SNull then Inr SNull else mapped_id (im_grades ids) (field row ''of_grade_id'')) (\<lambda>g.
          Inr (dict_set ''of_grade_id'' g (dict_set ''episode_id'' e row))))
      else if ''grade_id'' \<in> set (map fst row) then
        bindE (mapped_id (im_grades ids) (field row ''grade_id'')) (\<lambda>g. Inr (dict_set ''grade_id'' g row))
      else Inr row)"

definition later :: "sql \<Rightarrow> sql \<Rightarrow> bool res" where
  "later a b = (case (a, b) of (SInt m, SInt n) \<Rightarrow> Inr (n < m) | _ \<Rightarrow> Inl (TypeError ''>''))"

definition update_row :: "results \<Rightarrow> string \<Rightarrow> int \<Rightarrow> sql_row \<Rightarrow> sql_row \<Rightarrow> results res" where
  "update_row db table rid stored row =
     (let s = map (\<lambda>(c, v). (c, case map_of row c of Some w \<Rightarrow> w | None \<Rightarrow> v)) stored
      in if row_ok table s then Inr (set_row db table rid s) else Inl (SqlError ''NOT NULL or CHECK''))"

text \<open>What becomes of one remapped row: the destination after it, the id it is found under when it was upserted,
  and how many rows it counts for.\<close>

definition place_row :: "string \<Rightarrow> results \<Rightarrow> sql_row \<Rightarrow> (results \<times> int option \<times> int) res" where
  "place_row table db row =
     (let copy = bindE (upsert db table row (table = ''episodes'')) (\<lambda>(db', new). Inr (db', Some new, 1))
      in case stored_row db table row of
           None \<Rightarrow> copy
         | Some (rid, stored) \<Rightarrow>
             if conflicts table stored row = [] then copy
             else case map_of NEWEST_WINS table of
                 None \<Rightarrow> Inl (ValueError ''two copies differ'')
               | Some ts \<Rightarrow>
                   if field row ts = field stored ts then
                     (if table \<in> set TIE_KEEPS_STORED then Inr (db, None, 0) else Inl (ValueError ''two copies differ''))
                   else bindE (later (field row ts) (field stored ts)) (\<lambda>newer.
                     if newer then bindE (update_row db table rid stored row) (\<lambda>db'. Inr (db', None, 1))
                     else Inr (db, None, 1)))"

definition note_id :: "string \<Rightarrow> int \<Rightarrow> int option \<Rightarrow> id_map \<Rightarrow> id_map" where
  "note_id table old new ids =
     (case new of None \<Rightarrow> ids
        | Some n \<Rightarrow> if table = ''episodes'' then ids\<lparr>im_episodes := dict_set old n (im_episodes ids)\<rparr>
            else if table = ''grades'' then ids\<lparr>im_grades := dict_set old n (im_grades ids)\<rparr> else ids)"

definition merge_row :: "string \<Rightarrow> id_map \<times> results \<times> int \<Rightarrow> int \<times> sql_row \<Rightarrow> (id_map \<times> results \<times> int) res" where
  "merge_row table st old_row =
     (case (st, old_row) of ((ids, db, copied), (old, row0)) \<Rightarrow>
        bindE (remap_ids table ids row0) (\<lambda>row.
        bindE (place_row table db row) (\<lambda>(db', new, n).
          Inr (note_id table old new ids, db', copied + n))))"

section \<open>Tables, files and a list of files\<close>

text \<open>\<open>ORDER BY rowid\<close>; grades that re-time another come after the ones they may name.\<close>

definition source_rows :: "string \<Rightarrow> sql_table \<Rightarrow> sql_table" where
  "source_rows table rows =
     (let ordered = sort_key fst rows
      in if table = ''grades'' then filter (\<lambda>(_, s). field s ''of_grade_id'' = SNull) ordered @
           filter (\<lambda>(_, s). field s ''of_grade_id'' \<noteq> SNull) ordered
         else ordered)"

definition merge_rows :: "string \<Rightarrow> sql_table \<Rightarrow> id_map \<times> results \<Rightarrow> (id_map \<times> results \<times> int) res" where
  "merge_rows table rows = (\<lambda>(ids, db). foldE (merge_row table) (ids, db, 0) (source_rows table rows))"

record db_file =
  user_version :: int
  file_tables :: "string list"
  content :: results

definition SCHEMA_VERSION :: int where
  "SCHEMA_VERSION = 20"

definition UPGRADED_VERSIONS :: "int list" where
  "UPGRADED_VERSIONS = [13, 14, 15, 16, 17, 18, 19]"

definition merge_table :: "db_file \<Rightarrow> id_map \<times> results \<times> (string, int) dict \<Rightarrow> string \<Rightarrow> (id_map \<times> results \<times> (string, int) dict) res" where
  "merge_table f st table =
     (case st of (ids, db, copied) \<Rightarrow>
        if table \<notin> set (file_tables f) then
          (if table \<in> set LAZY_TABLES then Inr st else Inl (SqlError ''no such table''))
        else bindE (merge_rows table (content f table) (ids, db)) (\<lambda>(ids', db', n).
          Inr (ids', db', dict_set table n copied)))"

definition merge_one :: "results \<Rightarrow> db_file \<Rightarrow> (results \<times> (string, int) dict) res" where
  "merge_one db f =
     bindE (if user_version f = SCHEMA_VERSION \<or> user_version f \<in> set UPGRADED_VERSIONS then
              bindE (foldE (merge_table f) (no_ids, db, []) TABLES) (\<lambda>(_, db', copied). Inr (db', copied))
            else if user_version f \<noteq> 0 \<or> list_ex (\<lambda>t. t \<in> set TABLES) (file_tables f) then Inl (ValueError ''SchemaVersionError'')
            else Inr (db, [])) (\<lambda>out.
       if list_ex (\<lambda>t. t \<notin> set TABLES \<and> take 7 t \<noteq> ''sqlite_'') (file_tables f)
       then Inl (ValueError ''SchemaVersionError'') else Inr out)"

definition add_counts :: "(string, int) dict \<Rightarrow> (string, int) dict \<Rightarrow> (string, int) dict" where
  "add_counts totals copied =
     foldl (\<lambda>t (table, n). dict_set table ((case map_of t table of None \<Rightarrow> 0 | Some m \<Rightarrow> m) + n) t) totals copied"

text \<open>The files in order, each in a transaction of its own; the destination itself is skipped.\<close>

fun merge_from :: "results \<Rightarrow> (string, int) dict \<Rightarrow> string \<Rightarrow> (string \<times> db_file) list \<Rightarrow> results \<times> (string, int) dict res" where
  "merge_from db totals target [] = (db, Inr totals)"
| "merge_from db totals target ((path, f) # files) =
     (if path = target then merge_from db totals target files
      else case merge_one db f of
          Inl e \<Rightarrow> (db, Inl e)
        | Inr (db', copied) \<Rightarrow> merge_from db' (add_counts totals copied) target files)"

definition merge_files :: "results \<Rightarrow> string \<Rightarrow> (string \<times> db_file) list \<Rightarrow> results \<times> (string, int) dict res" where
  "merge_files db target files = merge_from db [] target files"
section \<open>How a destination grows\<close>

text \<open>
  A stored row keeps its rowid and its key for good; of a measurement table it is replaced by a later one only, of
  \<open>episodes\<close> a column still at its default may be filled, and nothing else about it changes.
\<close>

definition grown :: "string \<Rightarrow> sql_row \<Rightarrow> sql_row \<Rightarrow> bool" where
  "grown table s t \<longleftrightarrow>
     (\<forall>k \<in> set (natural_key table). field t k = field s k) \<and>
     (case map_of NEWEST_WINS table of
        Some ts \<Rightarrow> t = s \<or> (\<exists>a b. field s ts = SInt a \<and> field t ts = SInt b \<and> a < b)
      | None \<Rightarrow> \<forall>c. field t c = field s c \<or> table = ''episodes'' \<and> field s c = default_value table c)"

definition grows :: "results \<Rightarrow> results \<Rightarrow> bool" where
  "grows db db' \<longleftrightarrow> (\<forall>table. \<forall>(rid, s) \<in> set (db table). \<exists>t. (rid, t) \<in> set (db' table) \<and> grown table s t)"

lemma grown_refl: "grown table s s"
  by (simp add: grown_def split: option.splits)

lemma grown_trans:
  assumes "grown table s t" "grown table t u"
  shows "grown table s u"
proof (cases "map_of NEWEST_WINS table")
  case None
  then have "field u c = field s c \<or> table = ''episodes'' \<and> field s c = default_value table c" for c
    using assms unfolding grown_def by (simp only: option.case) metis
  then show ?thesis
    using None assms by (simp add: grown_def)
next
  case (Some ts)
  then show ?thesis
    using assms by (fastforce simp: grown_def)
qed

lemma growsD: "grows db db' \<Longrightarrow> (rid, s) \<in> set (db table) \<Longrightarrow> \<exists>t. (rid, t) \<in> set (db' table) \<and> grown table s t"
  by (auto simp: grows_def)

lemma growsI: "(\<And>table rid s. (rid, s) \<in> set (db table) \<Longrightarrow> \<exists>t. (rid, t) \<in> set (db' table) \<and> grown table s t) \<Longrightarrow> grows db db'"
  by (auto simp: grows_def)

lemma grows_refl: "grows db db"
  using grown_refl by (auto intro!: growsI)

lemma grows_trans: "grows db db' \<Longrightarrow> grows db' db'' \<Longrightarrow> grows db db''"
  by (rule growsI) (meson growsD grown_trans)

lemma grown_index_key: "grown table s t \<Longrightarrow> index_key table t = index_key table s"
  by (rule index_key_cong) (simp add: grown_def)

lemma append_row_grows: "append_row db table r = Inr (db', rid) \<Longrightarrow> grows db db'"
  using grown_refl by (auto intro!: growsI dest!: append_rowD(1))

lemma set_row_grows:
  assumes "(rid, s) \<in> set (db table)" "results_ok db" "grown table s r"
  shows "grows db (set_row db table rid r)"
proof (rule growsI)
  fix t i u assume u: "(i, u) \<in> set (db t)"
  have "u = s" if "t = table" "i = rid"
    using that u assms(1,2) by (auto simp: results_ok_def table_ok_def dest: eq_key_imp_eq_value)
  then show "\<exists>v. (i, v) \<in> set (set_row db table rid r t) \<and> grown t u v"
    using u assms(3) grown_refl by (cases "t = table \<and> i = rid") (force simp: set_row_def)+
qed

lemma set_row_mem: "(rid, s) \<in> set (db table) \<Longrightarrow> (rid, r) \<in> set (set_row db table rid r table)"
  by (force simp: set_row_def)

section \<open>Rows a file holds\<close>

text \<open>
  A row of a source: columns of the schema (an earlier version has fewer), its key among them, NULL only where the
  schema allows it, and values its constraints allow.
\<close>

definition source_row_ok :: "string \<Rightarrow> sql_row \<Rightarrow> bool" where
  "source_row_ok table row \<longleftrightarrow>
     distinct (map fst row) \<and> known_columns table (non_null row) \<and>
     set (map fst row) \<subseteq> set (map col_name (columns_of table)) \<and>
     set (natural_key table) \<subseteq> set (map fst row) \<and>
     (case map_of NEWEST_WINS table of None \<Rightarrow> True | Some ts \<Rightarrow> ts \<in> set (map fst row)) \<and>
     list_all (\<lambda>(c, v). v = SNull \<longrightarrow> default_value table c = SNull) row \<and>
     row_ok table (completed table (non_null row))"

definition source_ok :: "db_file \<Rightarrow> bool" where
  "source_ok f \<longleftrightarrow> list_all (\<lambda>table. list_all (\<lambda>(_, row). source_row_ok table row) (content f table)) TABLES"

lemma source_rowD:
  assumes "source_row_ok table row"
  shows "distinct (map fst row)"
    and "(c, v) \<in> set row \<Longrightarrow> v = SNull \<Longrightarrow> default_value table c = SNull"
    and "(c, v) \<in> set row \<Longrightarrow> c \<in> col_name ` set (columns_of table)"
    and "k \<in> set (natural_key table) \<Longrightarrow> k \<in> fst ` set row"
    and "map_of NEWEST_WINS table = Some ts \<Longrightarrow> ts \<in> fst ` set row"
proof -
  note D = assms [unfolded source_row_ok_def]
  show "distinct (map fst row)"
    using D by (elim conjE)
  show "(c, v) \<in> set row \<Longrightarrow> v = SNull \<Longrightarrow> default_value table c = SNull"
    using D unfolding list_all_iff by (elim conjE) (drule (1) bspec, simp)
  have "fst ` set row \<subseteq> col_name ` set (columns_of table)" "set (natural_key table) \<subseteq> fst ` set row"
    using D by (simp_all only: set_map)
  then show "(c, v) \<in> set row \<Longrightarrow> c \<in> col_name ` set (columns_of table)"
    "k \<in> set (natural_key table) \<Longrightarrow> k \<in> fst ` set row"
    by (metis fst_conv imageI subsetD)+
  show "map_of NEWEST_WINS table = Some ts \<Longrightarrow> ts \<in> fst ` set row"
    using D by (elim conjE) (simp only: option.case set_map)
qed

lemma source_field:
  assumes "source_row_ok table row" "c \<in> fst ` set row"
  shows "field (completed table (non_null row)) c = field row c"
proof -
  note d = source_rowD(1) [OF assms(1)]
  obtain v where v: "(c, v) \<in> set row"
    using assms(2) by force
  obtain k where k: "k \<in> set (columns_of table)" "col_name k = c"
    using source_rowD(3) [OF assms(1) v] by (elim imageE) simp
  have "map_of (non_null row) c = (if v = SNull then None else Some v)"
  proof (cases "v = SNull")
    case True
    with d v show ?thesis
      by (auto simp: non_null_def map_of_eq_None_iff dest: eq_key_imp_eq_value)
  next
    case False
    with v have "(c, v) \<in> set (non_null row)"
      by (simp add: non_null_def)
    moreover have "distinct (map fst (non_null row))"
      using d by (simp add: non_null_def distinct_map_filter)
    ultimately show ?thesis
      using False by simp
  qed
  moreover have "v = SNull \<Longrightarrow> col_default k = SNull"
    using source_rowD(2) [OF assms(1) v] default_value_column [OF k(1)] k(2) by simp
  moreover have "field row c = v"
    using d v by (simp add: field_def)
  ultimately show ?thesis
    using field_completed [OF k(1), of "non_null row"] k(2) by (auto split: if_splits)
qed

lemma source_index_key: "source_row_ok table row \<Longrightarrow> index_key table (completed table (non_null row)) = index_key table row"
  by (rule index_key_cong, rule source_field) (auto dest: source_rowD(4))

lemma source_row_okD: "source_row_ok table row \<Longrightarrow> row_ok table (completed table (non_null row))"
  by (simp add: source_row_ok_def)

lemma stored_row_holder:
  assumes "results_ok db" "source_row_ok table row"
  shows "stored_row db table row =
    (case holder db table (completed table (non_null row)) of None \<Rightarrow> None
       | Some (rid, s) \<Rightarrow> if same_key table row s then Some (rid, s) else None)"
proof -
  let ?r = "completed table (non_null row)"
  have ok: "table_ok table (db table)"
    using assms(1) by (simp add: results_ok_def)
  have key: "index_key table s = index_key table ?r" if "same_key table row s" for s
    using that source_index_key [OF assms(2)] index_key_cong [of table s row] by (simp add: same_key_def list_all_iff)
  show ?thesis
  proof (cases "stored_row db table row")
    case None
    then show ?thesis
      by (auto simp: stored_row_def find_None_iff dest!: holderD split: option.splits)
  next
    case (Some x)
    then obtain rid s where x: "x = (rid, s)" "(rid, s) \<in> set (db table)" "same_key table row s"
      by (cases x) (auto simp: stored_row_def dest!: find_SomeD)
    then have "holder db table ?r = Some (rid, s)"
      using holder_Some [where db = db, OF ok source_row_okD [OF assms(2)]] key by blast
    with Some x show ?thesis
      by simp
  qed
qed
section \<open>A row once merged stays merged\<close>

text \<open>What a destination row must be for a source row to change nothing when it comes again.\<close>

definition absorbed :: "string \<Rightarrow> sql_row \<Rightarrow> sql_row \<Rightarrow> bool" where
  "absorbed table row s \<longleftrightarrow>
     (case map_of NEWEST_WINS table of
        None \<Rightarrow> (same_key table row s \<longrightarrow> conflicts table s row = []) \<and>
          (table = ''episodes'' \<longrightarrow> fill_row table (non_null row) s = s)
      | Some ts \<Rightarrow> conflicts table s row = [] \<or> (\<exists>a b. field row ts = SInt a \<and> field s ts = SInt b \<and> a < b) \<or>
          table \<in> set TIE_KEEPS_STORED \<and> field row ts = field s ts)"

lemma no_conflicts_iff: "conflicts table s row = [] \<longleftrightarrow>
    (\<forall>(c, v) \<in> set row. v = field s c \<or> table = ''episodes'' \<and> default_value table c \<in> {v, field s c})"
  by (auto simp: conflicts_def filter_empty_conv)

lemma fill_row_fixed: "fill_row table vals s = s \<longleftrightarrow> (\<forall>(c, v) \<in> set s. \<forall>w. map_of vals c = Some w \<longrightarrow>
    c \<notin> set (natural_key table) \<longrightarrow> v = default_value table c \<longrightarrow> w = v)"
proof -
  have "fill_row table vals s = s \<longleftrightarrow> (\<forall>x \<in> set s. (case x of (c, v) \<Rightarrow> (c, case map_of vals c of
         Some w \<Rightarrow> if c \<notin> set (natural_key table) \<and> v = default_value table c then w else v | None \<Rightarrow> v)) = x)"
    unfolding fill_row_def by (simp add: map_idI map_eq_conv [of _ _ "\<lambda>x. x", simplified])
  also have "\<dots> \<longleftrightarrow> (\<forall>(c, v) \<in> set s. \<forall>w. map_of vals c = Some w \<longrightarrow>
      c \<notin> set (natural_key table) \<longrightarrow> v = default_value table c \<longrightarrow> w = v)"
    by (rule ball_cong [OF refl]) (simp split: option.split prod.split)
  finally show ?thesis .
qed

lemma fill_row_fixedD: "fill_row table vals s = s \<Longrightarrow> (c, v) \<in> set s \<Longrightarrow> map_of vals c = Some w \<Longrightarrow>
    c \<notin> set (natural_key table) \<Longrightarrow> v = default_value table c \<Longrightarrow> w = v"
  unfolding fill_row_fixed by blast

lemma newest_tables: "map_of NEWEST_WINS table = Some ts \<Longrightarrow> table \<noteq> ''episodes'' \<and> table \<noteq> ''grades''"
  by (auto simp: NEWEST_WINS_def split: if_splits)

lemma same_key_grown: "grown table s t \<Longrightarrow> same_key table row t \<longleftrightarrow> same_key table row s"
  by (simp add: grown_def same_key_def list_all_iff)

lemma absorbed_grown:
  assumes "absorbed table row s" "grown table s t" "stored_ok table s" "stored_ok table t" "source_row_ok table row"
  shows "absorbed table row t"
proof (cases "map_of NEWEST_WINS table")
  case None
  note g = assms(2) [unfolded grown_def None option.case, THEN conjunct2, rule_format]
  note row = source_rowD [OF assms(5)]
  have "conflicts table t row = []" if s: "conflicts table s row = []" "same_key table row s"
    unfolding no_conflicts_iff
  proof (rule ballI, unfold split_paired_all, unfold prod.case)
    fix c v assume v: "(c, v) \<in> set row"
    with s have agree: "v = field s c \<or> table = ''episodes'' \<and> default_value table c \<in> {v, field s c}"
      unfolding no_conflicts_iff by blast
    have "v = default_value table c" if e: "table = ''episodes''" "field s c = default_value table c" "field t c \<noteq> field s c"
    proof (cases "v = SNull")
      case False
      with v row(1) have "map_of (non_null row) c = Some v"
        by (simp add: non_null_def distinct_map_filter)
      moreover have "c \<notin> set (natural_key table)"
        using e(3) assms(2) by (auto simp: grown_def)
      moreover have "(c, field s c) \<in> set s"
        using row(3) [OF v] stored_column [OF assms(3)] stored_value [OF assms(3)] by force
      moreover have "fill_row table (non_null row) s = s"
        using assms(1) e(1) None by (simp add: absorbed_def)
      ultimately show ?thesis
        using e(2) fill_row_fixedD by metis
    qed (use row(2) [OF v] in simp)
    with agree g [of c] v show "v = field t c \<or> table = ''episodes'' \<and> default_value table c \<in> {v, field t c}"
      by (cases "field t c = field s c") simp_all
  qed
  moreover have "fill_row table (non_null row) t = t"
    if fixed: "fill_row table (non_null row) s = s" and "table = ''episodes''"
  proof -
    have "w = v" if v: "(c, v) \<in> set t" "map_of (non_null row) c = Some w" "c \<notin> set (natural_key table)"
      "v = default_value table c" for c v w
    proof -
      have "c \<in> fst ` set s"
        using v(1) stored_column [OF assms(3)] stored_column [OF assms(4)] by force
      then have "(c, field s c) \<in> set s"
        using stored_value [OF assms(3)] by force
      moreover have "field t c = v"
        using stored_value [OF assms(4) v(1)] .
      ultimately show ?thesis
        using fill_row_fixedD [OF fixed _ v(2,3)] v(4) g [of c] by metis
    qed
    then show ?thesis
      unfolding fill_row_fixed by blast
  qed
  ultimately show ?thesis
    using assms(1) same_key_grown [OF assms(2)] by (simp add: absorbed_def None)
next
  case (Some ts)
  consider "t = s" | a b where "field s ts = SInt a" "field t ts = SInt b" "a < b"
    using assms(2) Some by (auto simp: grown_def)
  then show ?thesis
  proof cases
    case 2
    have "\<exists>a b. field row ts = SInt a \<and> field t ts = SInt b \<and> a < b"
    proof -
      have "ts \<in> fst ` set row" "table \<noteq> ''episodes''"
        using source_rowD(5) [OF assms(5) Some] newest_tables [OF Some] by simp_all
      then have "field row ts = field s ts" if "conflicts table s row = []"
        using that source_rowD(1) [OF assms(5)] unfolding no_conflicts_iff by (force simp: field_def)
      then show ?thesis
        using assms(1) 2 by (auto simp: absorbed_def Some)
    qed
    then show ?thesis
      by (simp add: absorbed_def Some)
  qed (use assms(1) in simp)
qed
lemma set_row_same:
  assumes "(rid, s) \<in> set (db table)" "results_ok db"
  shows "set_row db table rid s = db"
proof -
  have "s' = s" if "(rid, s') \<in> set (db table)" for s'
    using that assms by (auto simp: results_ok_def table_ok_def dest: eq_key_imp_eq_value)
  then have "map (\<lambda>(i, t). (i, if i = rid then s else t)) (db table) = db table"
    by (intro map_idI) auto
  then show ?thesis
    by (simp add: set_row_def)
qed

text \<open>A row an absorbing one holds the key of changes nothing.\<close>

lemma absorbed_again:
  assumes "results_ok db" "source_row_ok table row" "absorbed table row s"
    and holder: "holder db table (completed table (non_null row)) = Some (rid, s)"
  shows "\<exists>new n. place_row table db row = Inr (db, new, n) \<and> (map_of NEWEST_WINS table = None \<longrightarrow> new = Some rid)"
proof -
  note in_table = conjunct1 [OF holderD [OF holder]]
  have known: "known_columns table (non_null row)"
    using assms(2) by (simp add: source_row_ok_def)
  have up: "upsert db table row (table = ''episodes'') = Inr (db, rid)"
    if "table = ''episodes'' \<longrightarrow> fill_row table (non_null row) s = s"
    using that known source_row_okD [OF assms(2)] holder set_row_same [where db = db, OF in_table assms(1)] by (auto simp: upsert_def)
  have stored: "stored_row db table row = (if same_key table row s then Some (rid, s) else None)"
    by (simp add: stored_row_holder [OF assms(1,2)] holder)
  show ?thesis
  proof (cases "map_of NEWEST_WINS table")
    case None
    with assms(3) up stored show ?thesis
      by (auto simp: place_row_def absorbed_def Let_def)
  next
    case (Some ts)
    with assms(3) up stored newest_tables [OF Some] show ?thesis
      by (auto simp: place_row_def absorbed_def Let_def later_def)
  qed
qed

lemma fill_row_columns: "map fst (fill_row table vals s) = map fst s"
  by (simp add: fill_row_def split_beta o_def)

lemma fill_row_idem: "fill_row table vals (fill_row table vals s) = fill_row table vals s"
  by (auto simp: fill_row_def split: option.split)

lemma absorbed_completed:
  assumes "source_row_ok table row"
  shows "absorbed table row (completed table (non_null row))"
proof -
  let ?r = "completed table (non_null row)"
  have "v = field ?r c" if v: "(c, v) \<in> set row" for c v
  proof -
    have "field row c = v"
      using v source_rowD(1) [OF assms] by (simp add: field_def)
    moreover have "c \<in> fst ` set row"
      using v by force
    ultimately show ?thesis
      using source_field [OF assms] by simp
  qed
  then have "conflicts table ?r row = []"
    unfolding no_conflicts_iff by blast
  moreover have "fill_row table (non_null row) ?r = ?r"
    unfolding fill_row_fixed by (auto simp: completed_def)
  ultimately show ?thesis
    by (auto simp: absorbed_def split: option.split)
qed

lemma absorbed_kept:
  assumes "table \<noteq> ''episodes''" "same_key table row s \<Longrightarrow> conflicts table s row = []"
    "map_of NEWEST_WINS table \<noteq> None \<Longrightarrow> same_key table row s"
  shows "absorbed table row s"
  using assms by (auto simp: absorbed_def split: option.split)

lemma absorbed_filled:
  assumes "source_row_ok ''episodes'' row" "stored_ok ''episodes'' s" "conflicts ''episodes'' s row = []"
  shows "absorbed ''episodes'' row (fill_row ''episodes'' (non_null row) s)"
proof -
  let ?t = "fill_row ''episodes'' (non_null row) s"
  note row = source_rowD [OF assms(1)]
  have "conflicts ''episodes'' ?t row = []"
    unfolding no_conflicts_iff
  proof (rule ballI, unfold split_paired_all, unfold prod.case)
    fix c v assume v: "(c, v) \<in> set row"
    have "field ?t c = v \<or> field ?t c = field s c"
    proof (cases "map_of (non_null row) c")
      case (Some w)
      then have "w = v"
        using non_null_map_of [OF row(1)] v row(1) eq_key_imp_eq_value by metis
      with Some show ?thesis
        by (simp add: field_fill_row [OF assms(2) row(3) [OF v]])
    qed (simp add: field_fill_row [OF assms(2) row(3) [OF v]])
    then show "v = field ?t c \<or> ''episodes'' = ''episodes'' \<and> default_value ''episodes'' c \<in> {v, field ?t c}"
      using assms(3) v unfolding no_conflicts_iff by auto
  qed
  moreover have "map_of NEWEST_WINS ''episodes'' = None"
    by (simp add: NEWEST_WINS_def)
  ultimately show ?thesis
    by (simp add: absorbed_def fill_row_idem)
qed
text \<open>What a placed row leaves: a well-formed destination that only grew, and a row under its key that absorbs it.\<close>

definition settled :: "string \<Rightarrow> sql_row \<Rightarrow> results \<Rightarrow> results \<Rightarrow> int option \<Rightarrow> bool" where
  "settled table row db db' new \<longleftrightarrow> results_ok db' \<and> grows db db' \<and>
     (\<exists>rid s. (rid, s) \<in> set (db' table) \<and> index_key table s = index_key table row \<and> absorbed table row s \<and>
        (map_of NEWEST_WINS table = None \<longrightarrow> new = Some rid))"

lemma settledI:
  assumes "results_ok db'" "grows db db'" "(rid, s) \<in> set (db' table)" "index_key table s = index_key table row"
    "absorbed table row s" "map_of NEWEST_WINS table = None \<Longrightarrow> new = Some rid"
  shows "settled table row db db' new"
  unfolding settled_def using assms by (intro conjI exI [of _ rid] exI [of _ s] impI)

lemma same_key_index:
  assumes "table \<noteq> ''grades''"
  shows "same_key table row s \<longleftrightarrow> index_key table s = index_key table row"
proof -
  have "index_key table r = map (field r) (natural_key table)" for r
    unfolding index_key_def using of_grade_key [of table] assms by (intro map_cong [OF refl]) metis
  then show ?thesis
    by (simp add: same_key_def list_all_iff)
qed

lemma grown_fill: "grown ''episodes'' s (fill_row ''episodes'' vals s)" if "stored_ok ''episodes'' s"
proof -
  have "field (fill_row ''episodes'' vals s) c = field s c \<or> field s c = default_value ''episodes'' c" for c
  proof (cases "c \<in> col_name ` set (columns_of ''episodes'')")
    case False
    then have "c \<notin> fst ` set s" "c \<notin> fst ` set (fill_row ''episodes'' vals s)"
      using stored_column [OF that] fill_row_columns [of "''episodes''" vals s] by (simp_all flip: set_map)
    then show ?thesis
      by (simp add: field_def map_of_eq_None_iff [THEN iffD2])
  qed (simp add: field_fill_row [OF that] split: option.split)
  moreover have "field (fill_row ''episodes'' vals s) k = field s k" if "k \<in> set (natural_key ''episodes'')" for k
    using that natural_key_columns [of "''episodes''"]
    by (subst field_fill_row [OF \<open>stored_ok ''episodes'' s\<close>]) (auto split: option.split)
  ultimately show ?thesis
    by (simp add: grown_def NEWEST_WINS_def)
qed

lemma copy_settles:
  assumes "results_ok db" "source_row_ok table row" "upsert db table row (table = ''episodes'') = Inr (db', rid)"
    and agree: "\<And>i s. stored_row db table row = Some (i, s) \<Longrightarrow> conflicts table s row = []"
  shows "settled table row db db' (Some rid)"
  using upsertD(3) [OF assms(3)]
proof (elim disjE exE conjE)
  let ?r = "completed table (non_null row)"
  fix s assume h: "holder db table ?r = Some (rid, s)"
    and db': "db' = (if table = ''episodes'' then set_row db table rid (fill_row table (non_null row) s) else db)"
  have s: "(rid, s) \<in> set (db table)" "index_key table s = index_key table row"
    using holderD [OF h] source_index_key [OF assms(2)] by simp_all
  note stored = stored_in [OF assms(1) s(1)]
  have no_conflict: "conflicts table s row = []" if "same_key table row s"
    using agree that h stored_row_holder [OF assms(1,2)] by simp
  show ?thesis
  proof (cases "table = ''episodes''")
    case True
    note F = stored_ok_fill [OF stored upsertD(2) [OF assms(3)]]
    have "conflicts table s row = []"
      using no_conflict s(2) same_key_index [of table row s] True by simp
    then have "absorbed table row (fill_row table (non_null row) s)"
      using absorbed_filled assms(2) stored True by simp
    moreover have "grown table s (fill_row table (non_null row) s)"
      using grown_fill stored True by simp
    ultimately show ?thesis
      using True db' F s set_row_grows [where db = db, OF s(1) assms(1)] set_row_ok [where db = db, OF assms(1) s(1)]
      by (intro settledI [of _ _ rid "fill_row table (non_null row) s"])
        (simp_all add: set_row_mem)
  next
    case False
    have "absorbed table row s"
      using False no_conflict same_key_index [of table row s] s(2) newest_tables [of table]
      by (intro absorbed_kept) auto
    with False db' s assms(1) grows_refl show ?thesis
      by (intro settledI [of _ _ rid s]) simp_all
  qed
next
  let ?r = "completed table (non_null row)"
  assume new: "holder db table ?r = None" "append_row db table ?r = Inr (db', rid)"
  show ?thesis
    using append_row_ok [OF assms(1) new(2) stored_ok_completed [OF source_row_okD [OF assms(2)]] new(1)]
      append_row_grows [OF new(2)] append_rowD(1) [OF new(2)] source_index_key [OF assms(2)] absorbed_completed [OF assms(2)]
    by (intro settledI [of _ _ rid ?r]) simp_all
qed
lemma update_rowD:
  assumes "update_row db table rid s row = Inr db'"
  shows "db' = set_row db table rid (map (\<lambda>(c, v). (c, case map_of row c of Some w \<Rightarrow> w | None \<Rightarrow> v)) s)"
    "row_ok table (map (\<lambda>(c, v). (c, case map_of row c of Some w \<Rightarrow> w | None \<Rightarrow> v)) s)"
  using assms by (simp_all add: update_row_def Let_def split: if_splits)

lemma update_settles:
  assumes "results_ok db" "source_row_ok table row" "update_row db table rid s row = Inr db'"
    and s: "(rid, s) \<in> set (db table)" "index_key table s = index_key table row"
    and ts: "map_of NEWEST_WINS table = Some ts" "later (field row ts) (field s ts) = Inr True"
  shows "settled table row db db' None"
proof -
  let ?t = "map (\<lambda>(c, v). (c, case map_of row c of Some w \<Rightarrow> w | None \<Rightarrow> v)) s"
  note stored = stored_in [OF assms(1) s(1)] and row = source_rowD [OF assms(2)]
  have updated: "field ?t c = v" if "(c, v) \<in> set row" for c v
    using that row(1) row(3) [OF that] stored_column [OF stored] by (simp add: field_map_row)
  have in_row: "field ?t c = field row c" if "c \<in> fst ` set row" for c
    using that updated row(1) by (auto simp: field_def)
  have key: "field ?t k = field row k" "field s k = field row k" if "k \<in> set (natural_key table)" for k
    using that in_row row(4) s(2) same_key_index [of table row s] newest_tables [OF ts(1)]
    by (auto simp: same_key_def list_all_iff)
  have t: "stored_ok table ?t" "index_key table ?t = index_key table row"
    using stored update_rowD(2) [OF assms(3)] index_key_cong [OF key(1)] by (simp_all add: stored_ok_def split_beta o_def)
  have "conflicts table ?t row = []"
    unfolding no_conflicts_iff using updated by auto
  then have "absorbed table row ?t"
    by (simp add: absorbed_def ts(1))
  moreover have "grown table s ?t"
    using ts key in_row [OF row(5) [OF ts(1)]] by (simp add: grown_def later_def split: sql.splits)
  ultimately show ?thesis
    using t s set_row_ok [where db = db, OF assms(1) s(1) t(1)] set_row_grows [where db = db, OF s(1) assms(1)]
      set_row_mem [where db = db, OF s(1)] ts(1)
    unfolding update_rowD(1) [OF assms(3)] by (intro settledI [of _ _ rid ?t]) simp_all
qed

lemma place_settles:
  assumes "results_ok db" "source_row_ok table row" and place: "place_row table db row = Inr (db', new, n)"
  shows "settled table row db db' new"
proof -
  have copied: "settled table row db db' new"
    if up: "bindE (upsert db table row (table = ''episodes'')) (\<lambda>(db', new). Inr (db', Some new, 1)) = Inr (db', new, n)"
      and agree: "\<And>i s. stored_row db table row = Some (i, s) \<Longrightarrow> conflicts table s row = []"
  proof -
    obtain rid where "upsert db table row (table = ''episodes'') = Inr (db', rid)" "new = Some rid"
      using up by (auto simp: bindE_Inr_iff)
    then show ?thesis
      using copy_settles [OF assms(1,2) _ agree] by simp
  qed
  show ?thesis
  proof (cases "stored_row db table row")
    case None
    with place show ?thesis
      by (intro copied) (simp_all add: place_row_def)
  next
    case (Some x)
    then obtain rid s where stored: "stored_row db table row = Some (rid, s)"
      by (cases x) simp
    have s: "(rid, s) \<in> set (db table)" "same_key table row s"
      using stored by (auto simp: stored_row_def dest!: find_SomeD)
    show ?thesis
    proof (cases "conflicts table s row = []")
      case True
      with place stored show ?thesis
        by (intro copied) (simp_all add: place_row_def)
    next
      case False
      obtain ts where ts: "map_of NEWEST_WINS table = Some ts"
        using place stored False by (auto simp: place_row_def Let_def split: option.splits)
      have key: "index_key table s = index_key table row"
        using same_key_index [of table row s] newest_tables [OF ts] s(2) by simp
      have kept: "settled table row db db None" if "absorbed table row s"
        using s(1) key that assms(1) ts grows_refl by (intro settledI [of _ _ rid s]) simp_all
      consider "field row ts = field s ts" "table \<in> set TIE_KEEPS_STORED" "db' = db" "new = None"
        | "later (field row ts) (field s ts) = Inr True" "update_row db table rid s row = Inr db'" "new = None"
        | "field row ts \<noteq> field s ts" "later (field row ts) (field s ts) = Inr False" "db' = db" "new = None"
        using place stored False ts by (auto simp: place_row_def Let_def bindE_Inr_iff split: if_splits)
      then show ?thesis
      proof cases
        case 1
        then show ?thesis using kept ts by (simp add: absorbed_def)
      next
        case 2
        then show ?thesis using update_settles [OF assms(1,2) _ s(1) key ts] by simp
      next
        case 3
        then have "absorbed table row s"
          by (auto simp: absorbed_def ts later_def split: sql.splits)
        with 3 show ?thesis using kept by simp
      qed
    qed
  qed
qed

text \<open>A row placed once is placed again without a change, into the destination or into one that grew from it.\<close>

lemma place_again:
  assumes "settled table row db db' new" "grows db' db''" "results_ok db''" "source_row_ok table row"
  shows "\<exists>new' m. place_row table db'' row = Inr (db'', new', m) \<and> (map_of NEWEST_WINS table = None \<longrightarrow> new' = new)"
proof -
  obtain rid s where s: "results_ok db'" "(rid, s) \<in> set (db' table)" "index_key table s = index_key table row"
    "absorbed table row s" "map_of NEWEST_WINS table = None \<longrightarrow> new = Some rid"
    using assms(1) unfolding settled_def by (elim conjE exE)
  obtain t where t: "(rid, t) \<in> set (db'' table)" "grown table s t"
    using growsD [OF assms(2) s(2)] by blast
  have "index_key table t = index_key table (completed table (non_null row))"
    using grown_index_key [OF t(2)] s(3) source_index_key [OF assms(4)] by simp
  moreover have "table_ok table (db'' table)"
    using assms(3) by (simp add: results_ok_def)
  ultimately have "holder db'' table (completed table (non_null row)) = Some (rid, t)"
    using t(1) holder_Some [where db = db'', OF _ source_row_okD [OF assms(4)]] by blast
  moreover have "absorbed table row t"
    using absorbed_grown [OF s(4) t(2) stored_in [OF s(1,2)] stored_in [OF assms(3) t(1)] assms(4)] .
  ultimately show ?thesis
    using absorbed_again [OF assms(3,4)] s(5) by metis
qed
section \<open>Remapped rows are rows of the schema\<close>

lemma id_columns_unchecked:
  assumes "c \<in> set (columns_of table)" "col_name c \<in> {''episode_id'', ''of_grade_id'', ''grade_id''}"
  shows "col_check c = Unchecked"
proof -
  have "\<forall>(t, cs) \<in> set SCHEMA. \<forall>c \<in> set cs. col_name c \<in> {''episode_id'', ''of_grade_id'', ''grade_id''} \<longrightarrow> col_check c = Unchecked"
    by code_simp
  moreover obtain cs where "(table, cs) \<in> set SCHEMA" "c \<in> set cs"
    using assms(1) by (cases "map_of SCHEMA table") (auto simp: columns_of_def dest: map_of_SomeD)
  ultimately show ?thesis
    using assms(2) by blast
qed

lemma source_row_set_id:
  assumes ok: "source_row_ok table row" and c: "c \<in> fst ` set row" "c \<in> {''episode_id'', ''of_grade_id'', ''grade_id''}"
    and old: "field row c \<noteq> SNull"
  shows "source_row_ok table (dict_set c (SInt n) row)"
proof -
  let ?row = "dict_set c (SInt n) row" and ?r = "completed table (non_null row)"
  let ?r' = "completed table (non_null ?row)"
  note row = source_rowD [OF ok]
  have names: "map fst ?row = map fst row"
    using c(1) by (simp add: AList.update_keys)
  then have dist: "distinct (map fst ?row)"
    using row(1) by simp
  have cols: "fst ` set row \<subseteq> col_name ` set (columns_of table)"
    using row(3) by force
  have at: "map_of (non_null ?row) k = (if k = c then Some (SInt n) else map_of (non_null row) k)" for k
    using map_of_non_null [OF dist] map_of_non_null [OF row(1)] by (simp add: AList.update_conv')
  have new: "field ?r' (col_name k) = (if col_name k = c then SInt n else field ?r (col_name k))"
    if "k \<in> set (columns_of table)" for k
    by (simp add: field_completed [OF that] at)
  have kept: "field ?r' k = field ?r k" if "k \<noteq> c" for k
  proof (cases "k \<in> col_name ` set (columns_of table)")
    case False
    then have "map_of (completed table vals) k = None" for vals
      by (auto simp: map_of_eq_None_iff completed_def)
    then show ?thesis
      by (simp add: field_def)
  qed (use new that in auto)
  have at_c: "field ?r' c = SInt n" "field ?r c \<noteq> SNull"
    using new source_field [OF ok c(1)] old cols c(1) by auto
  have fields: "column_ok k (field ?r' (col_name k))" if k: "k \<in> set (columns_of table)" for k
    using row_okD [OF source_row_okD [OF ok] k] id_columns_unchecked [OF k] c(2)
    by (auto simp: new [OF k] column_ok_def check_ok_def)
  have "grade_row_ok ?r'" if "table = ''grades''"
  proof -
    have "grade_row_ok ?r"
      using source_row_okD [OF ok] that by (simp add: row_ok_def)
    moreover have "field ?r' ''of_grade_id'' = SNull \<longleftrightarrow> field ?r ''of_grade_id'' = SNull"
      using at_c kept [of "''of_grade_id''"] by (cases "c = ''of_grade_id''") auto
    moreover have "field ?r' k = field ?r k" if "k \<in> {''kind'', ''credited_speedup'', ''build_ok'', ''correct''}" for k
      using c(2) that by (intro kept) auto
    ultimately show ?thesis
      by (simp add: grade_row_ok_def)
  qed
  then have r: "row_ok table ?r'"
    using fields by (auto simp: row_ok_def list_all_iff)
  have "(c, SInt n) \<in> set (non_null ?row)"
    using map_of_SomeD [of "non_null ?row" c] by (simp add: at)
  moreover have "fst ` set (non_null ?row) \<subseteq> fst ` set ?row"
    by (auto simp: non_null_def)
  moreover have "fst ` set ?row = fst ` set row"
    using names by (metis set_map)
  ultimately have known: "known_columns table (non_null ?row)"
    using cols unfolding known_columns_def set_map by (metis empty_iff empty_set subset_trans)
  have nulls: "list_all (\<lambda>(k, v). v = SNull \<longrightarrow> default_value table k = SNull) ?row"
    unfolding list_all_iff
  proof (rule ballI, unfold split_paired_all, unfold prod.case, rule impI)
    fix k v assume "(k, v) \<in> set ?row" "v = SNull"
    then have "map_of ?row k = Some SNull"
      using dist by simp
    then have "map_of row k = Some SNull"
      by (simp add: AList.update_conv' split: if_splits)
    then show "default_value table k = SNull"
      using row(2) map_of_SomeD by metis
  qed
  show ?thesis
    using ok r known nulls names dist unfolding source_row_ok_def by (simp only:) 
qed
lemma mapped_id_Inr: "mapped_id ids v = Inr w \<Longrightarrow> v \<noteq> SNull \<and> (\<exists>n. w = SInt n)"
  by (auto simp: mapped_id_def id_value_def bindE_Inr_iff split: sql.splits)

lemma remap_source_ok:
  assumes "remap_ids table ids row = Inr row'" "source_row_ok table row"
  shows "source_row_ok table row'"
proof (cases "table = ''grades''")
  case True
  obtain e g where e: "mapped_id (im_episodes ids) (field row ''episode_id'') = Inr e"
    and g: "(if field row ''of_grade_id'' = SNull then Inr SNull else mapped_id (im_grades ids) (field row ''of_grade_id'')) = Inr g"
    and row': "row' = dict_set ''of_grade_id'' g (dict_set ''episode_id'' e row)"
    using assms(1) True by (auto simp: remap_ids_def bindE_Inr_iff)
  have keys: "''episode_id'' \<in> fst ` set row" "''of_grade_id'' \<in> fst ` set row"
    using source_rowD(4) [OF assms(2)] True of_grade_key [of table] by (simp_all add: natural_key_def NATURAL_KEYS_def GRADE_KEY_def)
  obtain n where n: "e = SInt n" "field row ''episode_id'' \<noteq> SNull"
    using mapped_id_Inr [OF e] by blast
  let ?row = "dict_set ''episode_id'' e row"
  have ok: "source_row_ok table ?row"
    using source_row_set_id [OF assms(2) keys(1)] n by simp
  have key: "''of_grade_id'' \<in> fst ` set ?row"
    using source_rowD(4) [OF ok] True of_grade_key [of table] by simp
  have same: "field ?row ''of_grade_id'' = field row ''of_grade_id''"
    by (simp add: field_set)
  show ?thesis
  proof (cases "field row ''of_grade_id'' = SNull")
    case True
    then have "map_of ?row ''of_grade_id'' = Some SNull"
      using key same by (cases "map_of ?row ''of_grade_id''") (auto simp: field_def map_of_eq_None_iff)
    with True g row' ok show ?thesis
      by (simp add: AList.update_triv)
  next
    case False
    then obtain m where "g = SInt m"
      using g mapped_id_Inr [of "im_grades ids" "field row ''of_grade_id''" g] by auto
    with False row' same show ?thesis
      using source_row_set_id [OF ok key] by simp
  qed
next
  case False
  show ?thesis
  proof (cases "''grade_id'' \<in> fst ` set row")
    case True
    then obtain g where g: "mapped_id (im_grades ids) (field row ''grade_id'') = Inr g" "row' = dict_set ''grade_id'' g row"
      using assms(1) False by (auto simp: remap_ids_def bindE_Inr_iff)
    then show ?thesis
      using mapped_id_Inr [OF g(1)] source_row_set_id [OF assms(2) True] by auto
  qed (use assms False in \<open>simp add: remap_ids_def\<close>)
qed

section \<open>Merging again changes nothing\<close>

lemma id_tables: "table \<in> {''episodes'', ''grades''} \<Longrightarrow> map_of NEWEST_WINS table = None"
  by (auto simp: NEWEST_WINS_def)

lemma note_id_same: "(map_of NEWEST_WINS table = None \<longrightarrow> new' = new) \<Longrightarrow> note_id table old new' ids = note_id table old new ids"
  using id_tables [of table] by (cases new; cases new') (auto simp: note_id_def)

lemma merge_row_again:
  assumes "merge_row table (ids, db, n) (old, row0) = Inr (ids', db', n')" "results_ok db" "source_row_ok table row0"
  shows "results_ok db'" "grows db db'"
    "\<exists>row new. remap_ids table ids row0 = Inr row \<and> source_row_ok table row \<and> settled table row db db' new"
    "results_ok db'' \<Longrightarrow> grows db' db'' \<Longrightarrow> \<exists>m'. merge_row table (ids, db'', m) (old, row0) = Inr (ids', db'', m')"
proof -
  obtain row new k where row: "remap_ids table ids row0 = Inr row" and place: "place_row table db row = Inr (db', new, k)"
    and ids': "ids' = note_id table old new ids"
    using assms(1) by (auto simp: merge_row_def bindE_Inr_iff)
  note ok = remap_source_ok [OF row assms(3)]
  note settled = place_settles [OF assms(2) ok place]
  show "results_ok db'" "grows db db'"
    using settled by (simp_all add: settled_def)
  show "\<exists>row new. remap_ids table ids row0 = Inr row \<and> source_row_ok table row \<and> settled table row db db' new"
    using row ok settled by blast
  assume "results_ok db''" "grows db' db''"
  then obtain new' j where "place_row table db'' row = Inr (db'', new', j)" "map_of NEWEST_WINS table = None \<longrightarrow> new' = new"
    using place_again [OF settled _ _ ok] by blast
  then show "\<exists>m'. merge_row table (ids, db'', m) (old, row0) = Inr (ids', db'', m')"
    using row ids' note_id_same by (simp add: merge_row_def)
qed

text \<open>
  The loops of a merge (over the rows of a table, over the tables of a file) thread a context \<open>i\<close> that depends on the
  source alone, the destination \<open>d\<close> and a count. A step whose outcome absorbs its item makes a loop that absorbs
  all of them: run again, from the destination it left or one grown from that, it goes through the same contexts and
  changes nothing.
\<close>

locale absorbing_loop =
  fixes ok :: "'d \<Rightarrow> bool" and le :: "'d \<Rightarrow> 'd \<Rightarrow> bool" and valid :: "'x \<Rightarrow> bool"
    and step :: "'i \<times> 'd \<times> 'c \<Rightarrow> 'x \<Rightarrow> ('i \<times> 'd \<times> 'c) res"
  assumes le_refl: "le d d" and le_trans: "le d d' \<Longrightarrow> le d' d'' \<Longrightarrow> le d d''"
    and step_grows: "step (i, d, c) x = Inr (i', d', c') \<Longrightarrow> ok d \<Longrightarrow> valid x \<Longrightarrow> ok d' \<and> le d d'"
    and step_again: "step (i, d, c) x = Inr (i', d', c') \<Longrightarrow> ok d \<Longrightarrow> valid x \<Longrightarrow> ok d'' \<Longrightarrow> le d' d'' \<Longrightarrow>
      \<exists>e'. step (i, d'', e) x = Inr (i', d'', e')"
begin

lemma loop_again:
  assumes "foldE step (i, d, c) xs = Inr (i', d', c')" "ok d" "\<And>x. x \<in> set xs \<Longrightarrow> valid x"
  shows "ok d' \<and> le d d' \<and> (\<forall>d'' e. ok d'' \<longrightarrow> le d' d'' \<longrightarrow> (\<exists>e'. foldE step (i, d'', e) xs = Inr (i', d'', e')))"
  using assms
proof (induction xs arbitrary: i d c)
  case (Cons x xs)
  obtain i1 d1 c1 where first: "step (i, d, c) x = Inr (i1, d1, c1)" and rest: "foldE step (i1, d1, c1) xs = Inr (i', d', c')"
    using Cons.prems(1) by (auto simp: bindE_Inr_iff)
  have x: "valid x" and xs: "\<And>y. y \<in> set xs \<Longrightarrow> valid y"
    using Cons.prems(3) by (meson list.set_intros)+
  note S = step_grows [OF first Cons.prems(2) x]
  have IH: "ok d' \<and> le d1 d' \<and> (\<forall>d'' e. ok d'' \<longrightarrow> le d' d'' \<longrightarrow> (\<exists>e'. foldE step (i1, d'', e) xs = Inr (i', d'', e')))"
    using Cons.IH [OF rest conjunct1 [OF S] xs] .
  have "\<exists>e'. foldE step (i, d'', e) (x # xs) = Inr (i', d'', e')" if later: "ok d''" "le d' d''" for d'' e
  proof -
    obtain e1 where "step (i, d'', e) x = Inr (i1, d'', e1)"
      using step_again [OF first Cons.prems(2) x later(1)] le_trans IH later(2) by blast
    then show ?thesis
      using IH later by simp
  qed
  then show ?case
    using IH S le_trans by blast
qed (use le_refl in auto)

end

interpretation row_loop: absorbing_loop results_ok grows "\<lambda>x. source_row_ok table (snd x)" "merge_row table" for table
proof
  show "grows d d" for d
    by (rule grows_refl)
  show "grows d d' \<Longrightarrow> grows d' d'' \<Longrightarrow> grows d d''" for d d' d''
    by (rule grows_trans)
  show "merge_row table (i, d, c) x = Inr (i', d', c') \<Longrightarrow> results_ok d \<Longrightarrow> source_row_ok table (snd x) \<Longrightarrow>
      results_ok d' \<and> grows d d'" for i d c x i' d' c'
    using merge_row_again(1,2) [of table i d c "fst x" "snd x"] by simp
  show "merge_row table (i, d, c) x = Inr (i', d', c') \<Longrightarrow> results_ok d \<Longrightarrow> source_row_ok table (snd x) \<Longrightarrow>
      results_ok d'' \<Longrightarrow> grows d' d'' \<Longrightarrow> \<exists>e'. merge_row table (i, d'', e) x = Inr (i', d'', e')" for i d c x i' d' c' d'' e
    using merge_row_again(4) [of table i d c "fst x" "snd x"] by simp
qed

text \<open>The rows of one table, of one file.\<close>

lemma set_source_rows: "set (source_rows table rows) = set rows"
  by (auto simp: source_rows_def Let_def)

definition distinct_ids :: "db_file \<Rightarrow> bool" where
  "distinct_ids f \<longleftrightarrow> list_all (\<lambda>table. distinct (map fst (content f table))) TABLES"

lemma source_okD: "source_ok f \<Longrightarrow> table \<in> set TABLES \<Longrightarrow> x \<in> set (source_rows table (content f table)) \<Longrightarrow> source_row_ok table (snd x)"
  unfolding source_ok_def list_all_iff set_source_rows by (cases x) fastforce

lemma merge_table_again:
  assumes "merge_table f (ids, db, c) table = Inr (ids', db', c')" "results_ok db" "source_ok f" "table \<in> set TABLES"
  shows "results_ok db'" "grows db db'"
    "results_ok db'' \<Longrightarrow> grows db' db'' \<Longrightarrow> \<exists>e'. merge_table f (ids, db'', e) table = Inr (ids', db'', e')"
proof -
  have *: "results_ok db' \<and> grows db db' \<and> (results_ok db'' \<longrightarrow> grows db' db'' \<longrightarrow>
      (\<exists>e'. merge_table f (ids, db'', e) table = Inr (ids', db'', e')))" for db''
  proof (cases "table \<in> set (file_tables f)")
    case False
    with assms(1,2) show ?thesis
      using grows_refl by (auto simp: merge_table_def split: if_splits)
  next
    case True
    then obtain n where "foldE (merge_row table) (ids, db, 0) (source_rows table (content f table)) = Inr (ids', db', n)"
      using assms(1) by (auto simp: merge_table_def merge_rows_def bindE_Inr_iff)
    from row_loop.loop_again [OF this assms(2) source_okD [OF assms(3,4)]] True show ?thesis
      by (fastforce simp: merge_table_def merge_rows_def bindE_Inr_iff)
  qed
  show "results_ok db'" "grows db db'"
    using * by blast+
  show "results_ok db'' \<Longrightarrow> grows db' db'' \<Longrightarrow> \<exists>e'. merge_table f (ids, db'', e) table = Inr (ids', db'', e')"
    using * by blast
qed

interpretation table_loop: absorbing_loop results_ok grows "\<lambda>table. source_ok f \<and> table \<in> set TABLES" "merge_table f" for f
proof
  show "grows d d" for d
    by (rule grows_refl)
  show "grows d d' \<Longrightarrow> grows d' d'' \<Longrightarrow> grows d d''" for d d' d''
    by (rule grows_trans)
  show "merge_table f (i, d, c) table = Inr (i', d', c') \<Longrightarrow> results_ok d \<Longrightarrow> source_ok f \<and> table \<in> set TABLES \<Longrightarrow>
      results_ok d' \<and> grows d d'" for i d c table i' d' c'
    using merge_table_again(1,2) [of f i d c table] by simp
  show "merge_table f (i, d, c) table = Inr (i', d', c') \<Longrightarrow> results_ok d \<Longrightarrow> source_ok f \<and> table \<in> set TABLES \<Longrightarrow>
      results_ok d'' \<Longrightarrow> grows d' d'' \<Longrightarrow> \<exists>e'. merge_table f (i, d'', e) table = Inr (i', d'', e')" for i d c table i' d' c' d'' e
    using merge_table_again(3) [of f i d c table] by simp
qed

lemma merge_one_again:
  assumes "merge_one db f = Inr (db', c)" "results_ok db" "source_ok f"
  shows "results_ok db' \<and> grows db db' \<and>
    (\<forall>db''. results_ok db'' \<longrightarrow> grows db' db'' \<longrightarrow> (\<exists>c'. merge_one db'' f = Inr (db'', c')))"
proof (cases "user_version f = SCHEMA_VERSION \<or> user_version f \<in> set UPGRADED_VERSIONS")
  case True
  then obtain ids' where "foldE (merge_table f) (no_ids, db, []) TABLES = Inr (ids', db', c)"
    and clean: "\<not> list_ex (\<lambda>t. t \<notin> set TABLES \<and> take 7 t \<noteq> ''sqlite_'') (file_tables f)"
    using assms(1) by (auto simp: merge_one_def bindE_Inr_iff split: if_splits)
  from table_loop.loop_again [OF this(1) assms(2)] assms(3) clean True show ?thesis
    by (fastforce simp: merge_one_def bindE_Inr_iff)
next
  case False
  with assms(1,2) show ?thesis
    using grows_refl by (auto simp: merge_one_def split: if_splits)
qed

lemma merge_from_again:
  assumes "merge_from db totals target files = (db', Inr totals')" "results_ok db"
    "\<And>path f. (path, f) \<in> set files \<Longrightarrow> source_ok f"
  shows "results_ok db' \<and> grows db db' \<and> (\<forall>(path, f) \<in> set files. path \<noteq> target \<longrightarrow>
    (\<forall>db''. results_ok db'' \<longrightarrow> grows db' db'' \<longrightarrow> (\<exists>c. merge_one db'' f = Inr (db'', c))))"
  using assms
proof (induction db totals target files rule: merge_from.induct)
  case (2 db totals target path f files)
  show ?case
  proof (cases "path = target")
    case True
    have "merge_from db totals target files = (db', Inr totals')"
      using "2.prems"(1) True by simp
    moreover have "\<And>p g. (p, g) \<in> set files \<Longrightarrow> source_ok g"
      using "2.prems"(3) by (meson list.set_intros(2))
    ultimately show ?thesis
      using "2.IH"(1) [OF True _ "2.prems"(2)] True by (simp only: list.set ball_simps prod.case) blast
  next
    case False
    then obtain db1 c where one: "merge_one db f = Inr (db1, c)"
      and rest: "merge_from db1 (add_counts totals c) target files = (db', Inr totals')"
      using "2.prems"(1) by (auto split: sum.splits)
    have f: "source_ok f" and ok: "\<And>p g. (p, g) \<in> set files \<Longrightarrow> source_ok g"
      using "2.prems"(3) by (meson list.set_intros)+
    note S = merge_one_again [OF one "2.prems"(2) f]
    have IH: "results_ok db' \<and> grows db1 db' \<and> (\<forall>(path, f) \<in> set files. path \<noteq> target \<longrightarrow>
      (\<forall>db''. results_ok db'' \<longrightarrow> grows db' db'' \<longrightarrow> (\<exists>c. merge_one db'' f = Inr (db'', c))))"
      using "2.IH"(2) [OF False one refl rest] S ok by blast
    have "\<exists>c. merge_one db'' f = Inr (db'', c)" if "results_ok db''" "grows db' db''" for db''
      using S that IH grows_trans by blast
    moreover have "results_ok db'" "grows db db'"
      using IH S grows_trans by blast+
    ultimately show ?thesis
      using IH by (simp only: list.set ball_simps prod.case) blast
  qed
qed (use grows_refl in auto)

text \<open>Once every file has been merged, merging any of them again, in any order, changes nothing.\<close>

lemma merge_from_fixed:
  assumes "\<And>path f. (path, f) \<in> set files \<Longrightarrow> path \<noteq> target \<Longrightarrow> \<exists>c. merge_one db f = Inr (db, c)"
  shows "\<exists>totals'. merge_from db totals target files = (db, Inr totals')"
  using assms
proof (induction files arbitrary: totals)
  case (Cons x files)
  obtain path f where x: "x = (path, f)" by (cases x)
  then show ?case
    using Cons.prems [of path f] Cons.IH Cons.prems by (cases "path = target") fastforce+
qed simp
section \<open>Every row arrives\<close>

definition table_ids :: "string \<Rightarrow> id_map \<Rightarrow> (int, int) dict" where
  "table_ids table ids =
     (if table = ''episodes'' then im_episodes ids else if table = ''grades'' then im_grades ids else [])"

definition ids_le :: "id_map \<Rightarrow> id_map \<Rightarrow> bool" where
  "ids_le ids ids' \<longleftrightarrow> map_of (im_episodes ids) \<subseteq>\<^sub>m map_of (im_episodes ids') \<and> map_of (im_grades ids) \<subseteq>\<^sub>m map_of (im_grades ids')"

text \<open>
  A source row is in the destination: with its ids replaced it agrees with the row stored under its key (or is an
  older measurement than that), and the rowid of that row is what the ids of the file map its own to.
\<close>

definition carried :: "id_map \<Rightarrow> results \<Rightarrow> string \<Rightarrow> int \<times> sql_row \<Rightarrow> bool" where
  "carried ids db table x \<longleftrightarrow>
     (\<exists>row rid s. remap_ids table ids (snd x) = Inr row \<and> source_row_ok table row \<and>
        (rid, s) \<in> set (db table) \<and> index_key table s = index_key table row \<and> absorbed table row s \<and>
        (table \<in> {''episodes'', ''grades''} \<longrightarrow> map_of (table_ids table ids) (fst x) = Some rid))"

lemma ids_le_refl: "ids_le ids ids"
  by (simp add: ids_le_def)

lemma ids_le_trans: "ids_le a b \<Longrightarrow> ids_le b c \<Longrightarrow> ids_le a c"
  unfolding ids_le_def using map_le_trans by blast

lemma mapped_id_le: "map_of ids \<subseteq>\<^sub>m map_of ids' \<Longrightarrow> mapped_id ids v = Inr w \<Longrightarrow> mapped_id ids' v = Inr w"
  by (force simp: mapped_id_def dict_item_def bindE_Inr_iff map_le_def dom_def split: option.splits)

lemma remap_ids_le: "remap_ids table ids row = Inr r \<Longrightarrow> ids_le ids ids' \<Longrightarrow> remap_ids table ids' row = Inr r"
  by (auto simp: remap_ids_def ids_le_def bindE_Inr_iff mapped_id_le split: if_splits)

lemma table_ids_le: "ids_le ids ids' \<Longrightarrow> map_of (table_ids table ids) k = Some v \<Longrightarrow> map_of (table_ids table ids') k = Some v"
  by (auto simp: table_ids_def ids_le_def map_le_def dom_def split: if_splits)

lemma carried_mono:
  assumes "carried ids db table x" "ids_le ids ids'" "grows db db'" "results_ok db" "results_ok db'"
  shows "carried ids' db' table x"
proof -
  obtain row rid s where row: "remap_ids table ids (snd x) = Inr row" "source_row_ok table row"
    and s: "(rid, s) \<in> set (db table)" "index_key table s = index_key table row" "absorbed table row s"
    and id: "table \<in> {''episodes'', ''grades''} \<longrightarrow> map_of (table_ids table ids) (fst x) = Some rid"
    using assms(1) unfolding carried_def by (elim exE conjE)
  obtain t where t: "(rid, t) \<in> set (db' table)" "grown table s t"
    using growsD [OF assms(3) s(1)] by blast
  have "index_key table t = index_key table row"
    using grown_index_key [OF t(2)] s(2) by simp
  moreover have "absorbed table row t"
    using absorbed_grown [OF s(3) t(2) stored_in [OF assms(4) s(1)] stored_in [OF assms(5) t(1)] row(2)] .
  moreover have "table \<in> {''episodes'', ''grades''} \<longrightarrow> map_of (table_ids table ids') (fst x) = Some rid"
    using id table_ids_le [OF assms(2)] by blast
  ultimately show ?thesis
    using remap_ids_le [OF row(1) assms(2)] row(2) t(1) unfolding carried_def by blast
qed

lemma note_id_le: "old \<notin> fst ` set (table_ids table ids) \<Longrightarrow> ids_le ids (note_id table old new ids)"
  by (auto simp: ids_le_def note_id_def table_ids_def AList.update_conv' map_le_def dom_def dest: map_of_SomeD
      split: option.split)
    (force dest: map_of_SomeD)+

lemma note_id_other: "t \<noteq> table \<Longrightarrow> table_ids t (note_id table old new ids) = table_ids t ids"
  by (auto simp: table_ids_def note_id_def split: option.split)

lemma note_id_dom: "fst ` set (table_ids table (note_id table old new ids)) \<subseteq> insert old (fst ` set (table_ids table ids))"
  by (auto simp: table_ids_def note_id_def AList.dom_update split: option.split)

lemma note_id_maps: "table \<in> {''episodes'', ''grades''} \<Longrightarrow> map_of (table_ids table (note_id table old (Some n) ids)) old = Some n"
  by (auto simp: table_ids_def note_id_def AList.update_conv')

lemma merge_row_carries:
  assumes "merge_row table (ids, db, n) x = Inr (ids', db', n')" "results_ok db" "source_row_ok table (snd x)"
    "fst x \<notin> fst ` set (table_ids table ids)"
  shows "ids_le ids ids'" "carried ids' db' table x" "\<And>t. t \<noteq> table \<Longrightarrow> table_ids t ids' = table_ids t ids"
    "fst ` set (table_ids table ids') \<subseteq> insert (fst x) (fst ` set (table_ids table ids))"
proof -
  obtain row new k where row: "remap_ids table ids (snd x) = Inr row" and place: "place_row table db row = Inr (db', new, k)"
    and ids': "ids' = note_id table (fst x) new ids"
    using assms(1) by (cases x) (auto simp: merge_row_def bindE_Inr_iff)
  note ok = remap_source_ok [OF row assms(3)]
  have "\<exists>rid s. (rid, s) \<in> set (db' table) \<and> index_key table s = index_key table row \<and> absorbed table row s \<and>
        (map_of NEWEST_WINS table = None \<longrightarrow> new = Some rid)"
    using place_settles [OF assms(2) ok place] unfolding settled_def by blast
  then obtain rid s where s: "(rid, s) \<in> set (db' table)" "index_key table s = index_key table row" "absorbed table row s"
    "map_of NEWEST_WINS table = None \<longrightarrow> new = Some rid"
    by (elim exE conjE)
  show le: "ids_le ids ids'"
    unfolding ids' by (rule note_id_le [OF assms(4)])
  have "table \<in> {''episodes'', ''grades''} \<longrightarrow> map_of (table_ids table ids') (fst x) = Some rid"
    using s(4) id_tables note_id_maps unfolding ids' by metis
  then show "carried ids' db' table x"
    using remap_ids_le [OF row le] ok s unfolding carried_def by blast
  show "\<And>t. t \<noteq> table \<Longrightarrow> table_ids t ids' = table_ids t ids"
    unfolding ids' by (rule note_id_other)
  show "fst ` set (table_ids table ids') \<subseteq> insert (fst x) (fst ` set (table_ids table ids))"
    unfolding ids' by (rule note_id_dom)
qed
lemma disjoint_insert_mono: "x \<notin> A \<Longrightarrow> A \<inter> B = {} \<Longrightarrow> C \<subseteq> insert x B \<Longrightarrow> A \<inter> C = {}"
  by blast

lemma merge_fold_carries:
  assumes "foldE (merge_row table) (ids, db, n) rows = Inr (ids', db', n')" "results_ok db"
    "\<And>x. x \<in> set rows \<Longrightarrow> source_row_ok table (snd x)" "distinct (map fst rows)"
    "fst ` set rows \<inter> fst ` set (table_ids table ids) = {}"
  shows "ids_le ids ids' \<and> (\<forall>x \<in> set rows. carried ids' db' table x) \<and>
    (\<forall>t. t \<noteq> table \<longrightarrow> table_ids t ids' = table_ids t ids)"
  using assms
proof (induction rows arbitrary: ids db n)
  case (Cons x rows)
  obtain ids1 db1 n1 where step: "merge_row table (ids, db, n) x = Inr (ids1, db1, n1)"
    and rest: "foldE (merge_row table) (ids1, db1, n1) rows = Inr (ids', db', n')"
    using Cons.prems(1) by (auto simp: bindE_Inr_iff)
  have row: "source_row_ok table (snd x)" and rows: "\<And>y. y \<in> set rows \<Longrightarrow> source_row_ok table (snd y)"
    using Cons.prems(3) by (meson list.set_intros)+
  have fresh: "fst x \<notin> fst ` set (table_ids table ids)"
    using Cons.prems(5) by auto
  note S = merge_row_carries [OF step Cons.prems(2) row fresh]
  have db1: "results_ok db1"
    using merge_row_again(1) [of table ids db n "fst x" "snd x"] step Cons.prems(2) row by simp
  have apart: "fst ` set rows \<inter> fst ` set (table_ids table ids1) = {}"
  proof -
    have "fst x \<notin> fst ` set rows" "fst ` set rows \<inter> fst ` set (table_ids table ids) = {}"
      using Cons.prems(4,5) by auto
    then show ?thesis
      using S(4) by (rule disjoint_insert_mono)
  qed
  have IH: "ids_le ids1 ids' \<and> (\<forall>x \<in> set rows. carried ids' db' table x) \<and>
      (\<forall>t. t \<noteq> table \<longrightarrow> table_ids t ids' = table_ids t ids1)"
    using Cons.IH [OF rest db1 rows _ apart] Cons.prems(4) by simp
  have later: "results_ok db'" "grows db1 db'"
    using row_loop.loop_again [OF rest db1 rows] by blast+
  have "carried ids' db' table x"
    using carried_mono [OF S(2) _ later(2) db1 later(1)] IH by blast
  then show ?case
    using IH S(1,3) ids_le_trans by auto
qed (simp add: ids_le_refl)

lemma set_sort_ids: "distinct (map fst rows) \<Longrightarrow> distinct (map fst (source_rows table rows))"
  by (auto simp: source_rows_def Let_def distinct_map inj_on_def)

lemma merge_tables_carry:
  assumes "foldE (merge_table f) (ids, db, c) tables = Inr (ids', db', c')" "results_ok db" "source_ok f" "distinct_ids f"
    "set tables \<subseteq> set TABLES" "distinct tables" "\<And>t. t \<in> set tables \<Longrightarrow> table_ids t ids = []"
  shows "ids_le ids ids' \<and> (\<forall>table \<in> set tables. table \<in> set (file_tables f) \<longrightarrow>
    (\<forall>x \<in> set (content f table). carried ids' db' table x))"
  using assms
proof (induction tables arbitrary: ids db c)
  case (Cons table tables)
  obtain ids1 db1 c1 where step: "merge_table f (ids, db, c) table = Inr (ids1, db1, c1)"
    and rest: "foldE (merge_table f) (ids1, db1, c1) tables = Inr (ids', db', c')"
    using Cons.prems(1) by (auto simp: bindE_Inr_iff)
  have table: "table \<in> set TABLES"
    using Cons.prems(5) by simp
  note S = merge_table_again [OF step Cons.prems(2,3) table]
  have first: "ids_le ids ids1 \<and> (table \<in> set (file_tables f) \<longrightarrow> (\<forall>x \<in> set (content f table). carried ids1 db1 table x)) \<and>
      (\<forall>t. t \<noteq> table \<longrightarrow> table_ids t ids1 = table_ids t ids)"
  proof (cases "table \<in> set (file_tables f)")
    case False
    with step show ?thesis
      using ids_le_refl by (auto simp: merge_table_def split: if_splits)
  next
    case True
    then obtain n where run: "foldE (merge_row table) (ids, db, 0) (source_rows table (content f table)) = Inr (ids1, db1, n)"
      using step by (auto simp: merge_table_def merge_rows_def bindE_Inr_iff)
    have "distinct (map fst (source_rows table (content f table)))"
      using Cons.prems(4) table by (intro set_sort_ids) (simp add: distinct_ids_def list_all_iff)
    moreover have "table_ids table ids = []"
      using Cons.prems(7) by simp
    ultimately show ?thesis
      using merge_fold_carries [OF run Cons.prems(2) source_okD [OF Cons.prems(3) table]]
      by (simp add: set_source_rows)
  qed
  have IH: "ids_le ids1 ids' \<and> (\<forall>table \<in> set tables. table \<in> set (file_tables f) \<longrightarrow>
      (\<forall>x \<in> set (content f table). carried ids' db' table x))"
  proof (rule Cons.IH [OF rest S(1) Cons.prems(3,4)])
    fix t assume "t \<in> set tables"
    with first Cons.prems(6,7) show "table_ids t ids1 = []"
      by (metis distinct.simps(2) list.set_intros(2))
  qed (use Cons.prems(5,6) in auto)
  have "results_ok db' \<and> grows db1 db'"
    using table_loop.loop_again [OF rest S(1)] Cons.prems(3,5) by (auto simp: subset_iff)
  with first IH S(1) have "table \<in> set (file_tables f) \<longrightarrow> (\<forall>x \<in> set (content f table). carried ids' db' table x)"
    using carried_mono by blast
  moreover have "ids_le ids ids'"
    using first IH ids_le_trans by blast
  ultimately show ?case
    using IH by (simp only: list.set ball_simps) blast
qed (simp add: ids_le_refl)

lemma merge_one_carries:
  assumes "merge_one db f = Inr (db', c)" "results_ok db" "source_ok f" "distinct_ids f"
    "user_version f = SCHEMA_VERSION \<or> user_version f \<in> set UPGRADED_VERSIONS"
  shows "\<exists>ids. \<forall>table \<in> set TABLES. table \<in> set (file_tables f) \<longrightarrow> (\<forall>x \<in> set (content f table). carried ids db' table x)"
proof -
  obtain ids' where run: "foldE (merge_table f) (no_ids, db, []) TABLES = Inr (ids', db', c)"
    using assms(1,5) by (auto simp: merge_one_def bindE_Inr_iff split: if_splits)
  have "distinct TABLES"
    by code_simp
  moreover have "table_ids t no_ids = []" for t
    by (simp add: table_ids_def no_ids_def)
  ultimately show ?thesis
    using merge_tables_carry [OF run assms(2,3,4) subset_refl] by blast
qed

lemma merge_from_carries:
  assumes "merge_from db totals target files = (db', Inr totals')" "results_ok db"
    "\<And>path f. (path, f) \<in> set files \<Longrightarrow> source_ok f \<and> distinct_ids f"
    "(path, f) \<in> set files" "path \<noteq> target" "user_version f = SCHEMA_VERSION \<or> user_version f \<in> set UPGRADED_VERSIONS"
  shows "\<exists>ids. \<forall>table \<in> set TABLES. table \<in> set (file_tables f) \<longrightarrow> (\<forall>x \<in> set (content f table). carried ids db' table x)"
  using assms
proof (induction db totals target files rule: merge_from.induct)
  case (2 db totals target p g files)
  have ok: "\<And>q h. (q, h) \<in> set files \<Longrightarrow> source_ok h \<and> distinct_ids h" and g: "source_ok g" "distinct_ids g"
    using "2.prems"(3) by (meson list.set_intros)+
  show ?case
  proof (cases "p = target")
    case True
    have run: "merge_from db totals target files = (db', Inr totals')" and member: "(path, f) \<in> set files"
      using "2.prems"(1,4,5) True by simp_all
    show ?thesis
      by (rule "2.IH"(1) [OF True run "2.prems"(2) ok member "2.prems"(5,6)])
  next
    case False
    then obtain db1 c where one: "merge_one db g = Inr (db1, c)"
      and rest: "merge_from db1 (add_counts totals c) target files = (db', Inr totals')"
      using "2.prems"(1) by (auto split: sum.splits)
    have db1: "results_ok db1"
      using merge_one_again [OF one "2.prems"(2) g(1)] by blast
    show ?thesis
    proof (cases "(path, f) = (p, g)")
      case True
      then obtain ids where "\<forall>table \<in> set TABLES. table \<in> set (file_tables f) \<longrightarrow> (\<forall>x \<in> set (content f table). carried ids db1 table x)"
        using merge_one_carries [OF one "2.prems"(2) g] "2.prems"(6) by blast
      moreover have "results_ok db'" "grows db1 db'"
        using merge_from_again [OF rest db1] ok by blast+
      ultimately show ?thesis
        using carried_mono [OF _ ids_le_refl _ db1] by blast
    next
      case False
      then have member: "(path, f) \<in> set files"
        using "2.prems"(4) by auto
      show ?thesis
        by (rule "2.IH"(2) [OF \<open>p \<noteq> target\<close> one refl rest db1 ok member "2.prems"(5,6)])
    qed
  qed
qed simp

section \<open>The guarantees of a merge\<close>

text \<open>C7. A merge picks nothing and loses nothing: when it succeeds, every row the destination held is still there
  under its rowid and key, changed only where an episode's default was filled or a measurement was replaced by a later
  one, and every row of every file is in the destination: with its ids replaced as the file's own ids were, it agrees
  with the row stored under its key, or is an older copy of a measurement than that.\<close>

theorem merge_keeps_every_row:
  assumes "merge_files db target files = (db', Inr totals)" "results_ok db"
    "\<forall>(path, f) \<in> set files. source_ok f \<and> distinct_ids f"
  shows "results_ok db' \<and> grows db db' \<and>
    (\<forall>(path, f) \<in> set files. path \<noteq> target \<longrightarrow> user_version f = SCHEMA_VERSION \<or> user_version f \<in> set UPGRADED_VERSIONS \<longrightarrow>
       (\<exists>ids. \<forall>table \<in> set TABLES. table \<in> set (file_tables f) \<longrightarrow> (\<forall>x \<in> set (content f table). carried ids db' table x)))"
proof -
  note run = assms(1) [unfolded merge_files_def]
  have sources: "\<And>path f. (path, f) \<in> set files \<Longrightarrow> source_ok f \<and> distinct_ids f"
    using assms(3) by blast
  then have "results_ok db' \<and> grows db db'"
    using merge_from_again [OF run assms(2)] by blast
  moreover have "\<exists>ids. \<forall>table \<in> set TABLES. table \<in> set (file_tables f) \<longrightarrow> (\<forall>x \<in> set (content f table). carried ids db' table x)"
    if f: "(path, f) \<in> set files" "path \<noteq> target" "user_version f = SCHEMA_VERSION \<or> user_version f \<in> set UPGRADED_VERSIONS" for path f
    by (rule merge_from_carries [OF run assms(2) sources f])
  ultimately show ?thesis
    by blast
qed

text \<open>C8. A merge is idempotent: once files have been merged, merging any of them again, in any order and any
  number of times, succeeds and changes nothing in the destination.\<close>

theorem merge_idempotent:
  assumes "merge_files db target files = (db', Inr totals)" "results_ok db"
    "\<forall>(path, f) \<in> set files. source_ok f" "set again \<subseteq> set files"
  shows "\<exists>totals'. merge_files db' target again = (db', Inr totals')"
proof -
  have *: "results_ok db' \<and> (\<forall>(path, f) \<in> set files. path \<noteq> target \<longrightarrow>
      (\<forall>db''. results_ok db'' \<longrightarrow> grows db' db'' \<longrightarrow> (\<exists>c. merge_one db'' f = Inr (db'', c))))"
    using merge_from_again [OF assms(1) [unfolded merge_files_def] assms(2)] assms(3) by blast
  have "\<exists>c. merge_one db' f = Inr (db', c)" if f: "(path, f) \<in> set again" "path \<noteq> target" for path f
    using * f assms(4) grows_refl by blast
  then show ?thesis
    unfolding merge_files_def by (rule merge_from_fixed)
qed
section \<open>A sample merge\<close>

text \<open>A row nothing in the destination holds the key of is appended; a table without rows changes nothing.\<close>

lemma place_fresh:
  assumes "source_row_ok table row" "results_ok db" "holder db table (completed table (non_null row)) = None"
    "references_ok db table (completed table (non_null row))"
  shows "place_row table db row = Inr (db(table := db table @ [(next_rowid (db table), completed table (non_null row))]),
    Some (next_rowid (db table)), 1)"
  using assms stored_row_holder [OF assms(2,1)] source_row_okD [OF assms(1)]
  by (simp add: place_row_def upsert_def append_row_def source_row_ok_def)

lemma merge_table_empty:
  "content f table = [] \<Longrightarrow> table \<in> set (file_tables f) \<Longrightarrow> merge_table f (ids, db, c) table = Inr (ids, db, dict_set table 0 c)"
  by (simp add: merge_table_def merge_rows_def source_rows_def)

text \<open>A shard holding one setup and its local episode with the output tokens it counted.\<close>

definition sample_setup :: sql_row where
  "sample_setup = completed ''setups'' [(''setup'', SText ''exp''), (''language'', SText ''c''), (''device'', SText ''cpu''),
     (''harness'', SText ''claude'')]"

definition sample_episode :: sql_row where
  "sample_episode = completed ''episodes'' [(''setup'', SText ''exp''), (''label'', SText ''L''), (''output_tokens'', SInt 500)]"

definition sample_shard :: db_file where
  "sample_shard = \<lparr>user_version = 20, file_tables = TABLES,
     content = empty_db(''setups'' := [(1, sample_setup)], ''episodes'' := [(4, sample_episode)])\<rparr>"

definition sample_merged :: results where
  "sample_merged = empty_db(''setups'' := [(1, sample_setup)], ''episodes'' := [(1, sample_episode)])"

lemma sample_rows_ok: "source_row_ok ''setups'' sample_setup" "source_row_ok ''episodes'' sample_episode"
  by code_simp+

lemma sample_shard_ok: "source_ok sample_shard \<and> distinct_ids sample_shard"
  using sample_rows_ok by (simp add: source_ok_def distinct_ids_def sample_shard_def TABLES_def empty_db_def)

lemma sample_completed: "completed ''setups'' (non_null sample_setup) = sample_setup"
  "completed ''episodes'' (non_null sample_episode) = sample_episode"
  by code_simp+

lemma sample_merge: "\<exists>totals. merge_files empty_db ''m'' [(''a'', sample_shard)] = (sample_merged, Inr totals)"
proof -
  let ?db = "empty_db(''setups'' := [(1, sample_setup)])"
  have setups: "place_row ''setups'' empty_db sample_setup = Inr (?db, Some 1, 1)"
    using place_fresh [OF sample_rows_ok(1) empty_db_ok] sample_completed
    by (simp add: holder_def empty_db_def references_ok_def FOREIGN_KEYS_def next_rowid_def)
  then have db: "results_ok ?db"
    using place_settles [OF empty_db_ok sample_rows_ok(1)] unfolding settled_def by blast
  have "refers ?db sample_episode ([''setup''], ''setups'', [''setup''])"
    by code_simp
  then have episodes: "place_row ''episodes'' ?db sample_episode = Inr (sample_merged, Some 1, 1)"
    using place_fresh [OF sample_rows_ok(2) db] sample_completed
    by (simp add: holder_def empty_db_def references_ok_def FOREIGN_KEYS_def next_rowid_def sample_merged_def)
  have "remap_ids ''setups'' no_ids sample_setup = Inr sample_setup" "remap_ids ''episodes'' no_ids sample_episode = Inr sample_episode"
    by code_simp+
  with setups episodes have "\<exists>c. merge_one empty_db sample_shard = Inr (sample_merged, c)"
    by (simp add: merge_one_def sample_shard_def SCHEMA_VERSION_def TABLES_def merge_table_empty empty_db_def
        merge_table_def merge_rows_def source_rows_def merge_row_def note_id_def no_ids_def)
  then show ?thesis
    by (auto simp: merge_files_def)
qed
theorem merge_keeps_every_row_witness:
  "\<exists>totals ids. merge_files empty_db ''m'' [(''a'', sample_shard)] = (sample_merged, Inr totals) \<and>
     results_ok sample_merged \<and> carried ids sample_merged ''episodes'' (4, sample_episode)"
proof -
  obtain totals where run: "merge_files empty_db ''m'' [(''a'', sample_shard)] = (sample_merged, Inr totals)"
    using sample_merge by blast
  have "\<exists>ids. \<forall>table \<in> set TABLES. table \<in> set (file_tables sample_shard) \<longrightarrow>
      (\<forall>x \<in> set (content sample_shard table). carried ids sample_merged table x)" "results_ok sample_merged"
    using merge_keeps_every_row [OF run empty_db_ok] sample_shard_ok by (simp_all add: sample_shard_def SCHEMA_VERSION_def)
  then show ?thesis
    using run by (auto simp: sample_shard_def TABLES_def)
qed

theorem merge_idempotent_witness:
  "\<exists>totals again. merge_files empty_db ''m'' [(''a'', sample_shard)] = (sample_merged, Inr totals) \<and>
     merge_files sample_merged ''m'' [(''a'', sample_shard), (''a'', sample_shard)] = (sample_merged, Inr again)"
proof -
  obtain totals where run: "merge_files empty_db ''m'' [(''a'', sample_shard)] = (sample_merged, Inr totals)"
    using sample_merge by blast
  from merge_idempotent [OF run empty_db_ok, of "[(''a'', sample_shard), (''a'', sample_shard)]"] run sample_shard_ok show ?thesis
    by simp
qed

end
