(* ===== verification/Results_Write.thy ===== *)
theory Results_Write
  imports Results_Db
begin

text \<open>
  Writing a grade (\<open>harness/results_db.py\<close>): the setup and episode it belongs to, the call it is, the millisecond it is
  stamped with, the request it made row by row, its sources and its timed inputs. The models and JSON of relayout, a
  package outside the repository, are parameters.
\<close>

section \<open>Setups, episodes and calls\<close>

record setup_record =
  st_setup :: string
  st_language :: string
  st_device :: string
  st_harness :: string
  st_study :: "string option"
  st_model :: "string option"
  st_packet :: string
  st_temperature :: real
  st_tag_version :: string
  st_plugins :: "string option"

definition opt_text :: "string option \<Rightarrow> sql" where
  "opt_text v = (case v of None \<Rightarrow> SNull | Some s \<Rightarrow> SText s)"

definition setup_values :: "setup_record \<Rightarrow> sql_row" where
  "setup_values s =
     [(''setup'', SText (st_setup s)), (''language'', SText (st_language s)), (''device'', SText (st_device s)),
      (''harness'', SText (st_harness s)), (''study'', opt_text (st_study s)), (''model'', opt_text (st_model s)),
      (''packet'', SText (st_packet s)), (''temperature'', SReal (st_temperature s)),
      (''tag_version'', SText (st_tag_version s)), (''plugins'', opt_text (st_plugins s))]"

definition ensure_setup :: "results \<Rightarrow> setup_record \<Rightarrow> results res" where
  "ensure_setup db s = bindE (upsert db ''setups'' (setup_values s) False) (\<lambda>(db', _). Inr db')"

definition ensure_episode :: "results \<Rightarrow> string \<Rightarrow> string \<Rightarrow> int \<Rightarrow> int \<Rightarrow> (results \<times> int) res" where
  "ensure_episode db setup label job slot =
     upsert db ''episodes'' [(''setup'', SText setup), (''job'', SInt job), (''label'', SText label), (''slot'', SInt slot)] False"

definition CALL_KINDS :: "string list" where
  "CALL_KINDS = [''score'', ''submit'']"

definition call_index :: "results \<Rightarrow> int \<Rightarrow> string \<Rightarrow> int" where
  "call_index db episode kern =
     int (length (filter (\<lambda>(_, r). field r ''episode_id'' = SInt episode \<and> field r ''kernel'' = SText kern \<and>
       field r ''kind'' \<in> SText ` set CALL_KINDS) (db ''grades''))) + 1"

section \<open>Requests, row by row\<close>

text \<open>A field of an operation's JSON: a text, or another value that \<open>str\<close> shows.\<close>

datatype 'j json =
    JText string
  | JOther 'j

type_synonym 'j operation = "(string, 'j json) dict"

record 'j request =
  rq_load :: "string list"
  rq_grid :: "'j list option"
  rq_operations :: "'j operation list"

record 'j json_codec =
  show_json :: "'j \<Rightarrow> string"
  dump_params :: "'j operation \<Rightarrow> string"
  load_params :: "string \<Rightarrow> 'j operation"
  dump_grid :: "'j list \<Rightarrow> string"
  load_grid :: "string \<Rightarrow> 'j list"

definition LIBRARY_KIND :: string where
  "LIBRARY_KIND = ''library''"

definition GRID_KIND :: string where
  "GRID_KIND = ''grid''"

definition REQUEST_VALUE_FIELDS :: "(string \<times> string) list" where
  "REQUEST_VALUE_FIELDS = [(''cast'', ''to''), (''format'', ''to''), (''place'', ''on'')]"

definition json_text :: "'j json_codec \<Rightarrow> 'j json \<Rightarrow> string" where
  "json_text c v = (case v of JText s \<Rightarrow> s | JOther j \<Rightarrow> show_json c j)"

text \<open>\<open>str(others.pop(name, ""))\<close>.\<close>

definition pop_text :: "'j json_codec \<Rightarrow> string \<Rightarrow> 'j operation \<Rightarrow> string \<times> 'j operation" where
  "pop_text c name others =
     ((case map_of others name of None \<Rightarrow> [] | Some v \<Rightarrow> json_text c v), AList.delete name others)"

definition operation_row :: "'j json_codec \<Rightarrow> 'j operation \<Rightarrow> sql_row res" where
  "operation_row c op =
     bindE (dict_item (\<lambda>_. KeyError ''action'') op ''action'') (\<lambda>a.
       let kind = json_text c a;
           (array, others) = pop_text c ''array'' (AList.delete ''action'' op);
           (setting, rest) = (case map_of REQUEST_VALUE_FIELDS kind of None \<Rightarrow> ([], others) | Some name \<Rightarrow> pop_text c name others)
       in Inr [(''kind'', SText kind), (''array'', SText array), (''value'', SText setting),
               (''params'', SText (if rest = [] then [] else dump_params c rest))])"

definition library_row :: "string \<Rightarrow> sql_row" where
  "library_row name = [(''kind'', SText LIBRARY_KIND), (''value'', SText name)]"

definition grid_row :: "'j json_codec \<Rightarrow> 'j list \<Rightarrow> sql_row" where
  "grid_row c grid = [(''kind'', SText GRID_KIND), (''value'', SText (dump_grid c grid))]"

definition positioned :: "sql_row list \<Rightarrow> sql_row list" where
  "positioned rows = map (\<lambda>(i, row). (''position'', SInt (int i)) # row) (enumerate 0 rows)"

definition request_rows :: "'j json_codec \<Rightarrow> 'j request \<Rightarrow> sql_row list res" where
  "request_rows c rq =
     bindE (traverseE (operation_row c) (rq_operations rq)) (\<lambda>ops.
       Inr (positioned (map library_row (rq_load rq) @
         (case rq_grid rq of None \<Rightarrow> [] | Some grid \<Rightarrow> [grid_row c grid]) @ ops)))"

definition add_requests :: "'j json_codec \<Rightarrow> results \<Rightarrow> int \<Rightarrow> 'j request \<Rightarrow> results res" where
  "add_requests c db grade rq =
     bindE (request_rows c rq) (\<lambda>rows.
       foldE (\<lambda>db row. bindE (insert_row db ''grade_requests'' ((''grade_id'', SInt grade) # row)) (\<lambda>(db', _). Inr db')) db rows)"

text \<open>\<open>requests_from_rows\<close>, up to the validation of what it rebuilt: the libraries, the grid, the operations.\<close>

definition text_of :: "sql \<Rightarrow> string" where
  "text_of v = (case v of SText s \<Rightarrow> s | _ \<Rightarrow> [])"

definition row_operation :: "'j json_codec \<Rightarrow> sql_row \<Rightarrow> 'j operation" where
  "row_operation c row =
     (let kind = text_of (field row ''kind'');
          others = dict_merge [(''action'', JText kind)] (load_params c (text_of (field row ''params'')));
          others = (if text_of (field row ''array'') = [] then others
                    else dict_set ''array'' (JText (text_of (field row ''array''))) others)
      in case map_of REQUEST_VALUE_FIELDS kind of None \<Rightarrow> others
           | Some name \<Rightarrow> dict_set name (JText (text_of (field row ''value''))) others)"

definition read_request_row :: "'j json_codec \<Rightarrow> 'j request \<Rightarrow> sql_row \<Rightarrow> 'j request" where
  "read_request_row c rq row =
     (let kind = text_of (field row ''kind'')
      in if kind = LIBRARY_KIND then rq\<lparr>rq_load := rq_load rq @ [text_of (field row ''value'')]\<rparr>
         else if kind = GRID_KIND then rq\<lparr>rq_grid := Some (load_grid c (text_of (field row ''value'')))\<rparr>
         else rq\<lparr>rq_operations := rq_operations rq @ [row_operation c row]\<rparr>)"

definition row_position :: "sql_row \<Rightarrow> int" where
  "row_position row = (case field row ''position'' of SInt i \<Rightarrow> i | _ \<Rightarrow> 0)"

definition rows_of_grade :: "results \<Rightarrow> string \<Rightarrow> int \<Rightarrow> sql_row list" where
  "rows_of_grade db table grade = map snd (filter (\<lambda>(_, r). field r ''grade_id'' = SInt grade) (db table))"

definition requests_from_rows :: "'j json_codec \<Rightarrow> results \<Rightarrow> int \<Rightarrow> 'j request" where
  "requests_from_rows c db grade =
     foldl (read_request_row c) \<lparr>rq_load = [], rq_grid = None, rq_operations = []\<rparr>
       (sort_key row_position (rows_of_grade db ''grade_requests'' grade))"

section \<open>A grade\<close>

record 'j relayout =
  validated :: "string \<Rightarrow> 'j request res"
  recorded_json :: "'j request \<Rightarrow> string"
  no_request :: "'j request"

definition request_of_values :: "'j relayout \<Rightarrow> sql_row \<Rightarrow> 'j request res" where
  "request_of_values lib values =
     (case map_of values ''requests'' of None \<Rightarrow> Inr (no_request lib)
        | Some v \<Rightarrow> validated lib (if text_of v = [] then ''{}'' else text_of v))"

definition grade_row :: "int \<Rightarrow> string \<Rightarrow> string \<Rightarrow> sql_row \<Rightarrow> string \<Rightarrow> int \<Rightarrow> sql_row" where
  "grade_row episode kern kind values requests ts =
     dict_set ''requests'' (if requests = [] then SNull else SText requests)
       (dict_merge [(''episode_id'', SInt episode), (''kernel'', SText kern), (''kind'', SText kind), (''ts_ms'', SInt ts)] values)"

text \<open>The loop that looks for a free millisecond; \<open>None\<close> is a loop that does not end.\<close>

partial_function (option) insert_at_free_ms :: "results \<Rightarrow> (int \<Rightarrow> sql_row) \<Rightarrow> int \<Rightarrow> (results \<times> int \<times> int) res option" where
  "insert_at_free_ms db row ts =
     (case insert_row db ''grades'' (row ts) of
        Inl e \<Rightarrow> if e = SqlError ''UNIQUE'' then insert_at_free_ms db row (ts + 1) else Some (Inl e)
      | Inr (db', grade) \<Rightarrow> Some (Inr (db', grade, ts)))"

declare insert_at_free_ms.simps [code]

definition add_grade ::
  "'j json_codec \<Rightarrow> 'j relayout \<Rightarrow> results \<Rightarrow> int \<Rightarrow> string \<Rightarrow> string \<Rightarrow> int \<Rightarrow> sql_row \<Rightarrow> (results \<times> int \<times> int) res option" where
  "add_grade c lib db episode kern kind ts values =
     (case request_of_values lib values of
        Inl e \<Rightarrow> Some (Inl e)
      | Inr rq \<Rightarrow>
          map_option (\<lambda>r. bindE r (\<lambda>(db1, grade, ts1). bindE (add_requests c db1 grade rq) (\<lambda>db2. Inr (db2, grade, ts1))))
            (insert_at_free_ms db (grade_row episode kern kind values (recorded_json lib rq)) ts))"

section \<open>Sources and timed inputs\<close>

text \<open>\<open>digest\<close> is sha256 of the UTF-8 bytes.\<close>

definition store_source :: "(string \<Rightarrow> string) \<Rightarrow> results \<Rightarrow> int \<Rightarrow> string \<Rightarrow> string \<Rightarrow> string \<Rightarrow> (results \<times> string) res" where
  "store_source digest db grade part language source =
     (let h = digest source; row = [(''hash'', SText h), (''text'', SText source)]
      in bindE (if holder db ''sources'' (completed ''sources'' row) = None
                then bindE (insert_row db ''sources'' row) (\<lambda>(db', _). Inr db') else Inr db) (\<lambda>db'.
         bindE (upsert db' ''grade_sources'' [(''grade_id'', SInt grade), (''part'', SText part), (''language'', SText language),
           (''hash'', SText h)] False) (\<lambda>(db'', _). Inr (db'', h))))"

definition add_cells :: "results \<Rightarrow> int \<Rightarrow> sql_row list \<Rightarrow> results res" where
  "add_cells db grade cells =
     foldE (\<lambda>db (i, cell). bindE (insert_row db ''grade_cells''
         (dict_merge [(''grade_id'', SInt grade), (''cell'', SInt (int i))] cell)) (\<lambda>(db', _). Inr db')) db (enumerate 0 cells)"

definition grade_sources :: "results \<Rightarrow> int \<Rightarrow> (string, string \<times> string \<times> string) dict" where
  "grade_sources db grade =
     concat (map (\<lambda>gs. concat (map (\<lambda>(_, s). if field s ''hash'' = field gs ''hash''
         then [(text_of (field gs ''part''), (text_of (field gs ''language''), text_of (field s ''text''), text_of (field s ''hash'')))]
         else []) (db ''sources''))) (rows_of_grade db ''grade_sources'' grade))"
section \<open>The millisecond a grade gets\<close>

lemma dict_merge_distinct: "distinct (map fst d) \<Longrightarrow> distinct (map fst (dict_merge d e))"
  by (induction e arbitrary: d) (auto simp: dict_merge_def split_beta AList.distinct_update)

lemma insert_row_UNIQUE:
  "insert_row db table values = Inl (SqlError ''UNIQUE'') \<longleftrightarrow>
     known_columns table (non_null values) \<and> row_ok table (completed table (non_null values)) \<and>
     (\<exists>x. holder db table (completed table (non_null values)) = Some x)"
  by (auto simp: insert_row_def append_row_def Let_def split: option.split)

text \<open>The columns of the key the row of a grade gets, whatever values it carries beside them.\<close>

definition names_no_key :: "sql_row \<Rightarrow> bool" where
  "names_no_key values \<longleftrightarrow> fst ` set values \<inter> {''episode_id'', ''kernel'', ''kind'', ''ts_ms''} = {}"

definition stored_grade :: "int \<Rightarrow> string \<Rightarrow> string \<Rightarrow> sql_row \<Rightarrow> string \<Rightarrow> int \<Rightarrow> sql_row" where
  "stored_grade episode kern kind values requests ts =
     completed ''grades'' (non_null (grade_row episode kern kind values requests ts))"

lemma stored_grade_key:
  assumes "names_no_key values"
  shows "field (stored_grade episode kern kind values requests ts) ''ts_ms'' = SInt ts"
    "field (stored_grade episode kern kind values requests ts) ''episode_id'' = SInt episode"
    "field (stored_grade episode kern kind values requests ts) ''kernel'' = SText kern"
    "field (stored_grade episode kern kind values requests ts) ''kind'' = SText kind"
proof -
  let ?row = "grade_row episode kern kind values requests ts"
  have dist: "distinct (map fst ?row)"
    by (simp add: grade_row_def AList.distinct_update dict_merge_distinct)
  have in_schema: "k \<in> col_name ` set (columns_of ''grades'')" if "k \<in> {''episode_id'', ''kernel'', ''kind'', ''ts_ms''}" for k
    using that natural_key_columns [of "''grades''"] by (auto simp: natural_key_def NATURAL_KEYS_def GRADE_KEY_def)
  have at: "field (stored_grade episode kern kind values requests ts) k = v"
    if "k \<in> {''episode_id'', ''kernel'', ''kind'', ''ts_ms''}" "v \<noteq> SNull"
      "map_of [(''episode_id'', SInt episode), (''kernel'', SText kern), (''kind'', SText kind), (''ts_ms'', SInt ts)] k = Some v" for k v
  proof -
    have "k \<notin> fst ` set values" "k \<noteq> ''requests''"
      using assms that(1) unfolding names_no_key_def by blast+
    then have "map_of ?row k = Some v"
      using that(3) by (simp add: grade_row_def AList.update_conv' map_of_dict_merge_other)
    then have "(k, v) \<in> set (non_null ?row)"
      using that(2) map_of_SomeD by (fastforce simp: non_null_def)
    then have "map_of (non_null ?row) k = Some v"
      using dist by (intro map_of_is_SomeI) (simp_all add: non_null_def distinct_map_filter)
    moreover have "\<exists>c. c \<in> set (columns_of ''grades'') \<and> k = col_name c"
      using in_schema [OF that(1)] by (auto simp: image_iff)
    ultimately show ?thesis
      by (auto simp: stored_grade_def field_completed)
  qed
  show "field (stored_grade episode kern kind values requests ts) ''ts_ms'' = SInt ts"
    "field (stored_grade episode kern kind values requests ts) ''episode_id'' = SInt episode"
    "field (stored_grade episode kern kind values requests ts) ''kernel'' = SText kern"
    "field (stored_grade episode kern kind values requests ts) ''kind'' = SText kind"
    by (rule at; simp)+
qed

text \<open>The row at another millisecond differs in that column only.\<close>

lemma map_of_dict_merge_cong: "map_of d k = map_of d' k \<Longrightarrow> map_of (dict_merge d e) k = map_of (dict_merge d' e) k"
proof (induction e arbitrary: d d')
  case (Cons x e)
  then have "map_of (dict_set (fst x) (snd x) d) k = map_of (dict_set (fst x) (snd x) d') k"
    by (simp add: AList.update_conv')
  from Cons.IH [OF this] show ?case
    by (simp add: dict_merge_def split_beta)
qed (simp add: dict_merge_def)

lemma stored_grade_at:
  assumes "k \<noteq> ''ts_ms''"
  shows "field (stored_grade episode kern kind values requests u) k = field (stored_grade episode kern kind values requests t) k"
proof -
  let ?row = "grade_row episode kern kind values requests"
  have "map_of (?row u) k = map_of (?row t) k"
    unfolding grade_row_def AList.update_conv'
    using map_of_dict_merge_cong [of "[(''episode_id'', SInt episode), (''kernel'', SText kern), (''kind'', SText kind), (''ts_ms'', SInt u)]" k
      "[(''episode_id'', SInt episode), (''kernel'', SText kern), (''kind'', SText kind), (''ts_ms'', SInt t)]" "values"] assms by simp
  moreover have "distinct (map fst (?row v))" for v
    by (simp add: grade_row_def AList.distinct_update dict_merge_distinct)
  ultimately have same: "map_of (non_null (?row u)) k = map_of (non_null (?row t)) k"
    by (simp add: map_of_non_null)
  show ?thesis
  proof (cases "k \<in> col_name ` set (columns_of ''grades'')")
    case True
    with same show ?thesis
      by (auto simp: stored_grade_def field_completed)
  next
    case False
    then have "map_of (completed ''grades'' vals) k = None" for vals
      by (auto simp: map_of_eq_None_iff completed_def)
    then show ?thesis
      by (simp add: stored_grade_def field_def)
  qed
qed

definition twin_at :: "int \<Rightarrow> sql_row \<Rightarrow> sql_row \<Rightarrow> bool" where
  "twin_at u s old \<longleftrightarrow> index_key ''grades'' old = index_key ''grades'' (dict_set ''ts_ms'' (SInt u) s)"

lemma stored_grade_twin:
  assumes "names_no_key values"
    "index_key ''grades'' old = index_key ''grades'' (stored_grade episode kern kind values requests u)"
  shows "twin_at u (stored_grade episode kern kind values requests t) old"
proof -
  have "index_key ''grades'' (dict_set ''ts_ms'' (SInt u) (stored_grade episode kern kind values requests t)) =
      index_key ''grades'' (stored_grade episode kern kind values requests u)"
    using stored_grade_key(1) [OF assms(1)] stored_grade_at by (intro index_key_cong) (metis field_set)
  with assms(2) show ?thesis
    by (simp add: twin_at_def)
qed

lemma twin_ts: "twin_at u s old \<Longrightarrow> field old ''ts_ms'' = SInt u"
  by (auto simp: twin_at_def index_key_def natural_key_def NATURAL_KEYS_def GRADE_KEY_def field_set)

text \<open>The loop ends: each turn passes one of the finitely many stored milliseconds.\<close>

lemma insert_at_free_ms_ends:
  assumes "\<And>t s rid. holder db ''grades'' (completed ''grades'' (non_null (row t))) = Some (rid, s) \<Longrightarrow> field s ''ts_ms'' = SInt t"
  shows "\<exists>r. insert_at_free_ms db row ts = Some r \<and>
    (\<forall>db' g t. r = Inr (db', g, t) \<longrightarrow> ts \<le> t \<and> insert_row db ''grades'' (row t) = Inr (db', g) \<and>
      (\<forall>u. ts \<le> u \<and> u < t \<longrightarrow> insert_row db ''grades'' (row u) = Inl (SqlError ''UNIQUE'')))"
proof (induction "length (filter (\<lambda>(_, s). \<exists>t \<ge> ts. field s ''ts_ms'' = SInt t) (db ''grades''))" arbitrary: ts rule: less_induct)
  case less
  show ?case
  proof (cases "insert_row db ''grades'' (row ts) = Inl (SqlError ''UNIQUE'')")
    case False
    then show ?thesis
      by (subst insert_at_free_ms.simps) (auto split: sum.split)
  next
    case True
    then obtain rid s where h: "holder db ''grades'' (completed ''grades'' (non_null (row ts))) = Some (rid, s)"
      by (auto simp: insert_row_UNIQUE)
    have s: "(rid, s) \<in> set (db ''grades'')" "field s ''ts_ms'' = SInt ts"
      using holderD [OF h] assms [OF h] by simp_all
    let ?P = "\<lambda>ts (_, s). \<exists>t \<ge> ts. field s ''ts_ms'' = SInt t"
    have "filter (?P (ts + 1)) (db ''grades'') = filter (?P (ts + 1)) (filter (?P ts) (db ''grades''))"
      by (auto simp: intro!: filter_cong)
    moreover have "length (filter (?P (ts + 1)) (filter (?P ts) (db ''grades''))) < length (filter (?P ts) (db ''grades''))"
      using s by (intro length_filter_less [of "(rid, s)"]) auto
    ultimately have IH: "\<exists>r. insert_at_free_ms db row (ts + 1) = Some r \<and>
        (\<forall>db' g t. r = Inr (db', g, t) \<longrightarrow> ts + 1 \<le> t \<and> insert_row db ''grades'' (row t) = Inr (db', g) \<and>
          (\<forall>u. ts + 1 \<le> u \<and> u < t \<longrightarrow> insert_row db ''grades'' (row u) = Inl (SqlError ''UNIQUE'')))"
      using less [of "ts + 1"] by simp
    have "insert_at_free_ms db row ts = insert_at_free_ms db row (ts + 1)"
      using True by (subst insert_at_free_ms.simps) simp
    moreover have "insert_row db ''grades'' (row u) = Inl (SqlError ''UNIQUE'')"
      if "\<forall>u. ts + 1 \<le> u \<and> u < t \<longrightarrow> insert_row db ''grades'' (row u) = Inl (SqlError ''UNIQUE'')" "ts \<le> u" "u < t" for t u
      using that True by (cases "u = ts") auto
    ultimately show ?thesis
      using IH by fastforce
  qed
qed

lemma insert_row_other:
  "insert_row db table row = Inr (db', i) \<Longrightarrow> t \<noteq> table \<Longrightarrow> db' t = db t"
  using append_rowD(1) [OF insert_rowD(3)] by fastforce

lemma add_requests_grows:
  assumes "add_requests c db grade rq = Inr db'" "results_ok db"
  shows "results_ok db' \<and> (\<forall>table. table \<noteq> ''grade_requests'' \<longrightarrow> db' table = db table)"
proof -
  let ?step = "\<lambda>db row. bindE (insert_row db ''grade_requests'' ((''grade_id'', SInt grade) # row)) (\<lambda>(db', _). Inr db')"
  let ?I = "\<lambda>s. results_ok s \<and> (\<forall>table. table \<noteq> ''grade_requests'' \<longrightarrow> s table = db table)"
  obtain rows where run: "foldE ?step db rows = Inr db'"
    using assms(1) by (auto simp: add_requests_def bindE_Inr_iff)
  have step: "?I t" if "?I s" "?step s x = Inr t" for s x t
  proof -
    have "\<exists>i. insert_row s ''grade_requests'' ((''grade_id'', SInt grade) # x) = Inr (t, i)"
      using that(2) by (auto simp: bindE_Inr_iff)
    then show ?thesis
      using that(1) insert_row_ok insert_row_other by metis
  qed
  show ?thesis
    by (rule foldE_invariant [where I = ?I, OF run]) (use assms(2) step in blast)+
qed

text \<open>What \<open>add_grade\<close> does: one new row, the values under the schema's defaults, at the first free millisecond.\<close>

definition grade_written ::
  "'j relayout \<Rightarrow> results \<Rightarrow> int \<Rightarrow> string \<Rightarrow> string \<Rightarrow> int \<Rightarrow> sql_row \<Rightarrow> results \<Rightarrow> int \<Rightarrow> int \<Rightarrow> bool" where
  "grade_written lib db episode kern kind ts values db' g t \<longleftrightarrow> ts \<le> t \<and> results_ok db' \<and>
     (\<exists>rq. request_of_values lib values = Inr rq \<and>
        (let s = stored_grade episode kern kind values (recorded_json lib rq) t
         in db' ''grades'' = db ''grades'' @ [(g, s)] \<and> row_ok ''grades'' s \<and> references_ok db ''grades'' s \<and>
            (\<forall>u. ts \<le> u \<and> u < t \<longrightarrow> (\<exists>x \<in> set (db ''grades''). twin_at u s (snd x))))) \<and>
     g = next_rowid (db ''grades'') \<and> (\<forall>table. table \<notin> {''grades'', ''grade_requests''} \<longrightarrow> db' table = db table)"

lemma add_grade_spec:
  assumes "results_ok db" "names_no_key values"
  shows "\<exists>r. add_grade c lib db episode kern kind ts values = Some r \<and>
    (\<forall>db' g t. r = Inr (db', g, t) \<longrightarrow> grade_written lib db episode kern kind ts values db' g t)"
proof (cases "request_of_values lib values")
  case (Inl e)
  then show ?thesis
    by (simp add: add_grade_def)
next
  case (Inr rq)
  let ?q = "recorded_json lib rq"
  let ?row = "grade_row episode kern kind values ?q" and ?s = "stored_grade episode kern kind values ?q"
  have twin: "twin_at u (?s t) s \<and> (rid, s) \<in> set (db ''grades'')"
    if "holder db ''grades'' (completed ''grades'' (non_null (?row u))) = Some (rid, s)" for u t rid s
    using holderD [OF that] stored_grade_twin [OF assms(2)] by (simp add: stored_grade_def)
  have "field s ''ts_ms'' = SInt u" if "holder db ''grades'' (completed ''grades'' (non_null (?row u))) = Some (rid, s)" for u rid s
    using twin_ts twin [OF that] by blast
  then obtain r where r: "insert_at_free_ms db ?row ts = Some r" and outcome: "\<And>db1 g t. r = Inr (db1, g, t) \<Longrightarrow>
      ts \<le> t \<and> insert_row db ''grades'' (?row t) = Inr (db1, g) \<and>
      (\<forall>u. ts \<le> u \<and> u < t \<longrightarrow> insert_row db ''grades'' (?row u) = Inl (SqlError ''UNIQUE''))"
    using insert_at_free_ms_ends [of db ?row ts] by blast
  have "grade_written lib db episode kern kind ts values db' g t"
    if out: "bindE r (\<lambda>(db1, g, t). bindE (add_requests c db1 g rq) (\<lambda>db2. Inr (db2, g, t))) = Inr (db', g, t)" for db' g t
  proof -
    obtain db1 where db1: "r = Inr (db1, g, t)" and req: "add_requests c db1 g rq = Inr db'"
      using out by (auto simp: bindE_Inr_iff)
    note D = outcome [OF db1]
    have ins: "insert_row db ''grades'' (?row t) = Inr (db1, g)"
      using D by blast
    note A = append_rowD [OF insert_rowD(3) [OF ins]] and ok = insert_rowD(2) [OF ins]
    have new: "db1 ''grades'' = db ''grades'' @ [(g, ?s t)]" "\<And>table. table \<noteq> ''grades'' \<Longrightarrow> db1 table = db table"
      using A(1) by (simp_all add: stored_grade_def)
    have "\<exists>x \<in> set (db ''grades''). twin_at u (?s t) (snd x)" if "ts \<le> u" "u < t" for u
    proof -
      have "insert_row db ''grades'' (?row u) = Inl (SqlError ''UNIQUE'')"
        using D that by blast
      then obtain rid s where "holder db ''grades'' (completed ''grades'' (non_null (?row u))) = Some (rid, s)"
        by (auto simp: insert_row_UNIQUE)
      from twin [OF this] show ?thesis
        by force
    qed
    then show ?thesis
      using add_requests_grows [OF req insert_row_ok [OF assms(1) ins]] D new Inr A(2,3) ok
      by (auto simp: grade_written_def Let_def stored_grade_def)
  qed
  then show ?thesis
    using r Inr by (simp add: add_grade_def)
qed

text \<open>C26. A grade is written exactly once, at the first free millisecond: for values that do not name a column of the
  key, the search for a free millisecond ends; when the grade is written, it is one new row of the episode, kernel and
  kind at a millisecond not before the one asked for, every millisecond passed over was held by a stored grade of the
  same key, and no other row of the database changes but the rows of its request.\<close>

theorem add_grade_first_free:
  assumes "results_ok db" "names_no_key values"
  shows "\<exists>r. add_grade c lib db episode kern kind ts values = Some r \<and>
    (\<forall>db' g t. r = Inr (db', g, t) \<longrightarrow> ts \<le> t \<and> results_ok db' \<and>
      (\<exists>s. db' ''grades'' = db ''grades'' @ [(g, s)] \<and> g \<notin> fst ` set (db ''grades'') \<and>
         field s ''episode_id'' = SInt episode \<and> field s ''kernel'' = SText kern \<and> field s ''kind'' = SText kind \<and>
         field s ''ts_ms'' = SInt t \<and> (\<forall>u. ts \<le> u \<and> u < t \<longrightarrow> (\<exists>x \<in> set (db ''grades''). twin_at u s (snd x)))) \<and>
      (\<forall>table. table \<notin> {''grades'', ''grade_requests''} \<longrightarrow> db' table = db table))"
proof -
  have fresh: "next_rowid rows \<notin> fst ` set rows" for rows
    using next_rowid_above [of _ rows] by force
  obtain r where "add_grade c lib db episode kern kind ts values = Some r"
    and "\<And>db' g t. r = Inr (db', g, t) \<Longrightarrow> grade_written lib db episode kern kind ts values db' g t"
    using add_grade_spec [OF assms] by blast
  then show ?thesis
    unfolding grade_written_def Let_def using stored_grade_key [OF assms(2)] fresh by (intro exI [of _ r]) fastforce
qed

section \<open>A sample grade\<close>

definition plain_codec :: "string json_codec" where
  "plain_codec = \<lparr>show_json = id, dump_params = (\<lambda>_. ''{}''), load_params = (\<lambda>_. []), dump_grid = (\<lambda>_. ''[]''), load_grid = (\<lambda>_. [])\<rparr>"

definition plain_relayout :: "string relayout" where
  "plain_relayout = \<lparr>validated = (\<lambda>_. Inr \<lparr>rq_load = [], rq_grid = None, rq_operations = []\<rparr>), recorded_json = (\<lambda>_. []),
     no_request = \<lparr>rq_load = [], rq_grid = None, rq_operations = []\<rparr>\<rparr>"

definition sample_values :: sql_row where
  "sample_values = [(''preset'', SText ''S''), (''datatype'', SText ''float64''), (''source_mode'', SText ''c''), (''task_hash'', SText ''h'')]"

text \<open>A database with an episode and its submission stamped with millisecond 5.\<close>

definition sample_db :: results where
  "sample_db = empty_db(
     ''setups'' := [(1, completed ''setups'' [(''setup'', SText ''exp''), (''language'', SText ''c''), (''device'', SText ''cpu''),
        (''harness'', SText ''claude'')])],
     ''episodes'' := [(1, completed ''episodes'' [(''setup'', SText ''exp''), (''label'', SText ''L'')])],
     ''grades'' := [(1, stored_grade 1 ''gemm'' ''submit'' sample_values [] 5)])"

lemma sample_db_ok: "results_ok sample_db"
proof -
  have "stored_ok ''setups'' (completed ''setups'' [(''setup'', SText ''exp''), (''language'', SText ''c''), (''device'', SText ''cpu''),
        (''harness'', SText ''claude'')])" "stored_ok ''episodes'' (completed ''episodes'' [(''setup'', SText ''exp''), (''label'', SText ''L'')])"
    "stored_ok ''grades'' (stored_grade 1 ''gemm'' ''submit'' sample_values [] 5)"
    by code_simp+
  then show ?thesis
    by (simp add: results_ok_def table_ok_def sample_db_def empty_db_def)
qed

lemma sample_add:
  "map_option (\<lambda>r. case r of Inl _ \<Rightarrow> None | Inr (_, g, t) \<Rightarrow> Some (g, t))
     (add_grade plain_codec plain_relayout sample_db 1 ''gemm'' ''submit'' 5 sample_values) = Some (Some (2, 6))"
  by code_simp

theorem add_grade_first_free_witness:
  "\<exists>db' s. add_grade plain_codec plain_relayout sample_db 1 ''gemm'' ''submit'' 5 sample_values = Some (Inr (db', 2, 6)) \<and>
     results_ok db' \<and> db' ''grades'' = sample_db ''grades'' @ [(2, s)] \<and> field s ''ts_ms'' = SInt 6"
proof -
  obtain db' where r: "add_grade plain_codec plain_relayout sample_db 1 ''gemm'' ''submit'' 5 sample_values = Some (Inr (db', 2, 6))"
    using sample_add by (fastforce split: sum.splits simp: split_beta prod_eq_iff)
  have "names_no_key sample_values"
    by code_simp
  from add_grade_first_free [OF sample_db_ok this, of plain_codec plain_relayout 1 "''gemm''" "''submit''" 5] r show ?thesis
    by (auto simp del: One_nat_def)
qed

end
