(* ===== verification/Results_Finals.thy ===== *)
theory Results_Finals
  imports Results_Write "HOL-Library.Product_Lexorder" "HOL-Library.Multiset"
begin

text \<open>
  One final row per submission and protocol (\<open>final_row_groups\<close>, \<open>move_grade_children\<close>, \<open>collapse_finals\<close> of
  \<open>harness/results_db.py\<close>), and copying one grade into another file (\<open>copy_grade\<close>).
\<close>

section \<open>Which final rows are one\<close>

datatype protocol_change =
    NEW_ROW
  | REPLACE

type_synonym final_row = "int \<times> string \<times> int"

definition stamp :: "final_row \<Rightarrow> string" where
  "stamp row = fst (snd row)"

text \<open>The sort key: a stamped row before an unstamped one, then the newer one.\<close>

definition final_rank :: "final_row \<Rightarrow> bool \<times> int \<times> int" where
  "final_rank row = (stamp row \<noteq> [], snd (snd row), fst row)"

text \<open>\<open>sorted(..., reverse=True)\<close> keeps the order of equal elements.\<close>

definition ranked_rows :: "final_row list \<Rightarrow> final_row list" where
  "ranked_rows rows = rev (sort_key final_rank (rev rows))"

definition group_into :: "(string, int list) dict \<Rightarrow> string \<Rightarrow> int \<Rightarrow> (string, int list) dict" where
  "group_into groups s i = dict_set s ((case map_of groups s of None \<Rightarrow> [] | Some ids \<Rightarrow> ids) @ [i]) groups"

definition group_name :: "string \<Rightarrow> final_row \<Rightarrow> string" where
  "group_name newest row = (if stamp row \<noteq> [] then stamp row else newest)"

definition final_row_groups :: "final_row list \<Rightarrow> protocol_change \<Rightarrow> int list list res" where
  "final_row_groups rows on_change =
     (let ranked = ranked_rows rows
      in if on_change = REPLACE then Inr [map fst ranked]
         else case ranked of
             [] \<Rightarrow> Inl IndexError
           | first # _ \<Rightarrow>
               if stamp first = [] then Inr [map fst ranked]
               else Inr (map snd (foldl (\<lambda>groups row. group_into groups (group_name (stamp first) row) (fst row)) [] ranked)))"

section \<open>Collapsing them\<close>

definition GRADE_CHILDREN :: "string list" where
  "GRADE_CHILDREN = [''disqualifications'', ''scaling_points'', ''scaling_grades'', ''grade_cells'', ''grade_requests'', ''grade_sources'']"

definition of_grade :: "int list \<Rightarrow> sql_row \<Rightarrow> bool" where
  "of_grade ids r \<longleftrightarrow> list_ex (\<lambda>i. field r ''grade_id'' = SInt i) ids"

text \<open>A DELETE fails when a row left behind refers to one it removed.\<close>

definition consistent :: "results \<Rightarrow> bool" where
  "consistent db \<longleftrightarrow> list_all (\<lambda>(table, _). list_all (\<lambda>(_, r). references_ok db table r) (db table)) FOREIGN_KEYS"

definition delete_rows :: "results \<Rightarrow> string \<Rightarrow> (int \<times> sql_row \<Rightarrow> bool) \<Rightarrow> results res" where
  "delete_rows db table P =
     (let db' = db(table := filter (\<lambda>x. \<not> P x) (db table))
      in if consistent db' then Inr db' else Inl (SqlError ''FOREIGN KEY''))"

definition move_table :: "int \<Rightarrow> int \<Rightarrow> results \<Rightarrow> string \<Rightarrow> results res" where
  "move_table source target db table =
     foldE (\<lambda>db (_, r). bindE (insert_row db table (dict_set ''grade_id'' (SInt target) r)) (\<lambda>(db', _). Inr db')) db
       (filter (\<lambda>(_, r). of_grade [source] r) (db table))"

definition move_grade_children :: "results \<Rightarrow> int \<Rightarrow> int \<Rightarrow> results res" where
  "move_grade_children db source target =
     bindE (foldE (move_table source target) db (rev GRADE_CHILDREN)) (\<lambda>db'.
       foldE (\<lambda>db table. delete_rows db table (\<lambda>(_, r). of_grade [source] r)) db' GRADE_CHILDREN)"

text \<open>Deleting a grade deletes the rows of its request with it (\<open>ON DELETE CASCADE\<close>).\<close>

definition delete_grades :: "results \<Rightarrow> int list \<Rightarrow> results res" where
  "delete_grades db ids =
     delete_rows (db(''grade_requests'' := filter (\<lambda>(_, r). \<not> of_grade ids r) (db ''grade_requests''))) ''grades''
       (\<lambda>(i, _). i \<in> set ids)"

definition row_with_id :: "results \<Rightarrow> string \<Rightarrow> int \<Rightarrow> sql_row res" where
  "row_with_id db table i = (case map_of (db table) i of None \<Rightarrow> Inl (TypeError ''None'') | Some r \<Rightarrow> Inr r)"

definition collapse_group :: "results \<times> int \<Rightarrow> int list \<Rightarrow> (results \<times> int) res" where
  "collapse_group st ranked =
     (case st of (db, removed) \<Rightarrow>
        if length ranked < 2 then Inr st
        else
          let winner = hd ranked; keep = Min (set ranked);
              stale = filter (\<lambda>i. i \<noteq> winner) ranked; doomed = filter (\<lambda>i. i \<noteq> keep) ranked
          in bindE (foldE (\<lambda>db table. delete_rows db table (\<lambda>(_, r). of_grade stale r)) db GRADE_CHILDREN) (\<lambda>db.
             bindE (row_with_id db ''grades'' winner) (\<lambda>best.
             bindE (if winner \<noteq> keep then move_grade_children db winner keep else Inr db) (\<lambda>db.
             bindE (delete_grades db doomed) (\<lambda>db.
               Inr (if winner \<noteq> keep then set_row db ''grades'' keep best else db, removed + int (length doomed)))))))"

definition final_entry :: "string list \<Rightarrow> int \<times> sql_row \<Rightarrow> (int \<times> final_row) option" where
  "final_entry apart = (\<lambda>(i, r).
     if field r ''kind'' = SText ''final'' \<and> field r ''of_grade_id'' \<noteq> SNull \<and>
        text_of (field r ''timing_reduction'') \<notin> set apart
     then (case (field r ''of_grade_id'', field r ''ts_ms'') of
        (SInt g, SInt ts) \<Rightarrow> Some (g, i, text_of (field r ''timing_reduction''), ts) | _ \<Rightarrow> None)
     else None)"

definition by_submission :: "(int \<times> final_row) list \<Rightarrow> (int, final_row list) dict" where
  "by_submission entries =
     foldl (\<lambda>d (g, row). dict_set g ((case map_of d g of None \<Rightarrow> [] | Some rows \<Rightarrow> rows) @ [row]) d) [] entries"

definition collapse_finals :: "results \<Rightarrow> string list \<Rightarrow> protocol_change \<Rightarrow> (results \<times> int) res" where
  "collapse_finals db apart on_change =
     foldE (\<lambda>st rows. bindE (final_row_groups rows on_change) (foldE collapse_group st)) (db, 0)
       (map snd (by_submission (List.map_filter (final_entry apart) (db ''grades''))))"

section \<open>Copying a grade\<close>

definition copy_one_grade ::
  "(string \<Rightarrow> string) \<Rightarrow> results \<Rightarrow> int \<Rightarrow> results \<times> (int, int) dict \<Rightarrow> (results \<times> (int, int) dict) res" where
  "copy_one_grade digest src grade_id st =
     (case st of (dest, copied) \<Rightarrow>
        bindE (row_with_id src ''grades'' grade_id) (\<lambda>grade.
        bindE (case field grade ''episode_id'' of SInt e \<Rightarrow> row_with_id src ''episodes'' e | _ \<Rightarrow> Inl (TypeError ''None'')) (\<lambda>run.
        bindE (case find (\<lambda>(_, s). field s ''setup'' = field run ''setup'') (src ''setups'') of
                 None \<Rightarrow> Inl (TypeError ''None'') | Some (_, s) \<Rightarrow> Inr s) (\<lambda>setup_row.
        bindE (upsert dest ''setups'' setup_row False) (\<lambda>(dest, _).
        bindE (upsert dest ''episodes'' run True) (\<lambda>(dest, episode).
        bindE (case field grade ''of_grade_id'' of
                 SInt g \<Rightarrow> bindE (dict_item (\<lambda>_. KeyError ''id'') copied g) (\<lambda>n. Inr (SInt n)) | _ \<Rightarrow> Inr SNull) (\<lambda>of_id.
        bindE (upsert dest ''grades'' (dict_set ''of_grade_id'' of_id (dict_set ''episode_id'' (SInt episode) grade)) False) (\<lambda>(dest, new).
        bindE (foldE (\<lambda>d (part, language, source, _). bindE (store_source digest d new part language source) (\<lambda>(d', _). Inr d'))
                 dest (grade_sources src grade_id)) (\<lambda>dest.
        bindE (foldE (\<lambda>d entry. bindE (upsert d ''grade_requests'' (dict_set ''grade_id'' (SInt new) entry) False) (\<lambda>(d', _). Inr d'))
                 dest (sort_key row_position (rows_of_grade src ''grade_requests'' grade_id))) (\<lambda>dest.
          Inr (dest, dict_set grade_id new copied)))))))))))"

definition copy_grade :: "(string \<Rightarrow> string) \<Rightarrow> results \<Rightarrow> int \<Rightarrow> results \<Rightarrow> (results \<times> int) res" where
  "copy_grade digest src grade_id dest =
     (case map_of (src ''grades'') grade_id of
        None \<Rightarrow> Inl (KeyError ''holds no grade'')
      | Some r \<Rightarrow>
          bindE (case field r ''of_grade_id'' of
              SInt g \<Rightarrow> bindE (row_with_id src ''grades'' g) (\<lambda>o'.
                if field o' ''kind'' \<in> {SText ''final'', SText ''regrade''} then Inl (ValueError ''re-times a re-time'') else Inr [g, grade_id])
            | _ \<Rightarrow> Inr [grade_id]) (\<lambda>chain.
          bindE (foldE (\<lambda>st one. copy_one_grade digest src one st) (dest, []) chain) (\<lambda>(dest', copied).
          bindE (dict_item (\<lambda>_. KeyError ''id'') copied grade_id) (\<lambda>new. Inr (dest', new)))))"
section \<open>The groups\<close>

lemma mset_ranked: "mset (ranked_rows rows) = mset rows"
  by (simp add: ranked_rows_def)

lemma set_ranked: "set (ranked_rows rows) = set rows"
  by (simp add: ranked_rows_def)

lemma ranked_desc: "sorted_wrt (\<lambda>a b. final_rank b \<le> final_rank a) (ranked_rows rows)"
proof -
  have "sorted (map final_rank (sort_key final_rank (rev rows)))"
    by simp
  then have "sorted_wrt (\<lambda>a b. final_rank a \<le> final_rank b) (sort_key final_rank (rev rows))"
    by (simp only: sorted_map)
  then show ?thesis
    by (simp add: ranked_rows_def sorted_wrt_rev)
qed

lemma desc_hd: "sorted_wrt (\<lambda>a b. final_rank b \<le> final_rank a) rows \<Longrightarrow> r \<in> set rows \<Longrightarrow> final_rank r \<le> final_rank (hd rows)"
  by (cases rows) auto

text \<open>Grouping by a name keeps each group's rows in order and names each group once.\<close>

lemma group_fold:
  "let d = foldl (\<lambda>groups row. group_into groups (name row) (fst row)) [] (rows :: final_row list)
   in distinct (map fst d) \<and> (\<forall>n. map_of d n = (if n \<in> name ` set rows then Some (map fst (filter (\<lambda>r. name r = n) rows)) else None))"
proof (induction rows rule: rev_induct)
  case (snoc row rows)
  let ?d = "foldl (\<lambda>groups row. group_into groups (name row) (fst row)) [] rows"
  have IH: "distinct (map fst ?d)" "\<And>n. map_of ?d n = (if n \<in> name ` set rows then Some (map fst (filter (\<lambda>r. name r = n) rows)) else None)"
    using snoc by (simp_all add: Let_def)
  have "(case map_of ?d (name row) of None \<Rightarrow> [] | Some ids \<Rightarrow> ids) = map fst (filter (\<lambda>r. name r = name row) rows)"
    by (auto simp: IH(2) filter_empty_conv image_iff)
  then show ?case
    using IH by (auto simp: Let_def group_into_def AList.distinct_update AList.update_conv')
qed simp

lemma filters_partition:
  "distinct names \<Longrightarrow> (\<And>r. r \<in> set rows \<Longrightarrow> name r \<in> set names) \<Longrightarrow>
     mset (concat (map (\<lambda>n. filter (\<lambda>r. name r = n) rows) names)) = mset rows"
proof (induction rows)
  case (Cons r rows)
  have "mset (concat (map (\<lambda>n. filter (\<lambda>x. name x = n) (r # rows)) ns)) =
      mset (concat (map (\<lambda>n. filter (\<lambda>x. name x = n) rows) ns)) + (if name r \<in> set ns then {#r#} else {#})"
    if "distinct ns" for ns
    using that by (induction ns) auto
  from this [OF Cons.prems(1)] Cons show ?case
    by simp
qed (induction names, auto)

lemma groups_cases:
  assumes "final_row_groups rows on_change = Inr groups"
  obtains (one) "groups = [map fst (ranked_rows rows)]" "on_change = REPLACE \<or> (\<forall>r \<in> set rows. stamp r = [])"
  | (several) newest names where "on_change = NEW_ROW" "newest \<in> set rows" "stamp newest \<noteq> []"
      "\<And>r. r \<in> set rows \<Longrightarrow> final_rank r \<le> final_rank newest"
      "distinct names" "set names = group_name (stamp newest) ` set rows"
      "groups = map (\<lambda>n. map fst (filter (\<lambda>r. group_name (stamp newest) r = n) (ranked_rows rows))) names"
proof (cases "on_change = REPLACE")
  case True
  with assms show ?thesis
    by (intro one) (simp_all add: final_row_groups_def)
next
  case False
  then have new: "on_change = NEW_ROW"
    by (cases on_change) simp_all
  with assms obtain newest rest where ranked: "ranked_rows rows = newest # rest"
    by (cases "ranked_rows rows") (simp_all add: final_row_groups_def)
  have top: "final_rank r \<le> final_rank newest" if "r \<in> set rows" for r
    using desc_hd [OF ranked_desc, of r rows] that unfolding set_ranked by (simp add: ranked)
  show ?thesis
  proof (cases "stamp newest = []")
    case True
    have "stamp r = []" if "r \<in> set rows" for r
      using top [OF that] True by (auto simp: final_rank_def)
    with True assms new ranked show ?thesis
      by (intro one) (simp_all add: final_row_groups_def)
  next
    case False
    let ?name = "group_name (stamp newest)"
    let ?d = "foldl (\<lambda>groups row. group_into groups (?name row) (fst row)) [] (ranked_rows rows)"
    have d: "distinct (map fst ?d)" "\<And>n. map_of ?d n = (if n \<in> ?name ` set rows then Some (map fst (filter (\<lambda>r. ?name r = n) (ranked_rows rows))) else None)"
      using group_fold [of ?name "ranked_rows rows"] by (simp_all add: Let_def set_ranked)
    have names: "set (map fst ?d) = ?name ` set rows"
    proof -
      have "n \<in> set (map fst ?d) \<longleftrightarrow> n \<in> ?name ` set rows" for n
      proof -
        have "n \<in> set (map fst ?d) \<longleftrightarrow> map_of ?d n \<noteq> None"
          by (simp add: map_of_eq_None_iff)
        then show ?thesis
          by (simp only: d(2) split: if_split) simp
      qed
      then show ?thesis
        by blast
    qed
    have "map snd ?d = map (\<lambda>n. map fst (filter (\<lambda>r. ?name r = n) (ranked_rows rows))) (map fst ?d)"
    proof (rule nth_equalityI)
      fix i assume "i < length (map snd ?d)"
      then have "(fst (?d ! i), snd (?d ! i)) \<in> set ?d"
        by simp
      then have "map_of ?d (fst (?d ! i)) = Some (snd (?d ! i))"
        using d(1) by (intro map_of_is_SomeI)
      then show "map snd ?d ! i = map (\<lambda>n. map fst (filter (\<lambda>r. ?name r = n) (ranked_rows rows))) (map fst ?d) ! i"
        using \<open>i < length (map snd ?d)\<close> d(2) by (simp split: if_splits)
    qed simp
    moreover have "groups = map snd ?d"
      using assms new ranked False by (simp add: final_row_groups_def)
    moreover have "newest \<in> set rows"
      using set_ranked [of rows] ranked by auto
    ultimately show ?thesis
      using new False top d(1) names by (intro several [of newest "map fst ?d"]) simp_all
  qed
qed



end
