(* ===== verification/Denominators.thy ===== *)
theory Denominators
  imports Grade_Records
begin

text \<open>
  The reference a grade's speedup divides by (\<open>harness/denominator.py\<close>): the registered denominators, and the one a
  grade's stamp and raced references show.
\<close>

datatype denominator =
    NUMBA
  | C
  | C_AUTOPAR
  | VENDORED
  | BEST_OF_NUMBA_C
  | BEST_OF_NUMBA_C_AUTOPAR
  | TORCH_AUTOTUNE

definition KINDS :: "(denominator \<times> string list) list" where
  "KINDS =
     [(NUMBA, [''numba'']), (C, [''c'']), (C_AUTOPAR, [''c-autopar'']), (VENDORED, [''vendored'']),
      (BEST_OF_NUMBA_C, [''c'', ''numba'']), (BEST_OF_NUMBA_C_AUTOPAR, [''c-autopar'', ''c'', ''numba'']),
      (TORCH_AUTOTUNE, [''torch-autotune''])]"

fun denominator_text :: "denominator \<Rightarrow> string" where
  "denominator_text NUMBA = ''numba''"
| "denominator_text C = ''c''"
| "denominator_text C_AUTOPAR = ''c-autopar''"
| "denominator_text VENDORED = ''vendored''"
| "denominator_text BEST_OF_NUMBA_C = ''best-of(numba,c)''"
| "denominator_text BEST_OF_NUMBA_C_AUTOPAR = ''best-of(numba,c,c-autopar)''"
| "denominator_text TORCH_AUTOTUNE = ''torch-autotune''"

definition SINGLE_STAMP :: string where
  "SINGLE_STAMP = ''single-v1''"

definition BEST_OF_STAMPS :: "string list" where
  "BEST_OF_STAMPS = [''best-of-v1'', ''best-of-v2'', ''best-of-v3'', ''best-of-v4'']"

definition SET_STAMPS :: "string list" where
  "SET_STAMPS = [''best-of-v1'', ''best-of-v4'']"

definition AUTOPAR :: string where
  "AUTOPAR = ''c-autopar''"

definition TORCH_KINDS :: "string list" where
  "TORCH_KINDS = [''torch-autotune-cpu'', ''torch-autotune-gpu'']"

definition of_stored :: "string \<Rightarrow> denominator option" where
  "of_stored recorded = find (\<lambda>d. denominator_text d = py_strip recorded) (map fst KINDS)"

definition torch_named :: "string \<Rightarrow> string" where
  "torch_named kind = (if kind \<in> set TORCH_KINDS then denominator_text TORCH_AUTOTUNE else kind)"

definition of_kinds :: "string list \<Rightarrow> denominator option" where
  "of_kinds kinds = map_option fst (find (\<lambda>(_, raced). set raced = torch_named ` set kinds) KINDS)"

definition denominator_of_grade :: "string \<Rightarrow> string list \<Rightarrow> string \<Rightarrow> denominator option" where
  "denominator_of_grade stamp raced winner =
     (let (policy, listed) = py_partition (CHR '':'') (py_strip stamp)
      in if listed = None \<or> listed = Some [] then None
         else
           (let kinds = filter (\<lambda>k. k \<noteq> []) (split_on (CHR ''+'') (the listed))
            in if policy = SINGLE_STAMP then (if length kinds = 1 then of_kinds kinds else None)
               else if policy \<notin> set BEST_OF_STAMPS then None
               else
                 (let named = of_kinds kinds
                  in if named \<noteq> Some BEST_OF_NUMBA_C \<or> policy \<in> set SET_STAMPS then named
                     else
                       (let seen = filter (\<lambda>e. e \<noteq> []) raced
                        in if seen = [] then None
                           else if AUTOPAR \<in> set (concat (map (split_on (CHR ''+'')) seen)) \<union> {winner} then None
                           else named))))"

definition realized_candidates :: "timed_cell \<Rightarrow> string" where
  "realized_candidates c = (if tc_baseline_candidates c \<noteq> [] then tc_baseline_candidates c else tc_baseline c)"

definition grade_denominator :: "score \<Rightarrow> denominator option" where
  "grade_denominator s =
     denominator_of_grade (case s_baseline_policy s of Some p \<Rightarrow> p | None \<Rightarrow> []) (map realized_candidates (s_cells s)) (s_baseline s)"

definition stored_denominator :: "denominator option \<Rightarrow> string option" where
  "stored_denominator found = map_option denominator_text found"

section \<open>What a denominator shows\<close>

lemma of_kinds_raced: "of_kinds kinds = Some d \<Longrightarrow> map_of KINDS d = Some raced \<Longrightarrow> torch_named ` set kinds = set raced"
proof -
  assume d: "of_kinds kinds = Some d" and raced: "map_of KINDS d = Some raced"
  then obtain r where "(d, r) \<in> set KINDS" "set r = torch_named ` set kinds"
    by (auto simp: of_kinds_def dest!: find_SomeD)
  moreover have "distinct (map fst KINDS)"
    by code_simp
  ultimately show ?thesis
    using raced by simp
qed

text \<open>A denominator is stored as a text that reads back.\<close>

lemma of_stored_text: "of_stored (denominator_text d) = Some d"
proof -
  have "list_all (\<lambda>d. of_stored (denominator_text d) = Some d) (map fst KINDS)"
    by code_simp
  moreover have "d \<in> set (map fst KINDS)"
    by (cases d) (simp_all add: KINDS_def)
  ultimately show ?thesis
    by (auto simp: list_all_iff)
qed

text \<open>A grade credited against numba and c under a policy that let c-autopar stand in was never timed against it.\<close>

lemma autopar_never_stood_in:
  assumes "denominator_of_grade stamp raced winner = Some BEST_OF_NUMBA_C"
    "fst (py_partition (CHR '':'') (py_strip stamp)) \<notin> set SET_STAMPS" "entry \<in> set raced" "entry \<noteq> []"
  shows "AUTOPAR \<notin> set (split_on (CHR ''+'') entry)" "winner \<noteq> AUTOPAR"
proof -
  obtain policy listed where p: "py_partition (CHR '':'') (py_strip stamp) = (policy, listed)"
    by (cases "py_partition (CHR '':'') (py_strip stamp)")
  let ?kinds = "filter (\<lambda>k. k \<noteq> []) (split_on (CHR ''+'') (the listed))"
  have "\<not> (length ?kinds = 1 \<and> of_kinds ?kinds = Some BEST_OF_NUMBA_C)"
  proof
    assume k: "length ?kinds = 1 \<and> of_kinds ?kinds = Some BEST_OF_NUMBA_C"
    then obtain x where "?kinds = [x]"
      by (cases ?kinds) auto
    moreover have "map_of KINDS BEST_OF_NUMBA_C = Some [''c'', ''numba'']"
      by code_simp
    ultimately have "{torch_named x} = {''c'', ''numba''}"
      using of_kinds_raced [of ?kinds BEST_OF_NUMBA_C "[''c'', ''numba'']"] k by simp
    moreover have "''c'' \<noteq> ''numba''"
      by simp
    ultimately show False
      by (metis insertI1 insertI2 singletonD)
  qed
  then have "AUTOPAR \<notin> set (concat (map (split_on (CHR ''+'')) (filter (\<lambda>e. e \<noteq> []) raced))) \<union> {winner}"
    using assms(1,2) p by (auto simp: denominator_of_grade_def Let_def split: if_splits)
  with assms(3,4) show "AUTOPAR \<notin> set (split_on (CHR ''+'') entry)" "winner \<noteq> AUTOPAR"
    by auto
qed

end
