(* ===== verification/Record_Replay.thy ===== *)
theory Record_Replay
  imports Record_Grade
begin

text \<open>
  A submission recorded once is recognised when it is posted again (\<open>submit_recorded\<close> of \<open>harness/recording.py\<close>): the row
  and the sources \<open>record\<close> wrote are the ones the test looks for.
\<close>

section \<open>A replayed submission is recognised\<close>

lemma open_episode_label:
  assumes "open_episode env db ep lang = Inr (db', run)" "results_ok db"
  shows "\<exists>e. (run, e) \<in> set (db' ''episodes'') \<and> field e ''label'' = SText ep"
proof -
  obtain db1 u where "results_ok db1" and up: "upsert db1 ''episodes''
      [(''setup'', SText u), (''job'', SInt (job_tag env)), (''label'', SText ep), (''slot'', SInt (slot_of ep))] False = Inr (db', run)"
    using assms by (auto simp: open_episode_def ensure_setup_def ensure_episode_def Let_def bindE_Inr_iff dest: upsert_ok)
  let ?vals = "[(''setup'', SText u), (''job'', SInt (job_tag env)), (''label'', SText ep), (''slot'', SInt (slot_of ep))]"
  let ?r = "completed ''episodes'' (non_null ?vals)"
  have key: "natural_key ''episodes'' = [''job'', ''label'']"
    by code_simp
  have "''label'' \<in> set (map col_name (columns_of ''episodes''))"
    by code_simp
  then obtain c where c: "c \<in> set (columns_of ''episodes'')" "''label'' = col_name c"
    by (auto simp only: set_map)
  have label: "field ?r ''label'' = SText ep"
    using field_completed [OF c(1), of "non_null ?vals"] unfolding c(2) [symmetric] by (simp add: non_null_def)
  consider s where "holder db1 ''episodes'' ?r = Some (run, s)" "db' = db1" | "append_row db1 ''episodes'' ?r = Inr (db', run)"
    using upsertD(3) [OF up] by auto
  then show ?thesis
  proof cases
    case 1
    then show ?thesis
      using holderD [OF 1(1)] label by (auto simp: index_key_def key)
  next
    case 2
    then show ?thesis
      using append_rowD [OF 2] label by auto
  qed
qed

lemma submit_value_library:
  "map_of (submit_row_values env s g sub task j status tokens phase f index) ''library_hash'' = Some (SText (library_hash env sub))"
proof -
  have "distinct (map fst (submission_envelope env sub))"
    by (simp add: submission_envelope_def envelope_values_def)
  then show ?thesis
    unfolding submit_row_values_def submit_values_def shared_values_def foldl.simps
    by (simp add: AList.update_conv' map_of_dict_merge_other map_of_dict_merge submit_columns Let_def split: option.split)
qed

lemma submit_kind_recorded: "submit_kind opt \<in> set SUBMIT_KINDS"
  by (auto simp: submit_kind_def ORIGIN_KINDS_def SUBMIT_KINDS_def split: option.split dest!: map_of_SomeD)

text \<open>The units stored for a grade.\<close>

definition units_stored :: "(string \<Rightarrow> string) \<Rightarrow> results \<Rightarrow> int \<Rightarrow> (string \<times> string) list \<Rightarrow> bool" where
  "units_stored digest db grade us \<longleftrightarrow>
     map (\<lambda>r. (field r ''part'', field r ''hash'')) (rows_of_grade db ''grade_sources'' grade) =
       map (\<lambda>(p, b). (SText p, SText (digest b))) us \<and>
     list_all (\<lambda>(p, b). \<exists>x \<in> set (db ''sources''). field (snd x) ''hash'' = SText (digest b)) us"

lemma concat_if: "concat (map (\<lambda>x. if P x then [g x] else []) xs) = map g (filter P xs)"
  by (induction xs) auto

lemma filter_unique: "distinct (map f xs) \<Longrightarrow> x \<in> set xs \<Longrightarrow> filter (\<lambda>y. f y = f x) xs = [x]"
  by (induction xs) (auto simp: filter_empty_conv image_iff)

text \<open>The digests a grade's sources are read back with.\<close>

lemma grade_digests:
  "map (\<lambda>(part, _, _, d). (part, d)) (grade_sources db grade) =
     concat (map (\<lambda>gs. map (\<lambda>x. (text_of (field gs ''part''), text_of (field gs ''hash'')))
       (filter (\<lambda>x. field (snd x) ''hash'' = field gs ''hash'') (db ''sources''))) (rows_of_grade db ''grade_sources'' grade))"
  by (simp add: grade_sources_def map_concat o_def split_beta if_distrib [of "map f" for f] concat_if cong: if_cong)

lemma source_unique:
  assumes "results_ok db" "x \<in> set (db ''sources'')" "field (snd x) ''hash'' = h"
  shows "filter (\<lambda>y. field (snd y) ''hash'' = h) (db ''sources'') = [x]"
proof -
  have key: "natural_key ''sources'' = [''hash'']"
    by code_simp
  have "distinct (map (\<lambda>x. field (snd x) ''hash'') (db ''sources''))"
    using assms(1) by (auto simp: results_ok_def table_ok_def index_key_def key distinct_map inj_on_def dest!: spec [of _ "''sources''"])
  from filter_unique [OF this assms(2)] show ?thesis
    using assms(3) by simp
qed

lemma units_stored_digests:
  assumes "results_ok db" "units_stored digest db grade us"
  shows "map (\<lambda>(part, _, _, d). (part, d)) (grade_sources db grade) = map (\<lambda>(p, b). (p, digest b)) us"
proof -
  let ?hit = "\<lambda>k. map (\<lambda>x. (text_of (fst k), text_of (snd k))) (filter (\<lambda>x. field (snd x) ''hash'' = snd k) (db ''sources''))"
  have one: "?hit (SText p, SText (digest b)) = [(p, digest b)]" if pb: "(p, b) \<in> set us" for p b
  proof -
    obtain x where "x \<in> set (db ''sources'')" "field (snd x) ''hash'' = SText (digest b)"
      using assms(2) pb by (fastforce simp: units_stored_def list_all_iff)
    then show ?thesis
      using source_unique [OF assms(1)] by (simp add: text_of_def)
  qed
  have "map (\<lambda>(part, _, _, d). (part, d)) (grade_sources db grade) =
      concat (map ?hit (map (\<lambda>r. (field r ''part'', field r ''hash'')) (rows_of_grade db ''grade_sources'' grade)))"
    by (simp add: grade_digests o_def)
  also have "\<dots> = concat (map ?hit (map (\<lambda>(p, b). (SText p, SText (digest b))) us))"
    using assms(2) by (simp only: units_stored_def)
  also have "\<dots> = concat (map (\<lambda>(p, b). [(p, digest b)]) us)"
    using one by (auto intro!: arg_cong [where f = concat] simp: split_beta)
  also have "\<dots> = map (\<lambda>(p, b). (p, digest b)) us"
    by (induction us) auto
  finally show ?thesis .
qed

lemma field_of_values:
  assumes "k \<in> set (map col_name (columns_of table))" "distinct (map fst vals)" "map_of vals k = Some v" "v \<noteq> SNull"
  shows "field (completed table (non_null vals)) k = v"
proof -
  obtain c where c: "c \<in> set (columns_of table)" "k = col_name c"
    using assms(1) by (auto simp only: set_map)
  show ?thesis
    using field_completed [OF c(1), of "non_null vals"] assms(2-) unfolding c(2) [symmetric] by (simp add: map_of_non_null)
qed

lemma source_row_added:
  assumes "(if holder db ''sources'' (completed ''sources'' row) = None
      then bindE (insert_row db ''sources'' row) (\<lambda>(db', _). Inr db') else Inr db) = Inr db1"
    "row = [(''hash'', SText h), (''text'', SText src)]"
  shows "\<exists>x \<in> set (db1 ''sources''). field (snd x) ''hash'' = SText h" "set (db ''sources'') \<subseteq> set (db1 ''sources'')"
proof -
  have key: "natural_key ''sources'' = [''hash'']" and named: "''hash'' \<in> set (map col_name (columns_of ''sources''))"
    by code_simp+
  have row: "non_null row = row" "field (completed ''sources'' row) ''hash'' = SText h"
    using field_of_values [OF named, of row "SText h"] assms(2) by (simp_all add: non_null_def)
  show "\<exists>x \<in> set (db1 ''sources''). field (snd x) ''hash'' = SText h" "set (db ''sources'') \<subseteq> set (db1 ''sources'')"
  proof (atomize (full), cases "holder db ''sources'' (completed ''sources'' row)")
    case None
    then obtain i where ins: "insert_row db ''sources'' row = Inr (db1, i)"
      using assms(1) by (auto simp: bindE_Inr_iff)
    from append_rowD(1) [OF insert_rowD(3) [OF ins]] row
    show "(\<exists>x \<in> set (db1 ''sources''). field (snd x) ''hash'' = SText h) \<and> set (db ''sources'') \<subseteq> set (db1 ''sources'')"
      by auto
  next
    case (Some x)
    have "x \<in> set (db ''sources'')" "field (snd x) ''hash'' = SText h"
      using holderD [of db "''sources''" _ "fst x" "snd x"] Some row(2) by (auto simp: index_key_def key)
    with Some assms(1) show "(\<exists>x \<in> set (db1 ''sources''). field (snd x) ''hash'' = SText h) \<and> set (db ''sources'') \<subseteq> set (db1 ''sources'')"
      by auto
  qed
qed

lemma store_source_stored:
  assumes "results_ok db" "units_stored digest db g us" "p \<notin> fst ` set us" "store_source digest db g p lang b = Inr (db', h)"
  shows "units_stored digest db' g (us @ [(p, b)])"
proof -
  let ?gs = "[(''grade_id'', SInt g), (''part'', SText p), (''language'', SText lang), (''hash'', SText (digest b))]"
  let ?new = "completed ''grade_sources'' (non_null ?gs)"
  let ?src = "[(''hash'', SText (digest b)), (''text'', SText b)]"
  obtain db1 i where s1: "(if holder db ''sources'' (completed ''sources'' ?src) = None
      then bindE (insert_row db ''sources'' ?src) (\<lambda>(db', _). Inr db') else Inr db) = Inr db1"
    and up: "upsert db1 ''grade_sources'' ?gs False = Inr (db', i)"
    using assms(4) by (auto simp: store_source_def Let_def bindE_Inr_iff)
  note src = source_row_added [OF s1 refl]
  have same: "db1 ''grade_sources'' = db ''grade_sources''"
    using s1 by (auto simp: bindE_Inr_iff split: if_splits dest: insert_row_other [of _ "''sources''" _ _ _ "''grade_sources''"])
  have key: "natural_key ''grade_sources'' = [''grade_id'', ''part'']"
    by code_simp
  have named: "''grade_id'' \<in> set (map col_name (columns_of ''grade_sources''))" "''part'' \<in> set (map col_name (columns_of ''grade_sources''))"
    "''hash'' \<in> set (map col_name (columns_of ''grade_sources''))"
    by code_simp+
  have new: "field ?new ''grade_id'' = SInt g" "field ?new ''part'' = SText p" "field ?new ''hash'' = SText (digest b)"
    using field_of_values [OF named(1), of ?gs "SInt g"] field_of_values [OF named(2), of ?gs "SText p"]
      field_of_values [OF named(3), of ?gs "SText (digest b)"] by simp_all
  have "holder db1 ''grade_sources'' ?new = None"
  proof (rule ccontr)
    assume "holder db1 ''grade_sources'' ?new \<noteq> None"
    then obtain rid s where "(rid, s) \<in> set (db ''grade_sources'')" "index_key ''grade_sources'' s = index_key ''grade_sources'' ?new"
      using holderD same by fastforce
    then have s: "(rid, s) \<in> set (db ''grade_sources'')" "field s ''grade_id'' = SInt g" "field s ''part'' = SText p"
      using new(1,2) by (simp_all add: index_key_def key)
    then have "s \<in> set (rows_of_grade db ''grade_sources'' g)"
      by (force simp: rows_of_grade_def)
    then have "(field s ''part'', field s ''hash'') \<in> set (map (\<lambda>r. (field r ''part'', field r ''hash'')) (rows_of_grade db ''grade_sources'' g))"
      by simp
    also have "\<dots> = set (map (\<lambda>(p, b). (SText p, SText (digest b))) us)"
      using assms(2) by (simp only: units_stored_def)
    finally show False
      using s(3) assms(3) by force
  qed
  then have db': "append_row db1 ''grade_sources'' ?new = Inr (db', i)"
    using upsertD(3) [OF up] by auto
  have rows: "rows_of_grade db' ''grade_sources'' g = rows_of_grade db ''grade_sources'' g @ [?new]" "db' ''sources'' = db1 ''sources''"
    using append_rowD(1) [OF db'] same new(1) by (simp_all add: rows_of_grade_def)
  have old: "map (\<lambda>r. (field r ''part'', field r ''hash'')) (rows_of_grade db ''grade_sources'' g) = map (\<lambda>(p, b). (SText p, SText (digest b))) us"
    "list_all (\<lambda>(p, b). \<exists>x \<in> set (db ''sources''). field (snd x) ''hash'' = SText (digest b)) us"
    using assms(2) by (simp_all only: units_stored_def)
  have "list_all (\<lambda>(p, b). \<exists>x \<in> set (db1 ''sources''). field (snd x) ''hash'' = SText (digest b)) us"
    by (rule list.pred_mono_strong [OF old(2)]) (use src(2) in auto)
  then show ?thesis
    unfolding units_stored_def rows map_append old(1) using new(2,3) src(1) by simp
qed

lemma delivery_stored:
  assumes "foldE (\<lambda>db (part, body). bindE (store_source digest db g part lang body) (\<lambda>(db', _). Inr db')) db us = Inr db'"
    "results_ok db" "units_stored digest db g seen" "distinct (map fst (seen @ us))"
  shows "units_stored digest db' g (seen @ us)"
  using assms
proof (induction us arbitrary: db seen)
  case (Cons x us)
  obtain p b where x: "x = (p, b)"
    by (cases x)
  obtain db1 h where s: "store_source digest db g p lang b = Inr (db1, h)"
    and run: "foldE (\<lambda>db (part, body). bindE (store_source digest db g part lang body) (\<lambda>(db', _). Inr db')) db1 us = Inr db'"
    using Cons.prems(1) x by (auto simp: bindE_Inr_iff)
  have "units_stored digest db1 g (seen @ [(p, b)])"
    using Cons.prems(4) x by (intro store_source_stored [OF Cons.prems(2,3) _ s]) auto
  moreover have "results_ok db1"
    using touchesD(1) [OF store_source_touches [OF s]] Cons.prems(2) by blast
  ultimately show ?case
    using Cons.IH [OF run, of "seen @ [(p, b)]"] Cons.prems(4) x by simp
qed simp

lemma delivered_parts: "distinct (map fst (delivered_units sub))"
  by (auto simp: delivered_units_def List.map_filter_def split: option.splits)

text \<open>A fresh grade has no sources: every stored one refers to a grade that exists.\<close>

lemma fresh_grade_unstored:
  assumes "results_ok db" "consistent db" "g \<notin> fst ` set (db ''grades'')"
  shows "rows_of_grade db ''grade_sources'' g = []"
proof -
  have fk: "map_of FOREIGN_KEYS ''grade_sources'' = Some [([''grade_id''], ''grades'', [''id'']), ([''hash''], ''sources'', [''hash''])]"
    by code_simp
  have "references_ok db ''grade_sources'' r" if "(rid, r) \<in> set (db ''grade_sources'')" for rid r
    using assms(2) map_of_SomeD [OF fk] that by (auto simp: consistent_def list_all_iff)
  then have "field r ''grade_id'' \<noteq> SInt g" if "(rid, r) \<in> set (db ''grade_sources'')" for rid r
    using that assms(3) by (fastforce simp: references_ok_def fk refers_def list_ex_iff image_iff)
  then show ?thesis
    by (auto simp: rows_of_grade_def filter_empty_conv)
qed

text \<open>What \<open>record\<close> wrote is what \<open>submit_recorded\<close> looks for.\<close>

lemma recognised_lemma:
  assumes "results_ok db" "consistent db" "final_ok final"
    and "record_submit c lib env db s g sub task j ep opt status tokens phase final laws ts now = Some (Inr (db', rd))"
    and "rd_grade rd = Some i" "(i, row) \<in> set (db' ''grades'')" "field row ''ts_ms'' = SInt t" "t \<le> ts + REPLAY_TWIN_WINDOW_MS"
  shows "submit_recorded env (before @ db' # after) ep (gt_kernel task) ts sub"
proof -
  let ?vals = "submit_row_values env s g sub task j status tokens phase final"
  have "s_speedup s \<noteq> Not_A_Number \<and> submit_run c lib env db s sub task j ep opt final ts ?vals db' i"
    using record_submit_spec [OF assms(1,3), of c lib env s g sub task j ep opt status tokens phase laws ts now] assms(4,5) by auto
  then obtain db0 run db1 u db2 rest where op: "open_episode env db ep None = Inr (db0, run)"
    and W: "grade_written lib db0 run (gt_kernel task) (submit_kind opt) ts (?vals (call_index db0 run (gt_kernel task))) db1 i u"
    and D: "store_delivery env db1 i sub = Inr db2" and ok: "results_ok db'"
    and rest: "db' ''grades'' = db2 ''grades'' @ rest"
    and others: "\<forall>t. t \<notin> {''grades'', ''grade_requests'', ''grade_cells'', ''scaling_grades'', ''scaling_points''} \<longrightarrow> db' t = db2 t"
    unfolding submit_run_def by (elim exE conjE) (rule that)
  note To = touchesD [OF open_touches [OF op]] and Td = touchesD [OF delivery_touches [OF D]]
  obtain e where e: "(run, e) \<in> set (db0 ''episodes'')" "field e ''label'' = SText ep"
    using open_episode_label [OF op assms(1)] by blast
  have ep': "db' ''episodes'' = db0 ''episodes''"
    using others Td(2) W by (simp add: grade_written_def)
  obtain q where q: "db1 ''grades'' = db0 ''grades'' @ [(i, stored_grade run (gt_kernel task) (submit_kind opt) (?vals (call_index db0 run (gt_kernel task))) q u)]"
    and fresh: "i = next_rowid (db0 ''grades'')" and ok1: "results_ok db1" and ts: "ts \<le> u"
    using W by (auto simp: grade_written_def Let_def)
  let ?row = "stored_grade run (gt_kernel task) (submit_kind opt) (?vals (call_index db0 run (gt_kernel task))) q u"
  have "(i, ?row) \<in> set (db' ''grades'')"
    using q rest Td(2) by simp
  moreover have "distinct (map fst (db' ''grades''))"
    using ok by (simp add: results_ok_def table_ok_def)
  ultimately have row: "row = ?row"
    using eq_key_imp_eq_value assms(6) by metis
  note K = stored_grade_key [OF submit_row_values_ok(1)]
  have "t = u"
    using K(1) assms(7) row by simp
  moreover have "field row ''library_hash'' = SText (library_hash env sub)"
    unfolding row stored_grade_value [OF submit_row_values_ok(2) grades_named(4)]
    by (simp add: stored_grade_value [OF submit_row_values_ok(2) grades_named(4)] submit_value_library)
  ultimately have replay: "replay_row db' ep (gt_kernel task) ts (library_hash env sub) row"
    using e ep' K assms(7,8) row ts submit_kind_recorded by (auto simp: replay_row_def list_ex_iff)
  have "rows_of_grade db1 ''grade_sources'' i = []"
    using fresh_grade_unstored [OF assms(1,2), of i] fresh next_rowid_above [of _ "db ''grades''"] To(2) W
    by (force simp: rows_of_grade_def grade_written_def)
  then have "units_stored (je_digest env) db1 i []"
    by (simp add: units_stored_def)
  from delivery_stored [OF D [unfolded store_delivery_def] ok1 this] delivered_parts
  have "units_stored (je_digest env) db2 i (delivered_units sub)"
    by simp
  then have "units_stored (je_digest env) db' i (delivered_units sub)"
    using others by (simp add: units_stored_def rows_of_grade_def)
  from units_stored_digests [OF ok this]
  have "map (\<lambda>(part, _, _, d). (part, d)) (grade_sources db' i) = delivery_hashes env sub"
    by (simp add: delivery_hashes_def)
  then have "same_dict (map (\<lambda>(part, _, _, d). (part, d)) (grade_sources db' i)) (delivery_hashes env sub)"
    by (simp add: same_dict_def list_all_iff)
  with replay assms(6) show ?thesis
    by (auto simp: submit_recorded_def list_ex_iff)
qed

lemma submit_stamped:
  assumes "results_ok db" "final_ok final"
    and "record_submit c lib env db s g sub task j ep opt status tokens phase final laws ts now = Some (Inr (db', rd))" "rd_grade rd = Some i"
  shows "\<exists>row t. (i, row) \<in> set (db' ''grades'') \<and> field row ''ts_ms'' = SInt t"
proof -
  let ?vals = "submit_row_values env s g sub task j status tokens phase final"
  have "submit_run c lib env db s sub task j ep opt final ts ?vals db' i"
    using record_submit_spec [OF assms(1,2), of c lib env s g sub task j ep opt status tokens phase laws ts now] assms(3,4) by auto
  then obtain db0 run db1 u db2 rest where
    W: "grade_written lib db0 run (gt_kernel task) (submit_kind opt) ts (?vals (call_index db0 run (gt_kernel task))) db1 i u"
    and D: "store_delivery env db1 i sub = Inr db2" and rest: "db' ''grades'' = db2 ''grades'' @ rest"
    unfolding submit_run_def by (elim exE conjE) (rule that)
  obtain q where "db1 ''grades'' = db0 ''grades'' @ [(i, stored_grade run (gt_kernel task) (submit_kind opt) (?vals (call_index db0 run (gt_kernel task))) q u)]"
    using W by (auto simp: grade_written_def Let_def)
  then show ?thesis
    using rest touchesD(2) [OF delivery_touches [OF D]] stored_grade_key(1) [OF submit_row_values_ok(1)]
    by (intro exI [of _ "stored_grade run (gt_kernel task) (submit_kind opt) (?vals (call_index db0 run (gt_kernel task))) q u"] exI [of _ u]) simp
qed

lemma sample_db_consistent: "consistent sample_db"
  by code_simp

section \<open>What a later recording keeps\<close>

lemma insert_at_free_ms_inserts:
  assumes "insert_at_free_ms db row ts = Some r"
  shows "\<forall>db' g t. r = Inr (db', g, t) \<longrightarrow> insert_row db ''grades'' (row t) = Inr (db', g)"
  by (rule insert_at_free_ms.raw_induct [OF _ assms]) (auto split: sum.splits if_splits)

lemma touches_union: "touches T a b \<Longrightarrow> touches U b c \<Longrightarrow> touches (T \<union> U) a c"
  by (simp add: touches_def)

lemma touches_all: "touches T a b \<Longrightarrow> touches UNIV a b"
  by (simp add: touches_def)

lemma add_grade_touches:
  assumes "add_grade c lib db run kern kind ts values = Some (Inr (db', g, t))"
  shows "touches {''grades'', ''grade_requests''} db db'"
proof -
  let ?T = "{''grades'', ''grade_requests''}"
  obtain rq db1 where "insert_at_free_ms db (grade_row run kern kind values (recorded_json lib rq)) ts = Some (Inr (db1, g, t))"
    and req: "add_requests c db1 g rq = Inr db'"
    using assms by (auto simp: add_grade_def bindE_Inr_iff split: sum.splits)
  from insert_at_free_ms_inserts [OF this(1), rule_format, OF refl] have "touches ?T db db1"
    by (rule insert_touches) simp
  moreover have "touches ?T db1 db'"
    using req by (auto simp: add_requests_def bindE_Inr_iff intro: insert_touches elim!: fold_touches)
  ultimately show ?thesis
    by (rule touches_trans)
qed

lemma record_final_touches:
  assumes "record_final c lib env db run kern i f task now = Some (Inr (db', g))"
  shows "touches {''grades'', ''grade_requests'', ''grade_cells''} db db'"
proof -
  obtain db1 g t where "add_grade c lib db run kern ''final'' now (dict_merge (dict_merge (fc_values f)
      (filter (\<lambda>(k, _). k \<in> {''preset'', ''datatype'', ''source_mode'', ''commit_sha'', ''task_hash''}) (stamp_values env task None)))
      [(''node'', SText (je_node env)), (''of_grade_id'', SInt i)]) = Some (Inr (db1, g, t))" "add_cells db1 g (fc_cells f) = Inr db'"
    using assms by (auto simp: record_final_def Let_def bindO_Inr bindE_Inr_iff)
  from touches_union [OF add_grade_touches [OF this(1)] cells_touch [OF this(2)]]
  show ?thesis
    by (simp add: insert_commute)
qed

lemma record_timed_touches:
  assumes "record_timed c lib env db run s j task i f now = Some (Inr db')"
  shows "touches {''grades'', ''grade_requests'', ''grade_cells''} db db'"
proof (cases f)
  case None
  then have "db' = db \<or> add_cells db i (map timed_cell_row (s_cells s)) = Inr db'"
    using assms by (auto simp: record_timed_def split: if_splits)
  then show ?thesis
  proof
    assume "add_cells db i (map timed_cell_row (s_cells s)) = Inr db'"
    from touches_union [OF touches_refl [of "{''grades'', ''grade_requests''}"] cells_touch [OF this]] show ?thesis
      by (simp add: insert_commute)
  qed simp
next
  case (Some x)
  then obtain db1 g where "add_cells db i (fc_cells x) = Inr db1"
    "record_final c lib env db1 run (gt_kernel task) i x task now = Some (Inr (db', g))"
    using assms by (auto simp: record_timed_def bindO_Inr)
  from touches_union [OF cells_touch [OF this(1)] record_final_touches [OF this(2)]] show ?thesis
    by (simp add: insert_commute)
qed

lemma record_submit_touches:
  assumes "record_submit c lib env db s g sub task j ep opt status tokens phase final laws ts now = Some (Inr (db', rd))"
  shows "touches UNIV db db'"
proof -
  let ?all = "\<lambda>a b. touches UNIV a b"
  have step: "?all db db'" if "open_episode env db ep None = Inr (a, run)"
    "add_grade c lib a run kern kind ts vals = Some (Inr (b, i, t))" "store_delivery env b i sub = Inr d"
    "record_timed c lib env d run s j task i f now = Some (Inr e)" "foldE (\<lambda>db (law, points). add_law db i law points) e laws = Inr db'"
    for a run kern kind vals b i t d f e
    by (rule touches_trans [OF touches_all [OF open_touches [OF that(1)]] touches_trans [OF touches_all [OF add_grade_touches [OF that(2)]]
      touches_trans [OF touches_all [OF delivery_touches [OF that(3)]] touches_trans [OF touches_all [OF record_timed_touches [OF that(4)]]
      touches_all [OF laws_touch [OF that(5)]]]]]])
  show ?thesis
  proof (cases "(\<not> earned s j \<and> \<not> je_log_attempts env) \<or> s_speedup s = Not_A_Number")
    case True
    then show ?thesis
      using assms by (auto simp: record_submit_eq nan_refused_def split: if_splits)
  next
    case False
    then have "record_submit c lib env db s g sub task j ep opt status tokens phase final laws ts now =
        bindO (Some (open_episode env db ep None)) (\<lambda>(db, run).
        bindO (add_grade c lib db run (gt_kernel task) (submit_kind opt) ts (dict_set ''call_index'' (SInt (call_index db run (gt_kernel task)))
            (shared_values (credited_final s j final) (submit_values env s g sub task j status tokens phase)))) (\<lambda>(db, grade, _).
        bindO (Some (store_delivery env db grade sub)) (\<lambda>db.
        bindO (record_timed c lib env db run s j task grade (credited_final s j final) now) (\<lambda>db.
        bindO (Some (foldE (\<lambda>db (law, points). add_law db grade law points) db laws)) (\<lambda>db.
          Some (Inr (db, \<lparr>rd_outcome = fst (snd (credit_values s j)), rd_detail = snd (snd (credit_values s j)), rd_grade = Some grade\<rparr>)))))))"
      by (auto simp: record_submit_eq nan_refused_def)
    with assms show ?thesis
      by (simp only: bindO_Inr prod.case split_paired_all split_paired_Ex option.inject sum.inject prod.inject) (elim exE conjE, simp only:, rule step)
  qed
qed

lemma upsert_keeps: "upsert db table vals False = Inr (db', i) \<Longrightarrow> set (db t) \<subseteq> set (db' t)"
  by (auto dest!: upsertD(3) dest: append_rowD(1))

lemma open_keeps: "open_episode env db ep lang = Inr (db', run) \<Longrightarrow> set (db t) \<subseteq> set (db' t)"
  by (auto simp: open_episode_def ensure_setup_def ensure_episode_def Let_def bindE_Inr_iff dest!: upsert_keeps [of _ _ _ _ _ t])

lemma store_source_keeps:
  assumes "store_source digest db g p lang b = Inr (db', h)" "k \<noteq> g"
  shows "set (db ''sources'') \<subseteq> set (db' ''sources'')"
    "rows_of_grade db' ''grade_sources'' k = rows_of_grade db ''grade_sources'' k"
proof -
  let ?gs = "[(''grade_id'', SInt g), (''part'', SText p), (''language'', SText lang), (''hash'', SText (digest b))]"
  let ?src = "[(''hash'', SText (digest b)), (''text'', SText b)]"
  obtain db1 i where s1: "(if holder db ''sources'' (completed ''sources'' ?src) = None
      then bindE (insert_row db ''sources'' ?src) (\<lambda>(db', _). Inr db') else Inr db) = Inr db1"
    and up: "upsert db1 ''grade_sources'' ?gs False = Inr (db', i)"
    using assms(1) by (auto simp: store_source_def Let_def bindE_Inr_iff)
  show "set (db ''sources'') \<subseteq> set (db' ''sources'')"
    using source_row_added(2) [OF s1 refl] upsert_keeps [OF up, of "''sources''"] by (rule subset_trans)
  have same: "db1 ''grade_sources'' = db ''grade_sources''"
    using s1 by (auto simp: bindE_Inr_iff split: if_splits dest: insert_row_other [of _ "''sources''" _ _ _ "''grade_sources''"])
  have named: "''grade_id'' \<in> set (map col_name (columns_of ''grade_sources''))"
    by code_simp
  have "field (completed ''grade_sources'' (non_null ?gs)) ''grade_id'' = SInt g"
    using field_of_values [OF named, of ?gs "SInt g"] by simp
  then show "rows_of_grade db' ''grade_sources'' k = rows_of_grade db ''grade_sources'' k"
    using upsertD(3) [OF up] same assms(2) by (auto simp: rows_of_grade_def dest!: append_rowD(1))
qed

lemma delivery_keeps:
  assumes "store_delivery env db g sub = Inr db'" "k \<noteq> g"
  shows "set (db ''sources'') \<subseteq> set (db' ''sources'') \<and> rows_of_grade db' ''grade_sources'' k = rows_of_grade db ''grade_sources'' k"
  by (rule foldE_invariant [OF assms(1) [unfolded store_delivery_def]])
    (use store_source_keeps [OF _ assms(2)] in \<open>fastforce simp: bindE_Inr_iff\<close>)+

lemma grade_writtenD:
  assumes "grade_written lib db run kern kind ts vals db' g t"
  shows "\<exists>s. db' ''grades'' = db ''grades'' @ [(g, s)]" "g = next_rowid (db ''grades'')"
    "table \<notin> {''grades'', ''grade_requests''} \<Longrightarrow> db' table = db table"
  using assms unfolding grade_written_def Let_def by blast+

lemma submit_run_keeps:
  assumes "results_ok db" "submit_run c lib env db s sub task j ep opt final ts vals db' i"
  shows "set (db ''episodes'') \<subseteq> set (db' ''episodes'')" "set (db ''grades'') \<subseteq> set (db' ''grades'')"
    "set (db ''sources'') \<subseteq> set (db' ''sources'')"
    "k \<in> fst ` set (db ''grades'') \<Longrightarrow> rows_of_grade db' ''grade_sources'' k = rows_of_grade db ''grade_sources'' k"
proof -
  obtain db0 run db1 u db2 rest where op: "open_episode env db ep None = Inr (db0, run)"
    and W: "grade_written lib db0 run (gt_kernel task) (submit_kind opt) ts (vals (call_index db0 run (gt_kernel task))) db1 i u"
    and D: "store_delivery env db1 i sub = Inr db2" and ok: "results_ok db'"
    and rest: "db' ''grades'' = db2 ''grades'' @ rest"
    and others: "\<forall>t. t \<notin> {''grades'', ''grade_requests'', ''grade_cells'', ''scaling_grades'', ''scaling_points''} \<longrightarrow> db' t = db2 t"
    using assms(2) unfolding submit_run_def by (elim exE conjE) (rule that)
  note To = touchesD(2) [OF open_touches [OF op]] and Td = touchesD(2) [OF delivery_touches [OF D]]
  have new: "i = next_rowid (db ''grades'')" "set (db ''grades'') \<subseteq> set (db1 ''grades'')" "db1 ''episodes'' = db0 ''episodes''"
    "db1 ''sources'' = db0 ''sources''" "db1 ''grade_sources'' = db0 ''grade_sources''"
  proof -
    have "db0 ''grades'' = db ''grades''"
      using To by simp
    then show "i = next_rowid (db ''grades'')" "set (db ''grades'') \<subseteq> set (db1 ''grades'')"
      using grade_writtenD(1,2) [OF W] by auto
    show "db1 ''episodes'' = db0 ''episodes''" "db1 ''sources'' = db0 ''sources''" "db1 ''grade_sources'' = db0 ''grade_sources''"
      using grade_writtenD(3) [OF W] by simp_all
  qed
  show "set (db ''episodes'') \<subseteq> set (db' ''episodes'')"
    using open_keeps [OF op, of "''episodes''"] new(3) Td [of "''episodes''"] others by simp
  show "set (db ''grades'') \<subseteq> set (db' ''grades'')"
    using new(2) Td [of "''grades''"] rest by (simp add: le_supI1)
  have fresh: "k \<noteq> i" if "k \<in> fst ` set (db ''grades'')" for k
    using that new(1) next_rowid_above [of _ "db ''grades''"] by force
  show "set (db ''sources'') \<subseteq> set (db' ''sources'')"
    using delivery_keeps [OF D, of "i + 1"] new(4) To [of "''sources''"] others by simp
  show "rows_of_grade db' ''grade_sources'' k = rows_of_grade db ''grade_sources'' k" if "k \<in> fst ` set (db ''grades'')"
    using delivery_keeps [OF D fresh [OF that]] new(5) To [of "''grade_sources''"] others by (simp add: rows_of_grade_def)
qed

text \<open>The sources of a stored grade read the same in every database that keeps them.\<close>

lemma grade_digests_kept:
  assumes "results_ok db" "consistent db" "results_ok db'" "set (db ''sources'') \<subseteq> set (db' ''sources'')"
    "rows_of_grade db' ''grade_sources'' g = rows_of_grade db ''grade_sources'' g"
  shows "map (\<lambda>(part, _, _, d). (part, d)) (grade_sources db' g) = map (\<lambda>(part, _, _, d). (part, d)) (grade_sources db g)"
proof -
  have fk: "map_of FOREIGN_KEYS ''grade_sources'' = Some [([''grade_id''], ''grades'', [''id'']), ([''hash''], ''sources'', [''hash''])]"
    by code_simp
  have key: "''hash'' \<in> set (map col_name (filter not_null (columns_of ''grade_sources'')))"
    by code_simp
  have "filter (\<lambda>y. field (snd y) ''hash'' = field r ''hash'') (db' ''sources'') = filter (\<lambda>y. field (snd y) ''hash'' = field r ''hash'') (db ''sources'')"
    if rg: "r \<in> set (rows_of_grade db ''grade_sources'' g)" for r
  proof -
    obtain rid where r: "(rid, r) \<in> set (db ''grade_sources'')"
      using rg by (auto simp: rows_of_grade_def)
    obtain col where col: "col \<in> set (columns_of ''grade_sources'')" "not_null col" "''hash'' = col_name col"
      using key by (auto simp only: set_map set_filter)
    have "column_ok col (field r (col_name col))"
      using row_okD [OF _ col(1)] stored_in [OF assms(1) r] by (simp add: stored_ok_def)
    then have "field r ''hash'' \<noteq> SNull"
      unfolding col(3) column_ok_def using col(2) by simp
    moreover have "references_ok db ''grade_sources'' r"
      using assms(2) map_of_SomeD [OF fk] r by (fastforce simp: consistent_def list_all_iff)
    then have "refers db r ([''hash''], ''sources'', [''hash''])"
      by (simp add: references_ok_def fk)
    ultimately obtain x where x: "x \<in> set (db ''sources'')" "field (snd x) ''hash'' = field r ''hash''"
      by (auto simp: refers_def list_ex_iff)
    show ?thesis
      using source_unique [OF assms(1) x] source_unique [OF assms(3) subsetD [OF assms(4) x(1)] x(2)] by simp
  qed
  then show ?thesis
    unfolding grade_digests assms(5) by (intro arg_cong [where f = concat] map_cong) simp_all
qed

text \<open>What one shard says of a submission, and that a later recording in that shard does not change a yes.\<close>

definition shard_records :: "judge_env \<Rightarrow> string \<Rightarrow> string \<Rightarrow> int \<Rightarrow> submission \<Rightarrow> results \<Rightarrow> bool" where
  "shard_records env ep kern ts sub db \<longleftrightarrow> (\<exists>(g, r) \<in> set (db ''grades''). replay_row db ep kern ts (library_hash env sub) r \<and>
     same_dict (map (\<lambda>(part, _, _, d). (part, d)) (grade_sources db g)) (delivery_hashes env sub))"

lemma submit_recorded_shards: "submit_recorded env shards ep kern ts sub \<longleftrightarrow> (\<exists>db \<in> set shards. shard_records env ep kern ts sub db)"
  by (simp add: submit_recorded_def shard_records_def list_ex_iff split_beta)

lemma replay_row_mono:
  "replay_row db ep kern ts lib r \<Longrightarrow> set (db ''episodes'') \<subseteq> set (db' ''episodes'') \<Longrightarrow> replay_row db' ep kern ts lib r"
  by (force simp: replay_row_def list_ex_iff)

lemma recorded_kept:
  assumes "results_ok db" "consistent db" "final_ok final"
    and run: "record_submit c lib env' db s g sub' task j ep' opt status tokens phase final laws ts' now = Some (Inr (db', rd))"
    and "shard_records env ep kern ts sub db"
  shows "shard_records env ep kern ts sub db'"
proof (cases "rd_grade rd")
  case None
  then have "db' = db"
    using record_submit_spec [OF assms(1,3), of c lib env' s g sub' task j ep' opt status tokens phase laws ts' now] run by auto
  with assms(5) show ?thesis
    by simp
next
  case (Some i)
  let ?vals = "submit_row_values env' s g sub' task j status tokens phase final"
  have R: "submit_run c lib env' db s sub' task j ep' opt final ts' ?vals db' i"
    using record_submit_spec [OF assms(1,3), of c lib env' s g sub' task j ep' opt status tokens phase laws ts' now] run Some by auto
  note K = submit_run_keeps [OF assms(1) R]
  obtain k r where row: "(k, r) \<in> set (db ''grades'')" "replay_row db ep kern ts (library_hash env sub) r"
    and same: "same_dict (map (\<lambda>(part, _, _, d). (part, d)) (grade_sources db k)) (delivery_hashes env sub)"
    using assms(5) by (auto simp: shard_records_def)
  have ok': "results_ok db'"
    using touchesD(1) [OF record_submit_touches [OF run] assms(1)] .
  have "k \<in> fst ` set (db ''grades'')"
    using row(1) by force
  note digests = grade_digests_kept [OF assms(1,2) ok' K(3) K(4) [OF this]]
  show ?thesis
    unfolding shard_records_def using K(2) row(1) replay_row_mono [of db ep kern ts "library_hash env sub" r db', OF row(2) K(1)] same digests by (intro bexI [of _ "(k, r)"]) auto
qed

end
