(* ===== verification/Deferred.thy ===== *)
theory Deferred
  imports Record_Replay
begin

text \<open>
  Deferred grades (\<open>harness/deferred.py\<close>, with the /submit route of \<open>harness/service.py\<close>): the queue of a judge rank, one
  JSON line per submission, and the list of those graded; the spool of the libraries it names; the replay that posts
  every pending entry, and what the judge does with it. JSON and sha256 are parameters, a file is its text.
\<close>

section \<open>The queue\<close>

record deferred_submit =
  d_ts_ms :: int
  d_setup :: string
  d_request_id :: string
  d_body :: string
  d_folder :: string

record queue_codec =
  dump_entry :: "deferred_submit \<Rightarrow> string"
  load_entry :: "string \<Rightarrow> deferred_submit option"

definition QUEUE_SUFFIX :: string where "QUEUE_SUFFIX = ''.deferred.jsonl''"
definition DONE_SUFFIX :: string where "DONE_SUFFIX = ''.done''"
definition SPOOL_SUFFIX :: string where "SPOOL_SUFFIX = ''.spool''"

abbreviation LF :: char where "LF \<equiv> CHR 0x0A"
abbreviation CR :: char where "CR \<equiv> CHR 0x0D"

text \<open>\<open>read_text\<close> in text mode, and \<open>str.splitlines\<close>.\<close>

fun universal_newlines :: "string \<Rightarrow> string" where
  "universal_newlines [] = []"
| "universal_newlines (c # s) =
     (if c = CR then (case s of [] \<Rightarrow> [LF] | d # t \<Rightarrow> if d = LF then LF # universal_newlines t else LF # universal_newlines s)
      else c # universal_newlines s)"

definition line_break :: "char \<Rightarrow> bool" where
  "line_break c \<longleftrightarrow> (of_char c :: nat) \<in> {10, 11, 12, 13, 28, 29, 30, 133}"

fun split_lines :: "string \<Rightarrow> string list" where
  "split_lines [] = []"
| "split_lines (c # s) =
     (if line_break c then [] # split_lines s else case split_lines s of [] \<Rightarrow> [[c]] | l # ls \<Rightarrow> (c # l) # ls)"

definition text_lines :: "string \<Rightarrow> string list" where
  "text_lines content = split_lines (universal_newlines content)"

text \<open>What \<open>append\<close> writes: a torn last line is ended first.\<close>

definition appended :: "queue_codec \<Rightarrow> string \<Rightarrow> deferred_submit \<Rightarrow> string" where
  "appended J content e = (if content \<noteq> [] \<and> last content \<noteq> LF then [LF] else []) @ dump_entry J e @ [LF]"

definition append_entry :: "queue_codec \<Rightarrow> string \<Rightarrow> deferred_submit \<Rightarrow> string" where
  "append_entry J content e = content @ appended J content e"

definition read_line :: "queue_codec \<Rightarrow> string \<Rightarrow> deferred_submit option" where
  "read_line J line = (if py_strip line = [] then None else load_entry J line)"

definition read_queue :: "queue_codec \<Rightarrow> string \<Rightarrow> deferred_submit list" where
  "read_queue J content = List.map_filter (read_line J) (text_lines content)"

text \<open>A \<open>.done\<close> file that is not there is empty.\<close>

definition done_ids :: "string \<Rightarrow> string list" where
  "done_ids content = filter (\<lambda>l. l \<noteq> []) (map py_strip (text_lines content))"

definition pending :: "queue_codec \<Rightarrow> string \<Rightarrow> string \<Rightarrow> deferred_submit list" where
  "pending J content finished = sort_key d_ts_ms (filter (\<lambda>e. d_request_id e \<notin> set (done_ids finished)) (read_queue J content))"

definition replayed_ts_ms :: "string \<Rightarrow> int option" where
  "replayed_ts_ms header =
     (let t = py_strip header in if t \<noteq> [] \<and> list_all py_digit t then Some (int (nat_text t)) else None)"

section \<open>Frozen folders\<close>

definition WRITE_BITS :: int where "WRITE_BITS = 146"
unbundle bit_operations_syntax

definition frozen_mode :: "int \<Rightarrow> int" where
  "frozen_mode mode = mode AND NOT WRITE_BITS"

definition thawed_mode :: "int \<Rightarrow> int" where
  "thawed_mode mode = mode OR 128"

text \<open>A folder: its own permission bits first, then everything under it; \<open>tn_refuses\<close> is an entry whose mode cannot be changed.\<close>

record tree_node =
  tn_path :: string
  tn_link :: bool
  tn_mode :: int
  tn_refuses :: bool

definition chmod_node :: "(int \<Rightarrow> int) \<Rightarrow> tree_node \<Rightarrow> tree_node" where
  "chmod_node change n = (if tn_refuses n then n else n\<lparr>tn_mode := change (tn_mode n)\<rparr>)"

fun chmod_tree :: "(int \<Rightarrow> int) \<Rightarrow> tree_node list \<Rightarrow> tree_node list" where
  "chmod_tree change [] = []"
| "chmod_tree change (folder # nodes) =
     chmod_node change folder # map (\<lambda>n. if tn_link n then n else chmod_node change n) nodes"

definition freeze :: "tree_node list \<Rightarrow> tree_node list" where
  "freeze nodes = chmod_tree frozen_mode nodes"

definition thaw :: "tree_node list \<Rightarrow> tree_node list" where
  "thaw nodes = chmod_tree thawed_mode nodes"

section \<open>The spool\<close>

text \<open>A path is its components from the root; files are what they hold.\<close>

type_synonym path = "string list"
type_synonym file_system = "path \<Rightarrow> string option"

definition spool_dir :: "path \<Rightarrow> path" where
  "spool_dir queue = butlast queue @ [last queue @ SPOOL_SUFFIX]"

text \<open>\<open>PurePath.stem\<close>: the name up to its last dot, unless that dot begins or ends it.\<close>

definition path_stem :: "string \<Rightarrow> string" where
  "path_stem name =
     (let before = rev (tl (dropWhile (\<lambda>c. c \<noteq> CHR ''.'') (rev name)))
      in if CHR ''.'' \<notin> set name \<or> before = [] \<or> last name = CHR ''.'' then name else before)"

definition ends_with :: "string \<Rightarrow> string \<Rightarrow> bool" where
  "ends_with s suffix \<longleftrightarrow> length suffix \<le> length s \<and> drop (length s - length suffix) s = suffix"

text \<open>\<open>spool\<close>; \<open>None\<close> is a library that cannot be read, a link or not a regular file.\<close>

definition spool :: "(string \<Rightarrow> string) \<Rightarrow> file_system \<Rightarrow> path \<Rightarrow> string option \<Rightarrow> (file_system \<times> path) res" where
  "spool digest files queue library =
     (case library of None \<Rightarrow> Inl (ValueError ''library is not readable'')
      | Some data \<Rightarrow>
          let target = spool_dir queue @ [digest data @ ''.so'']
          in Inr (if files target \<noteq> None then files else files(target \<mapsto> data), target))"

definition spooled :: "(string \<Rightarrow> string) \<Rightarrow> file_system \<Rightarrow> bool \<Rightarrow> path \<Rightarrow> path option res" where
  "spooled digest files absolute named =
     (if \<not> absolute \<or> length named < 2 \<or> \<not> ends_with (last (butlast named)) SPOOL_SUFFIX then Inr None
      else case files named of
          None \<Rightarrow> Inl (ValueError ''the spooled library is gone'')
        | Some data \<Rightarrow>
            if digest data \<noteq> path_stem (last named) then Inl (ValueError ''the spooled library changed'') else Inr (Some named))"

section \<open>The replay\<close>

datatype post_outcome =
    Http_Error string string
  | Http_Answer int string

type_synonym 's poster = "'s \<Rightarrow> deferred_submit \<Rightarrow> 's \<times> post_outcome"

text \<open>The judge, each queue's \<open>.done\<close> file, the folders thawed, and what the report will say.\<close>

record 's replaying =
  rp_judge :: 's
  rp_done :: "path \<Rightarrow> string"
  rp_thawed :: "string list"
  rp_graded :: "(path \<times> deferred_submit) list"
  rp_failed :: "string list"

record replay_report =
  rr_graded :: nat
  rr_skipped :: int
  rr_failed :: "string list"

definition replay_entry :: "'s poster \<Rightarrow> 's replaying \<Rightarrow> path \<times> deferred_submit \<Rightarrow> 's replaying" where
  "replay_entry post st = (\<lambda>(queue, e).
     case post (rp_judge st) e of
       (s, Http_Error name message) \<Rightarrow>
         st\<lparr>rp_judge := s, rp_failed := rp_failed st @ [d_request_id e @ '': '' @ name @ '': '' @ message]\<rparr>
     | (s, Http_Answer status answer) \<Rightarrow>
         if status \<noteq> 200
         then st\<lparr>rp_judge := s, rp_failed := rp_failed st @ [d_request_id e @ '': HTTP '' @ int_text status @ '': '' @ take 300 answer]\<rparr>
         else st\<lparr>rp_judge := s, rp_thawed := rp_thawed st @ (if d_folder e \<noteq> [] then [d_folder e] else []),
                 rp_done := (rp_done st)(queue := rp_done st queue @ d_request_id e @ [LF]),
                 rp_graded := rp_graded st @ [(queue, e)]\<rparr>)"

text \<open>\<open>schedule\<close> is the order in which the worker threads take the entries.\<close>

definition replay_work :: "queue_codec \<Rightarrow> (path \<Rightarrow> string) \<Rightarrow> path list \<Rightarrow> (path \<Rightarrow> string) \<Rightarrow> (path \<times> deferred_submit) list" where
  "replay_work J contents queues finished =
     concat (map (\<lambda>q. map (Pair q) (pending J (contents q) (finished q))) queues)"

definition replay ::
  "queue_codec \<Rightarrow> 's poster \<Rightarrow> ((path \<times> deferred_submit) list \<Rightarrow> (path \<times> deferred_submit) list) \<Rightarrow> (path \<Rightarrow> string) \<Rightarrow> path list \<Rightarrow>
   (path \<Rightarrow> string) \<Rightarrow> 's \<Rightarrow> 's replaying \<times> replay_report" where
  "replay J post schedule contents queues finished server =
     (let work = replay_work J contents queues finished;
          skipped = int (sum_list (map (\<lambda>q. length (read_queue J (contents q))) queues)) - int (length work);
          st = foldl (replay_entry post) \<lparr>rp_judge = server, rp_done = finished, rp_thawed = [], rp_graded = [], rp_failed = []\<rparr> (schedule work)
      in (st, \<lparr>rr_graded = length (rp_graded st), rr_skipped = skipped, rr_failed = rp_failed st\<rparr>))"

section \<open>What the judge does with a post\<close>

text \<open>What a /submit carries past its checks, and what grading it gives: the score and what is recorded with it, the refusal
  of a layout, or a failure of scoring.\<close>

record posted =
  po_episode :: string
  po_optimizer :: string
  po_task :: graded_task
  po_submission :: submission
  po_tokens :: int
  po_phase :: string

record grading =
  gr_score :: score
  gr_layout :: graded_layout
  gr_judgement :: judgement
  gr_status :: "string option"
  gr_final :: "final_columns option"
  gr_laws :: "(sql_row \<times> sql_row list) list"

datatype grade_outcome =
    Scored grading
  | Layout_Refused
  | Score_Failed

text \<open>\<open>RecordedAnswer\<close>: what was recorded; nothing when recording is off or raised. Only a judge fault shows in the answer.\<close>

record recorded_answer =
  ra_recorded :: "recorded option"
  ra_error :: "py_exn option"
  ra_judge_fault :: bool

definition record_result ::
  "'j json_codec \<Rightarrow> 'j relayout \<Rightarrow> judge_env \<Rightarrow> bool \<Rightarrow> results \<Rightarrow> posted \<Rightarrow> grading \<Rightarrow> int option \<Rightarrow> int \<Rightarrow> (results \<times> recorded_answer) option" where
  "record_result c lib env enabled db q g ts now =
     (if \<not> enabled then Some (db, \<lparr>ra_recorded = None, ra_error = None, ra_judge_fault = False\<rparr>)
      else map_option (\<lambda>r. case r of
             Inl e \<Rightarrow> (db, \<lparr>ra_recorded = None, ra_error = Some e, ra_judge_fault = j_harness_fault (gr_judgement g)\<rparr>)
           | Inr (db', rd) \<Rightarrow> (db', \<lparr>ra_recorded = Some rd, ra_error = None, ra_judge_fault = j_harness_fault (gr_judgement g)\<rparr>))
        (record_submit c lib env db (gr_score g) (gr_layout g) (po_submission q) (po_task q) (gr_judgement g) (po_episode q)
           (po_optimizer q) (gr_status g) (po_tokens q) (po_phase q) (gr_final g) (gr_laws g)
           (case ts of None \<Rightarrow> now | Some t \<Rightarrow> t) now))"

datatype submit_answer =
    Already_Recorded
  | Answered recorded_answer
  | Refused_Layout
  | Judge_Fault

definition answer_status :: "submit_answer \<Rightarrow> int" where
  "answer_status a = (case a of Already_Recorded \<Rightarrow> 200 | Answered _ \<Rightarrow> 200 | Refused_Layout \<Rightarrow> 400 | Judge_Fault \<Rightarrow> 500)"

text \<open>\<open>replay_recorded\<close>, and the rest of \<open>serve_post\<close> for a /submit that passed its checks on the judge of shard \<open>rank\<close>.\<close>

definition replay_recorded :: "judge_env \<Rightarrow> results list \<Rightarrow> posted \<Rightarrow> int option \<Rightarrow> bool" where
  "replay_recorded env shards q ts =
     (case ts of None \<Rightarrow> False
        | Some t \<Rightarrow> submit_recorded env shards (po_episode q) (gt_kernel (po_task q)) t (po_submission q))"

definition serve_submit ::
  "'j json_codec \<Rightarrow> 'j relayout \<Rightarrow> judge_env \<Rightarrow> bool \<Rightarrow> results list \<Rightarrow> nat \<Rightarrow> posted \<Rightarrow> grade_outcome \<Rightarrow> int option \<Rightarrow> int \<Rightarrow>
   (results list \<times> submit_answer) option" where
  "serve_submit c lib env enabled shards rank q graded ts now =
     (if replay_recorded env shards q ts then Some (shards, Already_Recorded)
      else case graded of
          Layout_Refused \<Rightarrow> Some (shards, Refused_Layout)
        | Score_Failed \<Rightarrow> Some (shards, Judge_Fault)
        | Scored g \<Rightarrow> map_option (\<lambda>(db, a). (shards[rank := db], Answered a))
            (record_result c lib env enabled (shards ! rank) q g ts now))"
section \<open>A torn line costs at most its own entry\<close>

lemma LF_breaks [simp]: "line_break LF"
  by (simp add: line_break_def)

lemma split_lines_Nil: "split_lines s = [] \<longleftrightarrow> s = []"
  by (cases s) (auto split: list.split)

lemma split_lines_break: "split_lines (a @ LF # b) = split_lines (a @ [LF]) @ split_lines b"
proof (induction a)
  case (Cons c a)
  have "split_lines (a @ [LF]) \<noteq> []"
    by (simp add: split_lines_Nil)
  with Cons show ?case
    by (auto split: list.split)
qed simp

lemma split_lines_ended: "split_lines (u @ [LF]) = split_lines u \<or> split_lines (u @ [LF]) = split_lines u @ [[]]"
proof (induction u)
  case (Cons c u)
  then show ?case
    by (cases "split_lines u") auto
qed simp

lemma universal_newlines_break: "universal_newlines (a @ LF # b) = universal_newlines (a @ [LF]) @ universal_newlines b"
proof (induction a rule: universal_newlines.induct)
  case (2 c s)
  then show ?case
    by (cases s) auto
qed simp

lemma universal_newlines_ended:
  "universal_newlines (a @ [LF]) = universal_newlines a \<or> universal_newlines (a @ [LF]) = universal_newlines a @ [LF]"
proof (induction a rule: universal_newlines.induct)
  case (2 c s)
  then show ?case
    by (cases s) auto
qed simp

lemma universal_newlines_last: "\<exists>u. universal_newlines (a @ [LF]) = u @ [LF]"
proof (induction a rule: universal_newlines.induct)
  case (2 c s)
  show ?case
  proof (cases s)
    case Nil
    then show ?thesis
      by (cases "c = CR") auto
  next
    case (Cons d t)
    consider "c = CR" "d = LF" | "c = CR" "d \<noteq> LF" | "c \<noteq> CR"
      by blast
    then show ?thesis
    proof cases
      case 1
      then obtain u where "universal_newlines (t @ [LF]) = u @ [LF]"
        using 2(1) Cons by blast
      then show ?thesis
        using 1 Cons by simp
    next
      case 2
      then obtain u where "universal_newlines (s @ [LF]) = u @ [LF]"
        using \<open>\<And>d t. c = CR \<Longrightarrow> s = d # t \<Longrightarrow> d \<noteq> LF \<Longrightarrow> \<exists>u. universal_newlines (s @ [LF]) = u @ [LF]\<close> Cons by blast
      then show ?thesis
        using 2 Cons by simp
    next
      case 3
      then obtain u where "universal_newlines (s @ [LF]) = u @ [LF]"
        using 2(3) by blast
      then show ?thesis
        using 3 by simp
    qed
  qed
qed simp

lemma text_lines_break: "text_lines (a @ LF # b) = text_lines (a @ [LF]) @ text_lines b"
proof -
  obtain u where u: "universal_newlines (a @ [LF]) = u @ [LF]"
    using universal_newlines_last by blast
  show ?thesis
    using split_lines_break [of u "universal_newlines b"] universal_newlines_break [of a b] by (simp add: text_lines_def u)
qed

lemma text_lines_ended: "text_lines (a @ [LF]) = text_lines a \<or> text_lines (a @ [LF]) = text_lines a @ [[]]"
  using universal_newlines_ended [of a] split_lines_ended [of "universal_newlines a"] by (auto simp: text_lines_def)

lemma text_lines_plain:
  assumes "\<forall>c \<in> set p. \<not> line_break c"
  shows "text_lines p = (if p = [] then [] else [p])"
proof -
  have "universal_newlines p = p"
    using assms
  proof (induction p rule: universal_newlines.induct)
    case (2 c s)
    then have "c \<noteq> CR"
      by (auto simp: line_break_def)
    with 2 show ?case
      by simp
  qed simp
  moreover have "split_lines p = (if p = [] then [] else [p])"
    using assms by (induction p) auto
  ultimately show ?thesis
    by (simp add: text_lines_def)
qed

lemma read_blank: "read_line J [] = None"
  by (simp add: read_line_def py_strip_def strip_when_def)

lemma map_filter_append: "List.map_filter f (xs @ ys) = List.map_filter f xs @ List.map_filter f ys"
  by (simp add: List.map_filter_def)

lemma read_ended: "read_queue J (a @ [LF]) = read_queue J a"
  using text_lines_ended [of a] by (auto simp: read_queue_def map_filter_append read_blank List.map_filter_simps)

lemma read_break: "read_queue J (a @ LF # b) = read_queue J a @ read_queue J b"
  using read_ended [of J a] text_lines_break [of a b] by (simp add: read_queue_def map_filter_append)

definition torn :: "string \<Rightarrow> string" where
  "torn content = (if content \<noteq> [] \<and> last content \<noteq> LF then [LF] else [])"

lemma read_after_torn: "read_queue J (content @ torn content @ p) = read_queue J content @ read_queue J p"
proof (cases "content = [] \<or> last content \<noteq> LF")
  case True
  then show ?thesis
    using read_break [of J content p] by (auto simp: torn_def read_queue_def text_lines_def List.map_filter_simps)
next
  case False
  then obtain a where "content = a @ [LF]"
    by (metis append_butlast_last_id)
  then show ?thesis
    using read_break [of J a p] read_ended [of J a] by (simp add: torn_def)
qed

text \<open>What the queue relies on of JSON: an entry's line reads back, holds no line break, and no shorter prefix of it reads.\<close>

definition entry_text :: "queue_codec \<Rightarrow> deferred_submit \<Rightarrow> bool" where
  "entry_text J e \<longleftrightarrow> load_entry J (dump_entry J e) = Some e \<and> list_all (\<lambda>c. \<not> line_break c) (dump_entry J e) \<and>
     py_strip (dump_entry J e) \<noteq> [] \<and> list_all (\<lambda>n. load_entry J (take n (dump_entry J e)) = None) [0..<length (dump_entry J e)]"

lemma read_entry:
  assumes "entry_text J e"
  shows "read_queue J (take n (dump_entry J e)) = (if length (dump_entry J e) \<le> n then [e] else [])"
proof -
  have "\<forall>c \<in> set (take n (dump_entry J e)). \<not> line_break c"
    using assms by (auto simp: entry_text_def list_all_iff dest: in_set_takeD)
  then have lines: "text_lines (take n (dump_entry J e)) = (if take n (dump_entry J e) = [] then [] else [take n (dump_entry J e)])"
    by (rule text_lines_plain)
  have nonempty: "dump_entry J e \<noteq> []"
    using assms by (auto simp: entry_text_def py_strip_def strip_when_def)
  show ?thesis
  proof (cases "length (dump_entry J e) \<le> n")
    case True
    then show ?thesis
      using lines nonempty assms by (simp add: read_queue_def read_line_def entry_text_def List.map_filter_simps)
  next
    case False
    then have "load_entry J (take n (dump_entry J e)) = None"
      using assms by (simp add: entry_text_def list_all_iff)
    then show ?thesis
      using lines False by (simp add: read_queue_def read_line_def List.map_filter_simps)
  qed
qed

lemma read_written:
  assumes "entry_text J e"
  shows "read_queue J (content @ take n (appended J content e)) =
    read_queue J content @ (if length (torn content) + length (dump_entry J e) \<le> n then [e] else [])"
proof -
  let ?m = "n - length (torn content)"
  have split: "appended J content e = torn content @ dump_entry J e @ [LF]"
    by (simp add: appended_def torn_def)
  show ?thesis
  proof (cases "length (torn content) \<le> n")
    case True
    have "read_queue J (take ?m (dump_entry J e @ [LF])) = (if length (dump_entry J e) \<le> ?m then [e] else [])"
      using read_entry [OF assms, of ?m] read_ended [of J "dump_entry J e"]
      by (cases "?m \<le> length (dump_entry J e)") (auto simp: take_Cons')
    then show ?thesis
      using True read_after_torn [of J content "take ?m (dump_entry J e @ [LF])"] by (auto simp: split)
  next
    case False
    then have "n = 0" "torn content = [LF]"
      by (auto simp: torn_def split: if_splits)
    then show ?thesis
      by (simp add: split)
  qed
qed

text \<open>C34. A judge killed while it queues a submission loses at most that submission: whatever the queue file held, an append
  adds exactly its entry; cut off at any byte, it adds its entry or nothing, and the next append after it adds exactly its
  own entry, never joined with what the first one left.\<close>

theorem torn_append_is_contained:
  assumes "entry_text J e" "entry_text J e'"
  shows "read_queue J (append_entry J content e) = read_queue J content @ [e] \<and>
    (\<exists>es \<in> {[], [e]}. read_queue J (content @ take n (appended J content e)) = read_queue J content @ es \<and>
       read_queue J (append_entry J (content @ take n (appended J content e)) e') = read_queue J content @ es @ [e'])"
proof -
  have whole: "read_queue J (append_entry J c x) = read_queue J c @ [x]" if "entry_text J x" for c x
    using read_written [OF that, of c "length (appended J c x)"] by (simp add: append_entry_def appended_def torn_def)
  show ?thesis
    using whole [OF assms(1)] whole [OF assms(2)] read_written [OF assms(1), of content n] by simp
qed
definition sample_entry :: "string \<Rightarrow> deferred_submit" where
  "sample_entry i = \<lparr>d_ts_ms = 9, d_setup = ''exp'', d_request_id = i, d_body = [], d_folder = []\<rparr>"

definition sample_json :: queue_codec where
  "sample_json = \<lparr>dump_entry = (\<lambda>e. ''{'' @ d_request_id e @ ''}''),
     load_entry = (\<lambda>s. if s = ''{a}'' then Some (sample_entry ''a'') else if s = ''{b}'' then Some (sample_entry ''b'') else None)\<rparr>"

text \<open>A queue whose first write was cut off in the middle, and the next append.\<close>

theorem torn_append_is_contained_witness:
  "read_queue sample_json (take 2 (appended sample_json [] (sample_entry ''a''))) = [] \<and>
   read_queue sample_json (append_entry sample_json (take 2 (appended sample_json [] (sample_entry ''a''))) (sample_entry ''b'')) = [sample_entry ''b'']"
proof -
  have "entry_text sample_json (sample_entry ''a'')" "entry_text sample_json (sample_entry ''b'')"
    by code_simp+
  moreover have "read_queue sample_json [] = []" "read_queue sample_json (take 2 (appended sample_json [] (sample_entry ''a''))) = []"
    by code_simp+
  ultimately show ?thesis
    using torn_append_is_contained [of sample_json "sample_entry ''a''" "sample_entry ''b''" "[]" 2] by auto
qed

section \<open>A replay resumes where the last one stopped\<close>

definition plain_id :: "string \<Rightarrow> bool" where
  "plain_id s \<longleftrightarrow> s \<noteq> [] \<and> py_strip s = s \<and> list_all (\<lambda>c. \<not> line_break c) s"

lemma done_ids_mark:
  assumes "torn content = []" "plain_id s"
  shows "done_ids (content @ s @ [LF]) = done_ids content @ [s]" "torn (content @ s @ [LF]) = []"
proof -
  have lines: "text_lines (s @ [LF]) = [s]"
  proof -
    have "text_lines (s @ [LF]) = text_lines s \<or> text_lines (s @ [LF]) = text_lines s @ [[]]"
      by (rule text_lines_ended)
    have "universal_newlines (s @ [LF]) = s @ [LF]" if "\<forall>c \<in> set s. \<not> line_break c" for s
      using that
    proof (induction s rule: universal_newlines.induct)
      case (2 c s)
      then have "c \<noteq> CR"
        by (auto simp: line_break_def)
      with 2 show ?case
        by simp
    qed simp
    moreover have "split_lines (s @ [LF]) = [s]" if "\<forall>c \<in> set s. \<not> line_break c" for s
      using that by (induction s) auto
    ultimately show ?thesis
      using assms(2) by (simp add: text_lines_def plain_id_def list_all_iff)
  qed
  show "torn (content @ s @ [LF]) = []"
    by (simp add: torn_def)
  show "done_ids (content @ s @ [LF]) = done_ids content @ [s]"
  proof (cases "content = []")
    case True
    then show ?thesis
      using lines assms(2) by (simp add: done_ids_def plain_id_def text_lines_def)
  next
    case False
    then obtain a where a: "content = a @ [LF]"
      using assms(1) by (metis append_butlast_last_id list.distinct(1) torn_def)
    show ?thesis
      using text_lines_break [of a "s @ [LF]"] lines assms(2) by (simp add: a done_ids_def plain_id_def)
  qed
qed

text \<open>What the judge answers to the entries in turn, and the answers that count as graded.\<close>

fun answers :: "'s poster \<Rightarrow> 's \<Rightarrow> (path \<times> deferred_submit) list \<Rightarrow> post_outcome list" where
  "answers post s [] = []"
| "answers post s ((q, e) # work) = snd (post s e) # answers post (fst (post s e)) work"

definition accepted :: "post_outcome \<Rightarrow> bool" where
  "accepted r \<longleftrightarrow> (case r of Http_Error _ _ \<Rightarrow> False | Http_Answer status _ \<Rightarrow> status = 200)"

lemma replay_graded:
  "rp_graded (foldl (replay_entry post) st work) = rp_graded st @ map fst (filter (\<lambda>(_, r). accepted r) (zip work (answers post (rp_judge st) work)))"
proof (induction work arbitrary: st)
  case (Cons x work)
  obtain q e where x: "x = (q, e)"
    by (cases x)
  obtain s r where r: "post (rp_judge st) e = (s, r)"
    by (cases "post (rp_judge st) e")
  have "rp_judge (replay_entry post st x) = s \<and> rp_graded (replay_entry post st x) = rp_graded st @ (if accepted r then [x] else [])"
    using r by (cases r) (simp_all add: replay_entry_def x accepted_def)
  then show ?case
    using Cons.IH [of "replay_entry post st x"] r by (simp add: x)
qed simp

text \<open>What the replay keeps while it goes through its entries.\<close>

definition marks :: "path \<Rightarrow> (path \<times> deferred_submit) list \<Rightarrow> string" where
  "marks q graded = concat (map (\<lambda>(_, e). d_request_id e @ [LF]) (filter (\<lambda>(p, _). p = q) graded))"

lemma replay_fold:
  "\<exists>new. rp_graded (foldl (replay_entry post) st work) = rp_graded st @ new \<and> set new \<subseteq> set work \<and>
    length new + length (rp_failed (foldl (replay_entry post) st work)) = length work + length (rp_failed st) \<and>
    (\<forall>q. rp_done (foldl (replay_entry post) st work) q = rp_done st q @ marks q new)"
proof (induction work arbitrary: st)
  case (Cons x work)
  obtain q e where x: "x = (q, e)"
    by (cases x)
  let ?st = "replay_entry post st x"
  obtain new where new: "rp_graded (foldl (replay_entry post) ?st work) = rp_graded ?st @ new" "set new \<subseteq> set work"
    "length new + length (rp_failed (foldl (replay_entry post) ?st work)) = length work + length (rp_failed ?st)"
    "\<forall>q. rp_done (foldl (replay_entry post) ?st work) q = rp_done ?st q @ marks q new"
    using Cons.IH [of ?st] by blast
  consider "rp_graded ?st = rp_graded st" "rp_done ?st = rp_done st" "length (rp_failed ?st) = Suc (length (rp_failed st))"
    | "rp_graded ?st = rp_graded st @ [x]" "rp_done ?st = (rp_done st)(q := rp_done st q @ d_request_id e @ [LF])" "rp_failed ?st = rp_failed st"
  proof -
    obtain s r where "post (rp_judge st) e = (s, r)"
      by (cases "post (rp_judge st) e")
    then have "(rp_graded ?st = rp_graded st \<and> rp_done ?st = rp_done st \<and> length (rp_failed ?st) = Suc (length (rp_failed st))) \<or>
        (rp_graded ?st = rp_graded st @ [x] \<and> rp_done ?st = (rp_done st)(q := rp_done st q @ d_request_id e @ [LF]) \<and> rp_failed ?st = rp_failed st)"
      by (cases r) (simp_all add: replay_entry_def x)
    then show ?thesis
      using that by blast
  qed
  then show ?case
  proof cases
    case 1
    then show ?thesis
      using new by (intro exI [of _ new]) auto
  next
    case 2
    then show ?thesis
      using new by (intro exI [of _ "x # new"]) (auto simp: x marks_def)
  qed
qed (simp add: marks_def)

lemma done_ids_marks:
  "torn content = [] \<Longrightarrow> \<forall>(p, e) \<in> set graded. p = q \<longrightarrow> plain_id (d_request_id e) \<Longrightarrow>
     done_ids (content @ marks q graded) = done_ids content @ map (d_request_id \<circ> snd) (filter (\<lambda>(p, _). p = q) graded)"
proof (induction graded arbitrary: content)
  case (Cons x graded)
  obtain p e where x: "x = (p, e)"
    by (cases x)
  show ?case
  proof (cases "p = q")
    case True
    have "plain_id (d_request_id e)"
      using Cons.prems(2) x True by auto
    note M = done_ids_mark [OF Cons.prems(1) this]
    from Cons.IH [OF M(2)] show ?thesis
      using Cons.prems(2) M(1) x True by (simp add: marks_def)
  next
    case False
    then show ?thesis
      using Cons x by (simp add: marks_def)
  qed
qed (simp add: marks_def)

text \<open>C32. A replay leaves pending exactly what the judge did not answer with 200: for queues whose request ids are distinct and
  plain and whose \<open>.done\<close> files end with whole lines, in whatever order the worker threads take the entries and whatever the
  judge answers, every entry it took was either graded or failed, the graded ones are those answered with 200, and the
  entries pending afterwards are those pending before less the graded ones, in the same order.\<close>

theorem replay_resumes:
  assumes "mset (schedule (replay_work J contents queues finished)) = mset (replay_work J contents queues finished)"
    and "\<forall>q \<in> set queues. torn (finished q) = [] \<and> distinct (map d_request_id (read_queue J (contents q))) \<and>
      list_all (\<lambda>e. plain_id (d_request_id e)) (read_queue J (contents q))"
    and "replay J post schedule contents queues finished server = (st, report)"
  shows "rr_graded report + length (rr_failed report) = length (replay_work J contents queues finished) \<and>
    rp_graded st = map fst (filter (\<lambda>(_, r). accepted r)
      (zip (schedule (replay_work J contents queues finished)) (answers post server (schedule (replay_work J contents queues finished))))) \<and>
    list_all (\<lambda>q. pending J (contents q) (rp_done st q) = filter (\<lambda>e. (q, e) \<notin> set (rp_graded st)) (pending J (contents q) (finished q))) queues"
proof -
  let ?work = "replay_work J contents queues finished"
  let ?st0 = "\<lparr>rp_judge = server, rp_done = finished, rp_thawed = [], rp_graded = [], rp_failed = []\<rparr>"
  have st: "st = foldl (replay_entry post) ?st0 (schedule ?work)"
    and report: "rr_graded report = length (rp_graded st)" "rr_failed report = rp_failed st"
    using assms(3) by (auto simp: replay_def Let_def)
  obtain new where new: "rp_graded st = new" "set new \<subseteq> set (schedule ?work)"
    "length new + length (rp_failed st) = length (schedule ?work)" "\<And>q. rp_done st q = finished q @ marks q new"
    using replay_fold [of post ?st0 "schedule ?work"] by (auto simp: st)
  have same: "set (schedule ?work) = set ?work" "length (schedule ?work) = length ?work"
    using assms(1) mset_eq_setD mset_eq_length by blast+
  have pend: "pending J (contents q) (rp_done st q) = filter (\<lambda>e. (q, e) \<notin> set new) (pending J (contents q) (finished q))"
    if q: "q \<in> set queues" for q
  proof -
    have in_read: "e \<in> set (read_queue J (contents q))" if "(q, e) \<in> set new" for e
      using that new(2) same by (auto simp: replay_work_def pending_def)
    have "done_ids (rp_done st q) = done_ids (finished q) @ map (d_request_id \<circ> snd) (filter (\<lambda>(p, _). p = q) new)"
      unfolding new(4) using assms(2) q in_read by (intro done_ids_marks) (auto simp: list_all_iff)
    moreover have "d_request_id e \<in> (d_request_id \<circ> snd) ` set (filter (\<lambda>(p, _). p = q) new) \<longleftrightarrow> (q, e) \<in> set new"
      if "e \<in> set (read_queue J (contents q))" for e
      using that in_read assms(2) q by (auto simp: distinct_map inj_on_def image_iff)
    ultimately have "filter (\<lambda>e. d_request_id e \<notin> set (done_ids (rp_done st q))) (read_queue J (contents q)) =
        filter (\<lambda>e. (q, e) \<notin> set new) (filter (\<lambda>e. d_request_id e \<notin> set (done_ids (finished q))) (read_queue J (contents q)))"
      by (simp cong: filter_cong)
    then show ?thesis
      by (simp add: pending_def filter_sort)
  qed
  show ?thesis
    using new(1,3) report same pend replay_graded [of post ?st0 "schedule ?work"] by (simp add: list_all_iff st)
qed
definition sample_poster :: "nat poster" where
  "sample_poster n e = (n + 1, if d_request_id e = ''a'' then Http_Answer 200 [] else Http_Answer 500 ''busy'')"

definition sample_queue :: "path \<Rightarrow> string" where
  "sample_queue q = ''{a}'' @ [LF] @ ''{b}'' @ [LF]"

theorem replay_resumes_witness:
  "\<exists>st report. replay sample_json sample_poster rev sample_queue [[''q'']] (\<lambda>_. []) 0 = (st, report) \<and>
     pending sample_json (sample_queue [''q'']) (rp_done st [''q'']) = [sample_entry ''b''] \<and> rr_graded report + length (rr_failed report) = 2"
proof -
  let ?run = "replay sample_json sample_poster rev sample_queue [[''q'']] (\<lambda>_. []) 0"
  obtain st report where run: "?run = (st, report)"
    by (cases ?run)
  have work: "replay_work sample_json sample_queue [[''q'']] (\<lambda>_. []) = [([''q''], sample_entry ''a''), ([''q''], sample_entry ''b'')]"
    by code_simp
  have pend: "pending sample_json (sample_queue [''q'']) [] = [sample_entry ''a'', sample_entry ''b'']"
    by code_simp
  have read: "read_queue sample_json (sample_queue [''q'']) = [sample_entry ''a'', sample_entry ''b'']"
    by code_simp
  have ids: "plain_id ''a''" "plain_id ''b''" "torn [] = []"
    by code_simp+
  have graded: "rp_graded st = [([''q''], sample_entry ''a'')]"
    using run unfolding replay_def work by (auto simp: Let_def replay_entry_def sample_poster_def sample_entry_def)
  have "sample_entry ''a'' \<noteq> sample_entry ''b''"
    by (simp add: sample_entry_def)
  with replay_resumes [OF _ _ run] run work pend read ids graded show ?thesis
    by (auto simp: sample_entry_def)
qed

section \<open>A submission is graded at most once\<close>

definition outcome_ok :: "grade_outcome \<Rightarrow> bool" where
  "outcome_ok graded \<longleftrightarrow> (case graded of Scored g \<Rightarrow> final_ok (gr_final g) | _ \<Rightarrow> True)"

text \<open>The grade an answer wrote, if it wrote one.\<close>

definition written :: "submit_answer \<Rightarrow> int option" where
  "written a = (case a of Answered r \<Rightarrow> (case ra_recorded r of Some rd \<Rightarrow> rd_grade rd | None \<Rightarrow> None) | _ \<Rightarrow> None)"

text \<open>The row a replay wrote sits at most \<open>REPLAY_TWIN_WINDOW_MS\<close> after the time it was queued at.\<close>

definition in_window :: "results \<Rightarrow> submit_answer \<Rightarrow> int \<Rightarrow> bool" where
  "in_window db a ts \<longleftrightarrow>
     list_all (\<lambda>(i, row). written a = Some i \<longrightarrow> (case field row ''ts_ms'' of SInt t \<Rightarrow> t \<le> ts + REPLAY_TWIN_WINDOW_MS | _ \<Rightarrow> True))
       (db ''grades'')"

text \<open>
  The judges of a run, shard by shard, and the trace of the replayed posts with whether each wrote a grade. A post may come
  again at any time, on any rank: its client was cut off, or never saw the answer. Posts graded live come between them.
\<close>

inductive served ::
  "'j json_codec \<Rightarrow> 'j relayout \<Rightarrow> judge_env \<Rightarrow> bool \<Rightarrow> results list \<Rightarrow> (posted \<times> int \<times> bool) list \<Rightarrow> bool"
  for c lib env enabled where
  start: "list_all (\<lambda>db. results_ok db \<and> consistent db) shards \<Longrightarrow> served c lib env enabled shards []"
| live: "served c lib env enabled shards trace \<Longrightarrow> rank < length shards \<Longrightarrow> outcome_ok graded \<Longrightarrow>
    serve_submit c lib env enabled shards rank q graded None now = Some (shards', a) \<Longrightarrow> served c lib env enabled shards' trace"
| post: "served c lib env enabled shards trace \<Longrightarrow> rank < length shards \<Longrightarrow> outcome_ok graded \<Longrightarrow>
    serve_submit c lib env enabled shards rank q graded (Some ts) now = Some (shards', a) \<Longrightarrow> in_window (shards' ! rank) a ts \<Longrightarrow>
    served c lib env enabled shards' (trace @ [(q, ts, written a \<noteq> None)])"

text \<open>What \<open>submit_recorded\<close> tells submissions apart by.\<close>

definition post_key :: "judge_env \<Rightarrow> posted \<Rightarrow> int \<Rightarrow> string \<times> string \<times> int \<times> string \<times> (string, string) dict" where
  "post_key env q ts =
     (po_episode q, gt_kernel (po_task q), ts, library_hash env (po_submission q), delivery_hashes env (po_submission q))"

lemma recorded_by_key: "post_key env q ts = post_key env r u \<Longrightarrow> replay_recorded env shards q (Some ts) = replay_recorded env shards r (Some u)"
  by (auto simp: post_key_def replay_recorded_def submit_recorded_def)

lemma record_result_cases:
  assumes "record_result c lib env enabled db q g ts now = Some (db', r)"
  shows "(db' = db \<and> ra_recorded r = None) \<or>
    (\<exists>rd. ra_recorded r = Some rd \<and> record_submit c lib env db (gr_score g) (gr_layout g) (po_submission q) (po_task q) (gr_judgement g)
         (po_episode q) (po_optimizer q) (gr_status g) (po_tokens q) (po_phase q) (gr_final g) (gr_laws g)
         (case ts of None \<Rightarrow> now | Some t \<Rightarrow> t) now = Some (Inr (db', rd)))"
proof (cases enabled)
  case True
  then obtain x where x: "record_submit c lib env db (gr_score g) (gr_layout g) (po_submission q) (po_task q) (gr_judgement g)
         (po_episode q) (po_optimizer q) (gr_status g) (po_tokens q) (po_phase q) (gr_final g) (gr_laws g)
         (case ts of None \<Rightarrow> now | Some t \<Rightarrow> t) now = Some x"
    using assms by (auto simp: record_result_def)
  show ?thesis
    using assms True unfolding record_result_def x by (cases x) auto
qed (use assms in \<open>auto simp: record_result_def\<close>)

lemma serve_submit_cases:
  assumes "serve_submit c lib env enabled shards rank q graded ts now = Some (shards', a)" "rank < length shards"
  obtains "shards' = shards" "written a = None"
  | g db rd where "graded = Scored g" "\<not> replay_recorded env shards q ts" "shards' = shards[rank := db]" "written a = rd_grade rd"
      "record_submit c lib env (shards ! rank) (gr_score g) (gr_layout g) (po_submission q) (po_task q) (gr_judgement g) (po_episode q)
         (po_optimizer q) (gr_status g) (po_tokens q) (po_phase q) (gr_final g) (gr_laws g)
         (case ts of None \<Rightarrow> now | Some t \<Rightarrow> t) now = Some (Inr (db, rd))"
proof (cases "replay_recorded env shards q ts")
  case True
  with assms(1) that(1) show ?thesis
    by (simp add: serve_submit_def written_def)
next
  case False
  show ?thesis
  proof (cases graded)
    case (Scored g)
    then obtain db r where r: "record_result c lib env enabled (shards ! rank) q g ts now = Some (db, r)"
      and out: "shards' = shards[rank := db]" "a = Answered r"
      using assms(1) False by (auto simp: serve_submit_def)
    show ?thesis
    proof (cases "ra_recorded r")
      case None
      then have "db = shards ! rank"
        using record_result_cases [OF r] by simp
      then show ?thesis
        using that(1) out None by (simp add: written_def)
    next
      case (Some rd)
      then have "record_submit c lib env (shards ! rank) (gr_score g) (gr_layout g) (po_submission q) (po_task q) (gr_judgement g) (po_episode q)
         (po_optimizer q) (gr_status g) (po_tokens q) (po_phase q) (gr_final g) (gr_laws g)
         (case ts of None \<Rightarrow> now | Some t \<Rightarrow> t) now = Some (Inr (db, rd))"
        using record_result_cases [OF r] by simp
      then show ?thesis
        using that(2) Scored False out Some by (simp add: written_def)
    qed
  qed (use assms(1) False that(1) in \<open>simp_all add: serve_submit_def written_def\<close>)
qed

text \<open>What every reachable state keeps.\<close>

definition log_kept :: "judge_env \<Rightarrow> results list \<Rightarrow> (posted \<times> int \<times> bool) list \<Rightarrow> bool" where
  "log_kept env shards trace \<longleftrightarrow> list_all (\<lambda>db. results_ok db \<and> consistent db) shards \<and>
     list_all (\<lambda>(q, ts, w). w \<longrightarrow> replay_recorded env shards q (Some ts)) trace \<and>
     distinct (map (\<lambda>(q, ts, _). post_key env q ts) (filter (\<lambda>(_, _, w). w) trace))"

lemma serve_keeps:
  assumes "log_kept env shards trace" "serve_submit c lib env enabled shards rank q graded ts now = Some (shards', a)"
    "rank < length shards" "outcome_ok graded"
  shows "log_kept env shards' trace"
  using assms(2,3)
proof (cases rule: serve_submit_cases)
  case (2 g db rd)
  have ok: "results_ok (shards ! rank)" "consistent (shards ! rank)"
    using assms(1,3) by (auto simp: log_kept_def list_all_length)
  have "final_ok (gr_final g)"
    using assms(4) 2(1) by (simp add: outcome_ok_def)
  note kept = recorded_kept [OF ok this 2(5)]
  have "replay_recorded env shards' r (Some u)" if recorded: "replay_recorded env shards r (Some u)" for r u
  proof -
    obtain k where k: "k < length shards"
      "shard_records env (po_episode r) (gt_kernel (po_task r)) u (po_submission r) (shards ! k)"
      using recorded by (auto simp: replay_recorded_def submit_recorded_shards in_set_conv_nth)
    then have "shard_records env (po_episode r) (gt_kernel (po_task r)) u (po_submission r) (shards' ! k)"
      using kept by (cases "k = rank") (simp_all add: 2(3))
    moreover have "shards' ! k \<in> set shards'"
      using k(1) by (simp add: 2(3))
    ultimately show ?thesis
      by (auto simp: replay_recorded_def submit_recorded_shards)
  qed
  moreover have "results_ok db \<and> consistent db"
    using touchesD(1,3) [OF record_submit_touches [OF 2(5)]] ok by blast
  then have "list_all (\<lambda>db. results_ok db \<and> consistent db) shards'"
    using assms(1) set_update_subset_insert [of shards rank db] by (auto simp: 2(3) log_kept_def list_all_iff)
  ultimately show ?thesis
    using assms(1) by (auto simp: log_kept_def list_all_iff)
qed (use assms(1) in simp)

lemma served_kept: "served c lib env enabled shards trace \<Longrightarrow> log_kept env shards trace"
proof (induction rule: served.induct)
  case (post shards trace rank graded q ts now shards' a)
  have kept: "log_kept env shards' trace"
    using serve_keeps [OF post.IH post.hyps(4,2,3)] .
  show ?case
    using post.hyps(4,2)
  proof (cases rule: serve_submit_cases)
    case 1
    then show ?thesis
      using kept by (simp add: log_kept_def)
  next
    case (2 g db rd)
    show ?thesis
    proof (cases "rd_grade rd")
      case None
      then show ?thesis
        using kept 2(4) by (simp add: log_kept_def)
    next
      case (Some i)
      have ok: "results_ok (shards ! rank)" "consistent (shards ! rank)"
        using post.IH post.hyps(2) by (auto simp: log_kept_def list_all_length)
      have final: "final_ok (gr_final g)"
        using post.hyps(3) 2(1) by (simp add: outcome_ok_def)
      have "db = shards' ! rank"
        using 2(3) post.hyps(2) by simp
      have new: "replay_recorded env shards' q (Some ts)"
        unfolding replay_recorded_def option.case 2(3) upd_conv_take_nth_drop [OF post.hyps(2)]
      proof -
        from 2(5) have run: "record_submit c lib env (shards ! rank) (gr_score g) (gr_layout g) (po_submission q) (po_task q) (gr_judgement g)
            (po_episode q) (po_optimizer q) (gr_status g) (po_tokens q) (po_phase q) (gr_final g) (gr_laws g) ts now = Some (Inr (db, rd))"
          by simp
        obtain row t where row: "(i, row) \<in> set (db ''grades'')" "field row ''ts_ms'' = SInt t"
          using submit_stamped [OF ok(1) final run Some] by blast
        have "t \<le> ts + REPLAY_TWIN_WINDOW_MS"
          using post.hyps(5) row 2(4) Some \<open>db = shards' ! rank\<close> by (auto simp: in_window_def list_all_iff)
        from recognised_lemma [OF ok final run Some row this]
        show "submit_recorded env (take rank shards @ db # drop (Suc rank) shards) (po_episode q) (gt_kernel (po_task q)) ts (po_submission q)" .
      qed
      have "post_key env q ts \<notin> (\<lambda>(q, ts, _). post_key env q ts) ` set (filter (\<lambda>(_, _, w). w) trace)"
      proof
        assume "post_key env q ts \<in> (\<lambda>(q, ts, _). post_key env q ts) ` set (filter (\<lambda>(_, _, w). w) trace)"
        then obtain r u where r: "(r, u, True) \<in> set trace" "post_key env q ts = post_key env r u"
          by auto
        then have "replay_recorded env shards r (Some u)"
          using post.IH by (auto simp only: log_kept_def list_all_iff dest: bspec)
        with recorded_by_key [OF r(2)] 2(2) show False
          by simp
      qed
      then show ?thesis
        using kept new 2(4) Some by (simp add: log_kept_def)
    qed
  qed
next
  case (live shards trace rank graded q now shards' a)
  from serve_keeps [OF live.IH live.hyps(4,2,3)] show ?case .
qed (simp add: log_kept_def)

definition sample_posted :: posted where
  "sample_posted = \<lparr>po_episode = ''L'', po_optimizer = [], po_task = sample_graded, po_submission = sample_submission, po_tokens = 7,
     po_phase = ''solve''\<rparr>"

definition sample_grading :: grading where
  "sample_grading = \<lparr>gr_score = sample_score, gr_layout = sample_layout, gr_judgement = \<lparr>j_findings = [], j_ran = []\<rparr>, gr_status = None,
     gr_final = None, gr_laws = []\<rparr>"

lemma sample_new: "\<not> replay_recorded sample_env [sample_db] sample_posted (Some 9)"
  by code_simp

lemma sample_served:
  obtains db' where "served plain_codec plain_relayout sample_env True [db'] [(sample_posted, 9, True)]"
proof -
  obtain db' row where r: "sample_record = Some (Inr (db', \<lparr>rd_outcome = ''submission'', rd_detail = ''clean'', rd_grade = Some 2\<rparr>))"
    and row: "(2, row) \<in> set (db' ''grades'')" "field row ''ts_ms'' = SInt 9"
    by (rule sample_recorded)
  let ?a = "Answered \<lparr>ra_recorded = Some \<lparr>rd_outcome = ''submission'', rd_detail = ''clean'', rd_grade = Some 2\<rparr>, ra_error = None,
     ra_judge_fault = j_harness_fault (gr_judgement sample_grading)\<rparr>"
  have run: "serve_submit plain_codec plain_relayout sample_env True [sample_db] 0 sample_posted (Scored sample_grading) (Some 9) 10 =
      Some ([db'], ?a)"
    using r sample_new by (simp add: serve_submit_def record_result_def sample_posted_def sample_grading_def sample_record_def)
  have start: "served plain_codec plain_relayout sample_env True [sample_db] []"
    by (rule served.start) (simp add: sample_db_ok sample_db_consistent)
  have "results_ok db'"
    using touchesD(1) [OF record_submit_touches [OF r [unfolded sample_record_def]] sample_db_ok] .
  then have "distinct (map fst (db' ''grades''))"
    by (simp add: results_ok_def table_ok_def)
  then have "field r ''ts_ms'' = SInt 9" if "(2, r) \<in> set (db' ''grades'')" for r
    using row that eq_key_imp_eq_value [of "db' ''grades''" 2 row r] by simp
  then have "in_window db' ?a 9"
    unfolding in_window_def list_all_iff REPLAY_TWIN_WINDOW_MS_def by (auto simp: written_def)
  then have "served plain_codec plain_relayout sample_env True [db'] ([] @ [(sample_posted, 9, written ?a \<noteq> None)])"
    by (intro served.post [OF start _ _ run]) (simp_all add: outcome_ok_def final_ok_def sample_grading_def)
  with that show ?thesis
    by (simp add: written_def)
qed


text \<open>
  An answer of 200 does not say that a grade was recorded: a recording that raises is answered like any other, nothing is
  written, and the replay marks its entry done.
\<close>

lemma answered_but_unrecorded:
  assumes "\<not> replay_recorded env shards q ts" "je_log_attempts env" "s_speedup (gr_score g) = Not_A_Number" "rank < length shards"
  shows "\<exists>a. serve_submit c lib env True shards rank q (Scored g) ts now = Some (shards, a) \<and> answer_status a = 200 \<and> written a = None"
  using assms by (simp add: serve_submit_def record_result_def record_submit_eq nan_refused_def answer_status_def written_def)

section \<open>Folders and the spool\<close>

lemma frozen_not_writable: "frozen_mode m AND WRITE_BITS = 0"
  by (simp add: frozen_mode_def and.assoc and.commute [of "NOT WRITE_BITS"])

lemma thawed_owner_writes: "thawed_mode (frozen_mode m) AND 128 = 128"
  by (simp add: thawed_mode_def bit_simps bit_eq_iff) (auto simp: bit_simps)

text \<open>A spooled library reads back under its own name, as long as every file of the spool is named by its digest.\<close>

lemma path_stem_so: "CHR ''.'' \<notin> set name \<Longrightarrow> name \<noteq> [] \<Longrightarrow> path_stem (name @ ''.so'') = name"
proof -
  assume plain: "CHR ''.'' \<notin> set name" "name \<noteq> []"
  have "dropWhile (\<lambda>c. c \<noteq> CHR ''.'') (rev (name @ ''.so'')) = CHR ''.'' # rev name"
    by simp
  with plain show ?thesis
    by (simp add: path_stem_def Let_def)
qed

lemma spooled_reads_back:
  assumes "spool digest files queue (Some data) = Inr (files', target)" "queue \<noteq> []"
    and "CHR ''.'' \<notin> set (digest data)" "digest data \<noteq> []"
    and "\<And>old. files (spool_dir queue @ [digest data @ ''.so'']) = Some old \<Longrightarrow> digest old = digest data"
  shows "spooled digest files' True target = Inr (Some target)"
proof -
  have target: "target = spool_dir queue @ [digest data @ ''.so'']"
    and files': "files' = (if files target \<noteq> None then files else files(target \<mapsto> data))"
    using assms(1) by (auto simp: spool_def Let_def)
  obtain old where "files' target = Some old" "digest old = digest data"
    using assms(5) files' target by (cases "files target") auto
  moreover have "ends_with (last (spool_dir queue)) SPOOL_SUFFIX" "2 \<le> length target" "spool_dir queue \<noteq> []"
    using assms(2) by (cases queue; simp add: spool_dir_def ends_with_def target)+
  ultimately show ?thesis
    using path_stem_so [OF assms(3,4)] by (simp add: spooled_def target)
qed

end
